(* ===== verification/Py_Prelude.thy ===== *)
theory Py_Prelude
  imports Main
begin

text \<open>
  Shared vocabulary of the development: the exceptions the modelled Python raises, results as
  sums with a sequencing combinator, dictionaries that keep insertion order, and decimal
  rendering and reading of integers. Every component theory imports this one.

  A Python function that may raise is a HOL function into \<open>py_error + 'a\<close>: \<open>Inl\<close> is the exception
  that leaves the function, \<open>Inr\<close> its result. An exception that leaves a function abandons the
  state the function was building, because no modelled caller catches it; handlers that do exist in
  the code are written out where they stand.
\<close>

named_theorems res_simps "sequencing of results"
named_theorems dict_simps "lookups and updates of insertion-ordered dictionaries"

section \<open>Exceptions\<close>

text \<open>
  One constructor per raise site of the modelled code (the message is kept where it carries data
  the code computed), and one per exception of the language itself that the code can hit.
\<close>

datatype py_error =
    UnresolvedName string        \<comment> \<open>RuntimeError of \<^verbatim>\<open>Scope.lookup\<close>\<close>
  | CannotResolve                \<comment> \<open>RuntimeError of \<^verbatim>\<open>Expr.resolve\<close> on a number with a unit\<close>
  | ArityMismatch nat nat        \<comment> \<open>RuntimeError of \<^verbatim>\<open>GenerateModule\<close>: expected, passed\<close>
  | UnrecognizedNodeType         \<comment> \<open>RuntimeError of \<^verbatim>\<open>GenNewNode\<close>\<close>
  | ModuleNotDefined string      \<comment> \<open>RuntimeError of \<^verbatim>\<open>GenSubmodule\<close>\<close>
  | UnitComparison               \<comment> \<open>RuntimeError of \<^verbatim>\<open>GenIf\<close>\<close>
  | UnrecognizedLinkType string  \<comment> \<open>RuntimeError of \<^verbatim>\<open>_emit_link_helper\<close>\<close>
  | UnknownNode string           \<comment> \<open>ValueError of \<^verbatim>\<open>_resolve_node\<close>\<close>
  | InvalidOperator string       \<comment> \<open>ValueError of the \<^verbatim>\<open>condition\<close> callback\<close>
  | ValueError                   \<comment> \<open>a ValueError raised by a builtin\<close>
  | KeyError
  | IndexError
  | TypeError
  | AttributeError
  | ZeroDivisionError
  | RecursionError               \<comment> \<open>the interpreter's stack limit\<close>
  | UnboundLocalError
  | NameError
  | AssertionError
  | SizeChanged                  \<comment> \<open>RuntimeError of a dictionary that changes under its iterator\<close>
  | DependencyCycle              \<comment> \<open>\<^verbatim>\<open>topsort.CycleError\<close>\<close>
  | ImportError
  | CodeGenerationError string   \<comment> \<open>of pybindgen, raised by the code with a message\<close>
  | NotSupportedError
  | FileNotFoundError
  | SystemExit int               \<comment> \<open>\<^verbatim>\<open>sys.exit(n)\<close>\<close>

section \<open>Sequencing of results\<close>

definition res_bind :: "'e + 'a \<Rightarrow> ('a \<Rightarrow> 'e + 'b) \<Rightarrow> 'e + 'b" where
  "res_bind r f = (case r of Inl e \<Rightarrow> Inl e | Inr x \<Rightarrow> f x)"

lemma res_bind_Inl [simp, res_simps]: "res_bind (Inl e) f = Inl e"
  by (simp add: res_bind_def)

lemma res_bind_Inr [simp, res_simps]: "res_bind (Inr x) f = f x"
  by (simp add: res_bind_def)

lemma res_bind_eq_Inr [res_simps]:
  "res_bind r f = Inr y \<longleftrightarrow> (\<exists>x. r = Inr x \<and> f x = Inr y)"
  by (cases r) auto

lemma res_bind_eq_Inl [res_simps]:
  "res_bind r f = Inl e \<longleftrightarrow> r = Inl e \<or> (\<exists>x. r = Inr x \<and> f x = Inl e)"
  by (cases r) auto

lemma res_bind_Inr_right [simp]: "res_bind r Inr = r"
  by (cases r) simp_all

lemma res_bind_assoc: "res_bind (res_bind r f) g = res_bind r (\<lambda>x. res_bind (f x) g)"
  by (cases r) auto

lemma res_bind_cong [fundef_cong]:
  assumes "r = r'" and "\<And>x. r' = Inr x \<Longrightarrow> f x = f' x"
  shows "res_bind r f = res_bind r' f'"
  using assms by (cases r') auto

lemma res_bindE:
  assumes "res_bind r f = Inr y"
  obtains x where "r = Inr x" and "f x = Inr y"
  using assms by (cases r) auto

definition is_ok :: "'e + 'a \<Rightarrow> bool" where
  "is_ok r = (case r of Inl _ \<Rightarrow> False | Inr _ \<Rightarrow> True)"

lemma is_ok_simps [simp, res_simps]: "\<not> is_ok (Inl e)" "is_ok (Inr x)"
  by (simp_all add: is_ok_def)

lemma is_ok_iff: "is_ok r \<longleftrightarrow> (\<exists>x. r = Inr x)"
  by (cases r) auto

text \<open>A list of results, in order, stopping at the first exception: a \<^verbatim>\<open>for\<close> loop that appends.\<close>

fun res_map :: "('a \<Rightarrow> 'e + 'b) \<Rightarrow> 'a list \<Rightarrow> 'e + 'b list" where
  "res_map f [] = Inr []"
| "res_map f (x # xs) = res_bind (f x) (\<lambda>y. res_bind (res_map f xs) (\<lambda>ys. Inr (y # ys)))"

lemma res_map_Inr_length: "res_map f xs = Inr ys \<Longrightarrow> length ys = length xs"
  by (induction xs arbitrary: ys) (auto simp: res_bind_eq_Inr)

lemma res_map_cong [fundef_cong]:
  assumes "xs = ys" and "\<And>x. x \<in> set ys \<Longrightarrow> f x = g x"
  shows "res_map f xs = res_map g ys"
  using assms by (induction ys arbitrary: xs) auto

lemma res_map_append:
  "res_map f (xs @ ys) = res_bind (res_map f xs) (\<lambda>us. res_bind (res_map f ys) (\<lambda>vs. Inr (us @ vs)))"
  by (induction xs) (simp_all add: res_bind_assoc)

lemma res_map_Inr_map: "(\<And>x. x \<in> set xs \<Longrightarrow> f x = Inr (g x)) \<Longrightarrow> res_map f xs = Inr (map g xs)"
  by (induction xs) auto

lemma is_ok_res_bind: "is_ok (res_bind r f) \<longleftrightarrow> (\<exists>x. r = Inr x \<and> is_ok (f x))"
  by (cases r) simp_all

lemma is_ok_res_map: "is_ok (res_map f xs) \<longleftrightarrow> (\<forall>x \<in> set xs. is_ok (f x))"
proof (induction xs)
  case (Cons x xs)
  then show ?case by (cases "f x"; cases "res_map f xs") auto
qed simp

text \<open>A loop that threads a state and may raise.\<close>

fun res_fold :: "('a \<Rightarrow> 's \<Rightarrow> 'e + 's) \<Rightarrow> 'a list \<Rightarrow> 's \<Rightarrow> 'e + 's" where
  "res_fold f [] s = Inr s"
| "res_fold f (x # xs) s = res_bind (f x s) (\<lambda>s'. res_fold f xs s')"

lemma res_fold_append: "res_fold f (xs @ ys) s = res_bind (res_fold f xs s) (res_fold f ys)"
  by (induction xs arbitrary: s) (auto simp: res_bind_def split: sum.split)

section \<open>Dictionaries that keep insertion order\<close>

text \<open>
  A \<^verbatim>\<open>dict\<close> is the list of its items in insertion order. Writing an existing key keeps its place;
  writing a new key puts it last; deleting drops it.
\<close>

type_synonym ('k, 'v) dict = "('k \<times> 'v) list"

abbreviation dget :: "('k, 'v) dict \<Rightarrow> 'k \<Rightarrow> 'v option" where
  "dget \<equiv> map_of"

abbreviation dkeys :: "('k, 'v) dict \<Rightarrow> 'k list" where
  "dkeys d \<equiv> map fst d"

fun dset :: "'k \<Rightarrow> 'v \<Rightarrow> ('k, 'v) dict \<Rightarrow> ('k, 'v) dict" where
  "dset k v [] = [(k, v)]"
| "dset k v ((k', v') # d) = (if k' = k then (k, v) # d else (k', v') # dset k v d)"

fun ddel :: "'k \<Rightarrow> ('k, 'v) dict \<Rightarrow> ('k, 'v) dict" where
  "ddel k [] = []"
| "ddel k ((k', v') # d) = (if k' = k then ddel k d else (k', v') # ddel k d)"

text \<open>\<^verbatim>\<open>dict(items)\<close>: later items overwrite earlier ones.\<close>

definition dict_of :: "('k \<times> 'v) list \<Rightarrow> ('k, 'v) dict" where
  "dict_of items = fold (\<lambda>(k, v). dset k v) items []"

lemma dget_dset [simp, dict_simps]: "dget (dset k v d) = (dget d)(k \<mapsto> v)"
  by (induction k v d rule: dset.induct) (auto simp: fun_eq_iff)

lemma dkeys_dset [dict_simps]:
  "dkeys (dset k v d) = (if k \<in> set (dkeys d) then dkeys d else dkeys d @ [k])"
  by (induction k v d rule: dset.induct) auto

lemma set_dkeys_dset [simp, dict_simps]: "fst ` set (dset k v d) = insert k (fst ` set d)"
  by (induction k v d rule: dset.induct) auto

lemma dset_fresh [dict_simps]: "k \<notin> fst ` set d \<Longrightarrow> dset k v d = d @ [(k, v)]"
  by (induction k v d rule: dset.induct) auto

lemma distinct_dkeys_dset [simp, intro]: "distinct (dkeys d) \<Longrightarrow> distinct (dkeys (dset k v d))"
  by (auto simp: dkeys_dset)

lemma dget_ddel [simp, dict_simps]: "dget (ddel k d) = (dget d)(k := None)"
  by (induction k d rule: ddel.induct) (auto simp: fun_eq_iff)

lemma dkeys_ddel [simp, dict_simps]: "dkeys (ddel k d) = filter (\<lambda>x. x \<noteq> k) (dkeys d)"
  by (induction k d rule: ddel.induct) auto

lemma length_dset_key: "dget d k \<noteq> None \<Longrightarrow> length (dset k v d) = length d"
  by (induction d) (auto split: if_splits)

lemma length_ddel_le: "length (ddel k d) \<le> length d"
  by (induction d) (auto split: if_splits)

lemma length_ddel: "dget d k \<noteq> None \<Longrightarrow> length (ddel k d) < length d"
  by (induction d) (auto simp: less_Suc_eq_le length_ddel_le)

lemma ddel_filter: "ddel k d = filter (\<lambda>(x, _). x \<noteq> k) d"
  by (induction k d rule: ddel.induct) auto

lemma dget_None_iff: "dget d k = None \<longleftrightarrow> k \<notin> set (dkeys d)"
  by (auto simp: map_of_eq_None_iff)

lemma dget_Some_key: "dget d k = Some v \<Longrightarrow> k \<in> set (dkeys d)"
  by (metis dget_None_iff option.distinct(1))

lemma dget_key_Some: "k \<in> set (dkeys d) \<Longrightarrow> \<exists>v. dget d k = Some v"
  by (metis dget_None_iff not_None_eq)

lemma set_dset_subset: "set (dset k v d) \<subseteq> insert (k, v) (set d)"
  by (induction k v d rule: dset.induct) auto

lemma distinct_dkeys_fold_dset:
  "distinct (dkeys d) \<Longrightarrow> distinct (dkeys (fold (\<lambda>(k, v). dset k v) items d))"
  by (induction items arbitrary: d) (auto split: prod.splits)

lemma distinct_dkeys_dict_of [simp, intro]: "distinct (dkeys (dict_of items))"
  by (simp add: dict_of_def distinct_dkeys_fold_dset)

lemma dget_fold_dset: "dget (fold (\<lambda>(k, v). dset k v) items d) = dget d ++ dget (rev items)"
  by (induction items arbitrary: d) (simp_all split: prod.split)

lemma dget_dict_of: "dget (dict_of items) = dget (rev items)"
  by (simp add: dict_of_def dget_fold_dset)

lemma dict_of_distinct: "distinct (dkeys items) \<Longrightarrow> dict_of items = items"
proof -
  have "distinct (dkeys (d @ items)) \<Longrightarrow> fold (\<lambda>(k, v). dset k v) items d = d @ items" for d
    by (induction items arbitrary: d) (auto simp: dset_fresh)
  from this [of "[]"] show "distinct (dkeys items) \<Longrightarrow> dict_of items = items"
    by (simp add: dict_of_def)
qed

subsection \<open>The dictionary interface\<close>

text \<open>
  What the components rely on when they keep a dictionary: what a lookup returns after an update,
  and where a key stands in the iteration order. A client that gives out consecutive numbers to new
  keys (node indices, link helpers) gets its density lemma from the interface alone.
\<close>

locale ordered_dict =
  fixes empty :: "'d"
    and get :: "'d \<Rightarrow> 'k \<Rightarrow> 'v option"
    and put :: "'k \<Rightarrow> 'v \<Rightarrow> 'd \<Rightarrow> 'd"
    and keys :: "'d \<Rightarrow> 'k list"
    and wf :: "'d \<Rightarrow> bool"
  assumes wf_empty: "wf empty"
    and keys_empty: "keys empty = []"
    and wf_put: "wf d \<Longrightarrow> wf (put k v d)"
    and get_put: "wf d \<Longrightarrow> get (put k v d) = (get d)(k \<mapsto> v)"
    and keys_put: "wf d \<Longrightarrow> keys (put k v d) = (if k \<in> set (keys d) then keys d else keys d @ [k])"
    and get_None: "wf d \<Longrightarrow> get d k = None \<longleftrightarrow> k \<notin> set (keys d)"
    and distinct_keys: "wf d \<Longrightarrow> distinct (keys d)"
begin

lemma get_empty: "get empty k = None"
  using get_None [OF wf_empty] keys_empty by simp

text \<open>The table numbers its keys in insertion order: the \<open>i\<close>-th key has value \<open>i\<close>.\<close>

definition numbers :: "(nat \<Rightarrow> 'v) \<Rightarrow> 'd \<Rightarrow> nat \<Rightarrow> bool" where
  "numbers emb d n \<longleftrightarrow> wf d \<and> map (get d) (keys d) = map (Some \<circ> emb) [0..<n]"

lemma numbers_empty: "numbers emb empty 0"
  by (simp add: numbers_def wf_empty keys_empty)

lemma numbers_fresh:
  assumes "numbers emb d n" and "get d k = None"
  shows "numbers emb (put k (emb n) d) (Suc n)"
proof -
  from assms have wf: "wf d" and fresh: "k \<notin> set (keys d)"
    and nums: "map (get d) (keys d) = map (Some \<circ> emb) [0..<n]"
    by (simp_all add: numbers_def get_None)
  have "map (get (put k (emb n) d)) (keys d) = map (get d) (keys d)"
    using fresh by (auto simp: get_put [OF wf])
  with nums fresh wf show ?thesis
    by (simp add: numbers_def wf_put keys_put get_put)
qed

lemma numbers_bounded:
  assumes "numbers emb d n" and "get d k = Some v"
  shows "\<exists>i<n. v = emb i"
proof -
  from assms have "k \<in> set (keys d)"
    by (metis get_None numbers_def option.distinct(1))
  with assms(2) have "Some v \<in> set (map (get d) (keys d))"
    by (metis image_eqI set_map)
  with assms(1) show ?thesis
    by (auto simp: numbers_def)
qed

lemma numbers_injective:
  assumes "numbers emb d n" and "inj emb" and "get d k = Some v" and "get d k' = Some v"
  shows "k = k'"
proof -
  from assms(1) have "distinct (map (get d) (keys d))"
    using assms(2) by (simp add: numbers_def distinct_map inj_on_def)
  moreover from assms have "k \<in> set (keys d)" "k' \<in> set (keys d)"
    by (metis get_None numbers_def option.distinct(1))+
  ultimately show ?thesis
    using assms(3,4) by (simp add: distinct_map inj_on_def)
qed

end

interpretation pydict: ordered_dict "[]" dget dset dkeys "\<lambda>d. distinct (dkeys d)"
  by unfold_locales (auto simp: dkeys_dset dget_None_iff)

section \<open>Decimal numerals\<close>

text \<open>\<^verbatim>\<open>str(n)\<close> and \<^verbatim>\<open>int(s)\<close> for digit strings, and \<^verbatim>\<open>str\<close> of an integer with its sign.\<close>

definition digit_char :: "nat \<Rightarrow> char" where
  "digit_char d = ''0123456789'' ! d"

definition digit_val :: "char \<Rightarrow> nat option" where
  "digit_val c =
     map_of (zip ''0123456789'' [0::nat, 1, 2, 3, 4, 5, 6, 7, 8, 9]) c"

fun str_nat :: "nat \<Rightarrow> string" where
  "str_nat n = (if n < 10 then [digit_char n] else str_nat (n div 10) @ [digit_char (n mod 10)])"

declare str_nat.simps [simp del]

definition str_int :: "int \<Rightarrow> string" where
  "str_int z = (if z < 0 then CHR ''-'' # str_nat (nat (- z)) else str_nat (nat z))"

fun digits_val :: "nat \<Rightarrow> string \<Rightarrow> nat option" where
  "digits_val acc [] = Some acc"
| "digits_val acc (c # cs) =
     (case digit_val c of None \<Rightarrow> None | Some d \<Rightarrow> digits_val (10 * acc + d) cs)"

text \<open>
  \<^verbatim>\<open>int(s)\<close> on a token of the grammar, which has no sign, no spaces and no underscores: the value
  of a non-empty digit string, otherwise ValueError.
\<close>

definition py_int :: "string \<Rightarrow> py_error + int" where
  "py_int s =
     (if s = [] then Inl ValueError
      else case digits_val 0 s of None \<Rightarrow> Inl ValueError | Some n \<Rightarrow> Inr (int n))"

lemma digit_val_digit_char: "d < 10 \<Longrightarrow> digit_val (digit_char d) = Some d"
proof -
  assume "d < 10"
  then have "d = 0 \<or> d = 1 \<or> d = 2 \<or> d = 3 \<or> d = 4 \<or> d = 5 \<or> d = 6 \<or> d = 7 \<or> d = 8 \<or> d = 9"
    by arith
  then show ?thesis
    by (elim disjE) (simp_all add: digit_val_def digit_char_def)
qed

lemma digits_val_append:
  "digits_val acc (s @ t) = (case digits_val acc s of None \<Rightarrow> None | Some a \<Rightarrow> digits_val a t)"
  by (induction acc s rule: digits_val.induct) (auto split: option.splits)

lemma digits_val_str_nat: "digits_val 0 (str_nat n) = Some n"
proof (induction n rule: str_nat.induct)
  case (1 n)
  show ?case
  proof (cases "n < 10")
    case True
    then show ?thesis by (simp add: str_nat.simps [of n] digit_val_digit_char)
  next
    case False
    then show ?thesis
      using "1.IH" by (simp add: str_nat.simps [of n] digits_val_append digit_val_digit_char)
  qed
qed

lemma str_nat_nonempty [simp]: "str_nat n \<noteq> []"
  by (subst str_nat.simps) simp

lemma str_nat_inject [simp]: "str_nat m = str_nat n \<longleftrightarrow> m = n"
  by (metis digits_val_str_nat option.inject)

lemma py_int_str_nat: "py_int (str_nat n) = Inr (int n)"
  by (simp add: py_int_def digits_val_str_nat)

lemma digit_char_in_digits: "d < 10 \<Longrightarrow> digit_char d \<in> set ''0123456789''"
  by (simp add: digit_char_def nth_mem del: set_simps)

lemma str_nat_digits: "c \<in> set (str_nat n) \<Longrightarrow> c \<in> set ''0123456789''"
proof (induction n rule: str_nat.induct)
  case (1 n)
  show ?case
  proof (cases "n < 10")
    case True
    with "1.prems" show ?thesis
      using digit_char_in_digits [of n] by (simp add: str_nat.simps [of n])
  next
    case False
    with "1.prems" consider "c \<in> set (str_nat (n div 10))" | "c = digit_char (n mod 10)"
      by (auto simp: str_nat.simps [of n])
    then show ?thesis
      using "1.IH" False digit_char_in_digits [of "n mod 10"] by cases simp_all
  qed
qed

lemma str_nat_no_char: "c \<notin> set ''0123456789'' \<Longrightarrow> c \<notin> set (str_nat n)"
  using str_nat_digits by blast

lemma str_int_inject [simp]: "str_int a = str_int b \<longleftrightarrow> a = b"
proof -
  have "CHR ''-'' \<notin> set (str_nat n)" for n
    by (rule str_nat_no_char) simp
  then have "str_nat n \<noteq> CHR ''-'' # s" for n s
    by (metis list.set_intros(1))
  then show ?thesis
    by (auto simp: str_int_def) metis+
qed

section \<open>Joining lines\<close>

fun join :: "string \<Rightarrow> string list \<Rightarrow> string" where
  "join sep [] = []"
| "join sep [x] = x"
| "join sep (x # y # xs) = x @ sep @ join sep (y # xs)"

section \<open>Splitting and searching strings\<close>

text \<open>\<^verbatim>\<open>s.split(c)\<close> and \<^verbatim>\<open>s.split(c, 1)\<close> for a one-character separator, and \<^verbatim>\<open>t in s\<close>.\<close>

fun split_char :: "char \<Rightarrow> string \<Rightarrow> string list" where
  "split_char c [] = [[]]"
| "split_char c (x # xs) =
     (if x = c then [] # split_char c xs
      else case split_char c xs of p # ps \<Rightarrow> (x # p) # ps | [] \<Rightarrow> [[x]])"

definition split_once :: "char \<Rightarrow> string \<Rightarrow> string list" where
  "split_once c s =
     (case dropWhile (\<lambda>x. x \<noteq> c) s of [] \<Rightarrow> [s] | _ # rest \<Rightarrow> [takeWhile (\<lambda>x. x \<noteq> c) s, rest])"

fun py_in :: "string \<Rightarrow> string \<Rightarrow> bool" where
  "py_in t [] = (t = [])"
| "py_in t (c # s) = (take (length t) (c # s) = t \<or> py_in t s)"

lemma split_char_no_sep: "c \<notin> set s \<Longrightarrow> split_char c s = [s]"
  by (induction s) auto

lemma split_char_append: "c \<notin> set a \<Longrightarrow> split_char c (a @ c # b) = a # split_char c b"
  by (induction a) auto

lemma split_once_append: "c \<notin> set a \<Longrightarrow> split_once c (a @ c # b) = [a, b]"
proof -
  assume "c \<notin> set a"
  then have "dropWhile (\<lambda>x. x \<noteq> c) (a @ c # b) = c # b" "takeWhile (\<lambda>x. x \<noteq> c) (a @ c # b) = a"
    by (auto simp: dropWhile_append takeWhile_append)
  then show ?thesis by (simp add: split_once_def)
qed

lemma py_in_append: "py_in t (a @ t @ b)"
proof (induction a)
  case Nil
  have "take (length t) (t @ b) = t" by simp
  then show ?case by (cases "t @ b") auto
qed simp

text \<open>\<^verbatim>\<open>str.strip()\<close>, for the whitespace of a Python 3 string up to U+00FF.\<close>

definition py_space :: "char \<Rightarrow> bool" where
  "py_space c \<longleftrightarrow>
     c \<in> {CHR '' '', CHR 0x09, CHR 0x0A, CHR 0x0B, CHR 0x0C, CHR 0x0D,
          CHR 0x1C, CHR 0x1D, CHR 0x1E, CHR 0x1F, CHR 0x85, CHR 0xA0}"

definition py_strip :: "string \<Rightarrow> string" where
  "py_strip s = rev (dropWhile py_space (rev (dropWhile py_space s)))"

text \<open>\<^verbatim>\<open>str.startswith\<close>.\<close>

definition starts_with :: "string \<Rightarrow> string \<Rightarrow> bool" where
  "starts_with s t = (take (length t) s = t)"

lemma starts_with_append [simp]: "starts_with (t @ s) t"
  by (simp add: starts_with_def)

section \<open>Sums over lists\<close>

lemma sum_list_update_add:
  fixes f :: "'a \<Rightarrow> 'b::comm_monoid_add"
  assumes "i < length xs"
  shows "sum_list (map f (xs[i := x])) + f (xs ! i) = sum_list (map f xs) + f x"
  using assms
proof (induction xs arbitrary: i)
  case (Cons y ys)
  then show ?case by (cases i) (simp_all add: ac_simps)
qed simp

lemma sum_list_replicate_zero: "sum_list (replicate n (0 :: 'b::comm_monoid_add)) = 0"
  by (induction n) simp_all

end
