(* ===== verification/Topo_Syntax.thy ===== *)
theory Topo_Syntax
  imports Py_Prelude
begin

text \<open>
  The topology language: parse trees in the shape of \<^verbatim>\<open>topology/grammar.lark\<close>, and the callbacks of
  \<^verbatim>\<open>TopoTransformer\<close> (\<^verbatim>\<open>topology/transformer.py\<close>) that turn them into instructions and blocks.

  The Lark parser is third-party code: its output, the parse tree, is an input of this model. An
  optional part in square brackets of the grammar is \<open>None\<close> when it is absent. The
  transformer calls one callback per tree node, children first and from left to right; \<open>tr_\<dots>\<close> is
  that walk, and each callback has a definition of its own under its Python name.

  Python identity. \<^verbatim>\<open>Expr\<close> has no \<^verbatim>\<open>__eq__\<close>, so two expressions are equal only when they are the same
  object; \<open>VExpr\<close> carries the number of the object in creation order, which makes equality of
  values agree with Python's. \<^verbatim>\<open>Block\<close> objects carry the number the code itself gives them
  (\<^verbatim>\<open>Block._id_counter\<close>).
\<close>

section \<open>Parse trees\<close>

datatype pt_suffix = SufVar string | SufNumber string

datatype pt_name = PName string "pt_suffix option"

datatype pt_ref = PRef pt_name "pt_name list"

datatype pt_atom = ANumber string | AName string | AVar string | AParen pt_expr
  and pt_term = PTerm pt_atom "(string \<times> pt_atom) list"
  and pt_expr = PExpr pt_term "(string \<times> pt_term) list"

datatype pt_value = PUnit string string | PVal pt_expr

type_synonym pt_attr = "string \<times> pt_value"

datatype pt_cond = PCond pt_value string pt_value

datatype pt_stmt =
    PNode pt_name "pt_attr list"
  | PLink pt_ref pt_ref "pt_attr list"
  | PUse pt_name "pt_value list option" pt_name
  | PRdma "pt_attr list"
  | PFor pt_name pt_value pt_value "pt_stmt list"
  | PIf pt_cond "pt_stmt list"

datatype pt_module = PModule string "string list option" "pt_stmt list"

section \<open>Values, instructions and blocks\<close>

text \<open>What the value callbacks return: an int, a str, a (number, unit) tuple or an \<^verbatim>\<open>Expr\<close> object.\<close>

datatype topo_value =
    VInt int
  | VStr string
  | VTup int string
  | VExpr nat string topo_value topo_value

datatype cmp_op = OpEq | OpNe | OpLt | OpLe | OpGt | OpGe

type_synonym attrs = "(string, topo_value) dict"

datatype insn =
    NewNodeInsn string topo_value attrs
  | NewLinkInsn "string list" "string list" attrs
  | RdmaConfigInsn attrs
  | SubmoduleInsn string string "topo_value list"
  | IfInsn topo_value cmp_op topo_value block
  | LoopInsn string topo_value topo_value block
  and block = Block (block_id: nat) (block_params: "string list") (block_insns: "insn list")

definition ops :: "string \<Rightarrow> cmp_op option" where
  "ops = map_of [(''=='', OpEq), (''!='', OpNe), (''<'', OpLt), (''<='', OpLe), (''>'', OpGt), (''>='', OpGe)]"

fun cmp_apply :: "cmp_op \<Rightarrow> int \<Rightarrow> int \<Rightarrow> bool" where
  "cmp_apply OpEq a b = (a = b)"
| "cmp_apply OpNe a b = (a \<noteq> b)"
| "cmp_apply OpLt a b = (a < b)"
| "cmp_apply OpLe a b = (a \<le> b)"
| "cmp_apply OpGt a b = (b < a)"
| "cmp_apply OpGe a b = (b \<le> a)"

section \<open>The transformer's state and callbacks\<close>

text \<open>How many \<^verbatim>\<open>Expr\<close> and \<^verbatim>\<open>Block\<close> objects exist, and the modules recorded so far.\<close>

record tstate =
  n_exprs :: nat
  n_blocks :: nat
  name_to_module :: "(string, block) dict"

definition init_tstate :: tstate where
  "init_tstate = \<lparr>n_exprs = 0, n_blocks = 0, name_to_module = []\<rparr>"

definition new_block :: "string list \<Rightarrow> insn list \<Rightarrow> tstate \<Rightarrow> block \<times> tstate" where
  "new_block params insns s = (Block (n_blocks s) params insns, s\<lparr>n_blocks := Suc (n_blocks s)\<rparr>)"

definition name_cb :: "pt_name \<Rightarrow> string" where
  "name_cb pn = (case pn of PName s suf \<Rightarrow>
     (case suf of None \<Rightarrow> s
      | Some (SufVar v) \<Rightarrow> s @ ''{'' @ v @ ''}''
      | Some (SufNumber n) \<Rightarrow> s @ n))"

definition ref_cb :: "pt_ref \<Rightarrow> string list" where
  "ref_cb r = (case r of PRef n ns \<Rightarrow> name_cb n # map name_cb ns)"

definition var_cb :: "string \<Rightarrow> topo_value" where
  "var_cb s = VStr (''{'' @ s @ ''}'')"

text \<open>
  \<^verbatim>\<open>atom\<close>: an \<^verbatim>\<open>Expr\<close> or plain \<^verbatim>\<open>str\<close> child is returned; a NUMBER token is read with \<^verbatim>\<open>int\<close>; a NAME
  token becomes a \<^verbatim>\<open>str\<close>. A child that is an \<^verbatim>\<open>int\<close> has no \<^verbatim>\<open>type\<close> attribute.
\<close>

datatype atom_item = TokNumber string | TokName string | Sub topo_value

definition atom_cb :: "atom_item \<Rightarrow> py_error + topo_value" where
  "atom_cb item =
     (case item of
        Sub v \<Rightarrow>
          (case v of VExpr _ _ _ _ \<Rightarrow> Inr v | VStr _ \<Rightarrow> Inr v
           | VInt _ \<Rightarrow> Inl AttributeError | VTup _ _ \<Rightarrow> Inl AttributeError)
      | TokNumber s \<Rightarrow> res_bind (py_int s) (\<lambda>n. Inr (VInt n))
      | TokName s \<Rightarrow> Inr (VStr s))"

text \<open>\<^verbatim>\<open>_fold_binop\<close>: the operands and operators of one precedence level, folded to the left.\<close>

fun fold_binop :: "topo_value \<Rightarrow> (string \<times> topo_value) list \<Rightarrow> tstate \<Rightarrow> topo_value \<times> tstate" where
  "fold_binop result [] s = (result, s)"
| "fold_binop result ((op, rhs) # rest) s =
     fold_binop (VExpr (n_exprs s) op result rhs) rest (s\<lparr>n_exprs := Suc (n_exprs s)\<rparr>)"

text \<open>\<^verbatim>\<open>value\<close>: a NUMBER with a UNIT becomes a tuple; anything else is the value of its expression.\<close>

definition value_unit_cb :: "string \<Rightarrow> string \<Rightarrow> py_error + topo_value" where
  "value_unit_cb num unit = res_bind (py_int num) (\<lambda>n. Inr (VTup n unit))"

definition node_stmt_cb :: "string \<Rightarrow> (string \<times> topo_value) list \<Rightarrow> insn" where
  "node_stmt_cb name items =
     (let attrs = dict_of items;
          node_type = (case dget attrs ''type'' of None \<Rightarrow> VStr ''default'' | Some t \<Rightarrow> t)
      in NewNodeInsn name node_type attrs)"

text \<open>
  \<^verbatim>\<open>NewLinkInsn(src, dst, **attrs)\<close>: an attribute with the name of one of the constructor's own
  parameters is passed twice, a TypeError.
\<close>

definition link_stmt_cb ::
  "string list \<Rightarrow> string list \<Rightarrow> (string \<times> topo_value) list \<Rightarrow> py_error + insn" where
  "link_stmt_cb src dst items =
     (let attrs = dict_of items
      in if \<exists>k \<in> set (dkeys attrs). k = ''self'' \<or> k = ''src'' \<or> k = ''dst'' then Inl TypeError
         else Inr (NewLinkInsn src dst attrs))"

definition rdma_stmt_cb :: "(string \<times> topo_value) list \<Rightarrow> insn" where
  "rdma_stmt_cb items = RdmaConfigInsn (dict_of items)"

definition use_stmt_cb :: "string \<Rightarrow> topo_value list option \<Rightarrow> string \<Rightarrow> insn" where
  "use_stmt_cb submodule_name args name =
     SubmoduleInsn name submodule_name (case args of None \<Rightarrow> [] | Some vs \<Rightarrow> vs)"

definition condition_cb ::
  "topo_value \<Rightarrow> string \<Rightarrow> topo_value \<Rightarrow> py_error + topo_value \<times> cmp_op \<times> topo_value" where
  "condition_cb l op_str r =
     (case ops op_str of None \<Rightarrow> Inl (InvalidOperator op_str) | Some op \<Rightarrow> Inr (l, op, r))"

definition for_stmt_cb ::
  "string \<Rightarrow> topo_value \<Rightarrow> topo_value \<Rightarrow> insn list \<Rightarrow> tstate \<Rightarrow> insn \<times> tstate" where
  "for_stmt_cb iter_name start end_v body_insns s =
     (let (body, s') = new_block [iter_name] body_insns s
      in (LoopInsn iter_name start end_v body, s'))"

definition if_stmt_cb ::
  "topo_value \<times> cmp_op \<times> topo_value \<Rightarrow> insn list \<Rightarrow> tstate \<Rightarrow> insn \<times> tstate" where
  "if_stmt_cb cond insns s =
     (let (true_block, s') = new_block [] insns s
      in case cond of (l, op, r) \<Rightarrow> (IfInsn l op r true_block, s'))"

definition module_cb :: "string \<Rightarrow> string list option \<Rightarrow> insn list \<Rightarrow> tstate \<Rightarrow> tstate" where
  "module_cb name params insns s =
     (let (b, s') = new_block (case params of None \<Rightarrow> [] | Some ps \<Rightarrow> ps) insns s
      in s'\<lparr>name_to_module := dset name b (name_to_module s')\<rparr>)"

section \<open>The bottom-up walk\<close>

fun tr_atom :: "pt_atom \<Rightarrow> tstate \<Rightarrow> py_error + topo_value \<times> tstate"
  and tr_atoms :: "(string \<times> pt_atom) list \<Rightarrow> tstate \<Rightarrow> py_error + (string \<times> topo_value) list \<times> tstate"
  and tr_term :: "pt_term \<Rightarrow> tstate \<Rightarrow> py_error + topo_value \<times> tstate"
  and tr_terms :: "(string \<times> pt_term) list \<Rightarrow> tstate \<Rightarrow> py_error + (string \<times> topo_value) list \<times> tstate"
  and tr_expr :: "pt_expr \<Rightarrow> tstate \<Rightarrow> py_error + topo_value \<times> tstate" where
  "tr_atom (ANumber n) s = res_bind (atom_cb (TokNumber n)) (\<lambda>v. Inr (v, s))"
| "tr_atom (AName n) s = res_bind (atom_cb (TokName n)) (\<lambda>v. Inr (v, s))"
| "tr_atom (AVar n) s = res_bind (atom_cb (Sub (var_cb n))) (\<lambda>v. Inr (v, s))"
| "tr_atom (AParen e) s =
     res_bind (tr_expr e s) (\<lambda>(v, s'). res_bind (atom_cb (Sub v)) (\<lambda>v'. Inr (v', s')))"
| "tr_atoms [] s = Inr ([], s)"
| "tr_atoms ((op, a) # rest) s =
     res_bind (tr_atom a s) (\<lambda>(v, s1).
     res_bind (tr_atoms rest s1) (\<lambda>(vs, s2). Inr ((op, v) # vs, s2)))"
| "tr_term (PTerm a rest) s =
     res_bind (tr_atom a s) (\<lambda>(v, s1).
     res_bind (tr_atoms rest s1) (\<lambda>(vs, s2). Inr (fold_binop v vs s2)))"
| "tr_terms [] s = Inr ([], s)"
| "tr_terms ((op, t) # rest) s =
     res_bind (tr_term t s) (\<lambda>(v, s1).
     res_bind (tr_terms rest s1) (\<lambda>(vs, s2). Inr ((op, v) # vs, s2)))"
| "tr_expr (PExpr t rest) s =
     res_bind (tr_term t s) (\<lambda>(v, s1).
     res_bind (tr_terms rest s1) (\<lambda>(vs, s2). Inr (fold_binop v vs s2)))"

fun tr_value :: "pt_value \<Rightarrow> tstate \<Rightarrow> py_error + topo_value \<times> tstate" where
  "tr_value (PUnit num unit) s = res_bind (value_unit_cb num unit) (\<lambda>v. Inr (v, s))"
| "tr_value (PVal e) s = tr_expr e s"

fun tr_values :: "pt_value list \<Rightarrow> tstate \<Rightarrow> py_error + topo_value list \<times> tstate" where
  "tr_values [] s = Inr ([], s)"
| "tr_values (v # vs) s =
     res_bind (tr_value v s) (\<lambda>(x, s1). res_bind (tr_values vs s1) (\<lambda>(xs, s2). Inr (x # xs, s2)))"

fun tr_attrs :: "pt_attr list \<Rightarrow> tstate \<Rightarrow> py_error + (string \<times> topo_value) list \<times> tstate" where
  "tr_attrs [] s = Inr ([], s)"
| "tr_attrs ((k, v) # rest) s =
     res_bind (tr_value v s) (\<lambda>(x, s1). res_bind (tr_attrs rest s1) (\<lambda>(xs, s2). Inr ((k, x) # xs, s2)))"

fun tr_cond :: "pt_cond \<Rightarrow> tstate \<Rightarrow> py_error + (topo_value \<times> cmp_op \<times> topo_value) \<times> tstate" where
  "tr_cond (PCond l op r) s =
     res_bind (tr_value l s) (\<lambda>(x, s1).
     res_bind (tr_value r s1) (\<lambda>(y, s2).
     res_bind (condition_cb x op y) (\<lambda>c. Inr (c, s2))))"

fun tr_stmt :: "pt_stmt \<Rightarrow> tstate \<Rightarrow> py_error + insn \<times> tstate"
  and tr_stmts :: "pt_stmt list \<Rightarrow> tstate \<Rightarrow> py_error + insn list \<times> tstate" where
  "tr_stmt (PNode n as) s =
     res_bind (tr_attrs as s) (\<lambda>(items, s1). Inr (node_stmt_cb (name_cb n) items, s1))"
| "tr_stmt (PLink a b as) s =
     res_bind (tr_attrs as s) (\<lambda>(items, s1).
     res_bind (link_stmt_cb (ref_cb a) (ref_cb b) items) (\<lambda>i. Inr (i, s1)))"
| "tr_stmt (PUse m args n) s =
     (case args of
        None \<Rightarrow> Inr (use_stmt_cb (name_cb m) None (name_cb n), s)
      | Some vs \<Rightarrow>
          res_bind (tr_values vs s) (\<lambda>(xs, s1). Inr (use_stmt_cb (name_cb m) (Some xs) (name_cb n), s1)))"
| "tr_stmt (PRdma as) s =
     res_bind (tr_attrs as s) (\<lambda>(items, s1). Inr (rdma_stmt_cb items, s1))"
| "tr_stmt (PFor n a b body) s =
     res_bind (tr_value a s) (\<lambda>(x, s1).
     res_bind (tr_value b s1) (\<lambda>(y, s2).
     res_bind (tr_stmts body s2) (\<lambda>(is, s3). Inr (for_stmt_cb (name_cb n) x y is s3))))"
| "tr_stmt (PIf c body) s =
     res_bind (tr_cond c s) (\<lambda>(cond, s1).
     res_bind (tr_stmts body s1) (\<lambda>(is, s2). Inr (if_stmt_cb cond is s2)))"
| "tr_stmts [] s = Inr ([], s)"
| "tr_stmts (st # sts) s =
     res_bind (tr_stmt st s) (\<lambda>(i, s1). res_bind (tr_stmts sts s1) (\<lambda>(is, s2). Inr (i # is, s2)))"

fun tr_modules :: "pt_module list \<Rightarrow> tstate \<Rightarrow> py_error + tstate" where
  "tr_modules [] s = Inr s"
| "tr_modules (PModule name params body # ms) s =
     res_bind (tr_stmts body s) (\<lambda>(is, s1). tr_modules ms (module_cb name params is s1))"

definition topo_transform :: "pt_module list \<Rightarrow> py_error + (string, block) dict" where
  "topo_transform tree = res_bind (tr_modules tree init_tstate) (\<lambda>s. Inr (name_to_module s))"

end
