(* ===== verification/Topo_Scope.thy ===== *)
theory Topo_Scope
  imports Topo_Syntax
begin

text \<open>
  Scopes and lazily evaluated expressions (\<^verbatim>\<open>Scope\<close> and \<^verbatim>\<open>Expr\<close> of \<^verbatim>\<open>topology/transformer.py\<close>).

  Every block owns one mutable scope object, shared by all uses of the block, whose parent pointer
  is rewritten each time the block is entered. The scopes therefore live in a store indexed by the
  block's number, and a scope's parent is the number of another block.

  Following parent pointers need not end: a module that uses itself makes them cyclic. Each modelled
  Python call takes the remaining stack depth and fails with \<open>RecursionError\<close> at depth 0, as the
  interpreter does. The second half of the theory says when the depth does not matter, and gives the
  reference semantics: an environment that is a stack of frames, innermost first.
\<close>

section \<open>Scopes\<close>

record scope =
  sc_parent :: "nat option"
  sc_vals :: "(string, int) dict"
  sc_prefix :: string

type_synonym scopes = "nat \<Rightarrow> scope"

definition new_scope :: scope where
  "new_scope = \<lparr>sc_parent = None, sc_vals = [], sc_prefix = []\<rparr>"

definition set_parent :: "nat \<Rightarrow> nat \<Rightarrow> scopes \<Rightarrow> scopes" where
  "set_parent i p h = h(i := (h i)\<lparr>sc_parent := Some p\<rparr>)"

definition set_name_to_val :: "nat \<Rightarrow> string \<Rightarrow> int \<Rightarrow> scopes \<Rightarrow> scopes" where
  "set_name_to_val i name v h = h(i := (h i)\<lparr>sc_vals := dset name v (sc_vals (h i))\<rparr>)"

definition set_node_name_prefix :: "nat \<Rightarrow> string \<Rightarrow> scopes \<Rightarrow> scopes" where
  "set_node_name_prefix i prefix h = h(i := (h i)\<lparr>sc_prefix := prefix\<rparr>)"

text \<open>
  \<^verbatim>\<open>re.match(r"(.*?)\{(.*?)\}(.*)", s)\<close>: the text before the first opening brace, the text up to the
  next closing brace, and the rest of the line; a dot does not match a newline, and the match is not
  anchored at the end.
\<close>

abbreviation (input) newline :: char where
  "newline \<equiv> CHR 0x0A"

definition match_template :: "string \<Rightarrow> (string \<times> string \<times> string) option" where
  "match_template s =
     (case dropWhile (\<lambda>c. c \<noteq> CHR ''{'' \<and> c \<noteq> newline) s of
        [] \<Rightarrow> None
      | c # r \<Rightarrow>
          if c \<noteq> CHR ''{'' then None
          else (case dropWhile (\<lambda>c. c \<noteq> CHR ''}'' \<and> c \<noteq> newline) r of
                  [] \<Rightarrow> None
                | c' # post \<Rightarrow>
                    if c' \<noteq> CHR ''}'' then None
                    else Some (takeWhile (\<lambda>c. c \<noteq> CHR ''{'' \<and> c \<noteq> newline) s,
                               takeWhile (\<lambda>c. c \<noteq> CHR ''}'' \<and> c \<noteq> newline) r,
                               takeWhile (\<lambda>c. c \<noteq> newline) post)))"

text \<open>The first argument is the remaining stack depth; the scope is the store entry \<open>i\<close>.\<close>

fun lookup :: "nat \<Rightarrow> scopes \<Rightarrow> nat \<Rightarrow> string \<Rightarrow> py_error + int"
  and resolve_name_with_var :: "nat \<Rightarrow> scopes \<Rightarrow> nat \<Rightarrow> string \<Rightarrow> py_error + string" where
  "lookup 0 h i name = Inl RecursionError"
| "lookup (Suc d) h i name =
     res_bind (resolve_name_with_var d h i name) (\<lambda>name'.
       case dget (sc_vals (h i)) name' of
         Some v \<Rightarrow> Inr v
       | None \<Rightarrow>
           (case sc_parent (h i) of
              Some p \<Rightarrow> lookup d h p name'
            | None \<Rightarrow> Inl (UnresolvedName name')))"
| "resolve_name_with_var 0 h i s = Inl RecursionError"
| "resolve_name_with_var (Suc d) h i s =
     (case match_template s of
        Some (pre, var_str, post) \<Rightarrow>
          res_bind (lookup d h i var_str) (\<lambda>v. Inr (pre @ str_int v @ post))
      | None \<Rightarrow> Inr s)"

fun get_node_name_prefix :: "nat \<Rightarrow> scopes \<Rightarrow> nat \<Rightarrow> py_error + string" where
  "get_node_name_prefix 0 h i = Inl RecursionError"
| "get_node_name_prefix (Suc d) h i =
     res_bind (case sc_parent (h i) of Some p \<Rightarrow> get_node_name_prefix d h p | None \<Rightarrow> Inr []) (\<lambda>prefix.
     res_bind (resolve_name_with_var d h i (sc_prefix (h i))) (\<lambda>my_prefix.
       if prefix \<noteq> [] \<and> my_prefix \<noteq> [] then Inr (prefix @ ''_'' @ my_prefix)
       else Inr (prefix @ my_prefix)))"

section \<open>Expressions\<close>

text \<open>\<^verbatim>\<open>Expr.OPS\<close>; \<^verbatim>\<open>/\<close> is Python's floor division.\<close>

definition apply_op :: "string \<Rightarrow> int \<Rightarrow> int \<Rightarrow> py_error + int" where
  "apply_op op l r =
     (if op = ''+'' then Inr (l + r)
      else if op = ''-'' then Inr (l - r)
      else if op = ''*'' then Inr (l * r)
      else if op = ''/'' then (if r = 0 then Inl ZeroDivisionError else Inr (l div r))
      else Inl KeyError)"

text \<open>\<^verbatim>\<open>value[1:-1] if value.startswith("{") and value.endswith("}") else value\<close>\<close>

definition strip_braces :: "string \<Rightarrow> string" where
  "strip_braces s = (if s \<noteq> [] \<and> hd s = CHR ''{'' \<and> last s = CHR ''}'' then butlast (tl s) else s)"

fun expr_evaluate :: "nat \<Rightarrow> scopes \<Rightarrow> nat \<Rightarrow> string \<Rightarrow> topo_value \<Rightarrow> topo_value \<Rightarrow> py_error + int"
  and expr_resolve :: "nat \<Rightarrow> scopes \<Rightarrow> nat \<Rightarrow> topo_value \<Rightarrow> py_error + int" where
  "expr_evaluate 0 h i op l r = Inl RecursionError"
| "expr_evaluate (Suc d) h i op l r =
     res_bind (expr_resolve d h i l) (\<lambda>x. res_bind (expr_resolve d h i r) (\<lambda>y. apply_op op x y))"
| "expr_resolve 0 h i v = Inl RecursionError"
| "expr_resolve (Suc d) h i v =
     (case v of
        VExpr _ op l r \<Rightarrow> expr_evaluate d h i op l r
      | VInt n \<Rightarrow> Inr n
      | VStr s \<Rightarrow> lookup d h i (strip_braces s)
      | VTup _ _ \<Rightarrow> Inl CannotResolve)"

section \<open>The environment the scopes stand for\<close>

text \<open>
  A frame holds the bindings and the name prefix of one active block; the environment of a block is
  its frame, then its parent's, out to the block that has no parent.
\<close>

type_synonym frame = "(string \<Rightarrow> int option) \<times> string"

fun env_var :: "frame list \<Rightarrow> string \<Rightarrow> py_error + int" where
  "env_var [] x = Inl (UnresolvedName x)"
| "env_var (f # fs) x = (case fst f x of Some v \<Rightarrow> Inr v | None \<Rightarrow> env_var fs x)"

definition env_fill :: "frame list \<Rightarrow> string \<Rightarrow> py_error + string" where
  "env_fill fs s =
     (case match_template s of
        None \<Rightarrow> Inr s
      | Some (pre, x, post) \<Rightarrow> res_bind (env_var fs x) (\<lambda>v. Inr (pre @ str_int v @ post)))"

fun env_lookup :: "frame list \<Rightarrow> string \<Rightarrow> py_error + int" where
  "env_lookup [] x = Inl (UnresolvedName x)"
| "env_lookup (f # fs) x =
     res_bind (env_fill (f # fs) x) (\<lambda>x'.
       case fst f x' of Some v \<Rightarrow> Inr v | None \<Rightarrow> env_lookup fs x')"

fun env_prefix :: "frame list \<Rightarrow> py_error + string" where
  "env_prefix [] = Inr []"
| "env_prefix (f # fs) =
     res_bind (env_prefix fs) (\<lambda>prefix.
     res_bind (env_fill (f # fs) (snd f)) (\<lambda>my.
       if prefix \<noteq> [] \<and> my \<noteq> [] then Inr (prefix @ ''_'' @ my) else Inr (prefix @ my)))"

fun env_eval :: "frame list \<Rightarrow> topo_value \<Rightarrow> py_error + int" where
  "env_eval fs (VInt n) = Inr n"
| "env_eval fs (VStr s) = env_lookup fs (strip_braces s)"
| "env_eval fs (VTup _ _) = Inl CannotResolve"
| "env_eval fs (VExpr _ op l r) =
     res_bind (env_eval fs l) (\<lambda>x. res_bind (env_eval fs r) (\<lambda>y. apply_op op x y))"

fun vdepth :: "topo_value \<Rightarrow> nat" where
  "vdepth (VExpr _ _ l r) = Suc (Suc (max (vdepth l) (vdepth r)))"
| "vdepth _ = 0"

text \<open>The store holds the environment \<open>fs\<close> at block \<open>i\<close>: the frames are read off the parent chain.\<close>

fun chain :: "scopes \<Rightarrow> nat \<Rightarrow> frame list \<Rightarrow> bool" where
  "chain h i [] \<longleftrightarrow> False"
| "chain h i (f # fs) \<longleftrightarrow>
     f = (dget (sc_vals (h i)), sc_prefix (h i)) \<and>
     (case fs of [] \<Rightarrow> sc_parent (h i) = None
      | _ # _ \<Rightarrow> (\<exists>p. sc_parent (h i) = Some p \<and> chain h p fs))"

lemma chain_single: "chain h i [f] \<longleftrightarrow> f = (dget (sc_vals (h i)), sc_prefix (h i)) \<and> sc_parent (h i) = None"
  by simp

lemma chain_more:
  "chain h i (f # g # fs) \<longleftrightarrow>
     f = (dget (sc_vals (h i)), sc_prefix (h i)) \<and> (\<exists>p. sc_parent (h i) = Some p \<and> chain h p (g # fs))"
  by simp

declare chain.simps [simp del]

lemmas chain_simps = chain.simps(1) chain_single chain_more

lemma chain_nonempty: "chain h i fs \<Longrightarrow> fs \<noteq> []"
  by (cases fs) (simp_all add: chain_simps)

text \<open>
  A block's frame and the environment of its parent, which is the empty environment when the block
  has no parent: the shape in which every walk along the parent pointers meets the chain.
\<close>

lemma chain_cases [consumes 1, case_names outermost inner]:
  assumes "chain h i fs"
  obtains "fs = [(dget (sc_vals (h i)), sc_prefix (h i))]" and "sc_parent (h i) = None"
  | p gs where "fs = (dget (sc_vals (h i)), sc_prefix (h i)) # gs" and "sc_parent (h i) = Some p"
      and "chain h p gs"
proof (cases fs)
  case Nil
  with assms show ?thesis by (simp add: chain_simps)
next
  case (Cons f gs)
  with assms that show ?thesis by (cases gs) (auto simp: chain_simps)
qed

section \<open>Templates\<close>

lemma match_template_SomeD:
  assumes "match_template s = Some (pre, x, post)"
  obtains r post' where "dropWhile (\<lambda>c. c \<noteq> CHR ''{'' \<and> c \<noteq> newline) s = CHR ''{'' # r"
    and "dropWhile (\<lambda>c. c \<noteq> CHR ''}'' \<and> c \<noteq> newline) r = CHR ''}'' # post'"
    and "x = takeWhile (\<lambda>c. c \<noteq> CHR ''}'' \<and> c \<noteq> newline) r"
proof (cases "dropWhile (\<lambda>c. c \<noteq> CHR ''{'' \<and> c \<noteq> newline) s")
  case Nil
  with assms show ?thesis by (simp add: match_template_def)
next
  case (Cons c r)
  with assms have c: "c = CHR ''{''" by (simp add: match_template_def split: if_splits)
  show ?thesis
  proof (cases "dropWhile (\<lambda>c. c \<noteq> CHR ''}'' \<and> c \<noteq> newline) r")
    case Nil
    with assms Cons c show ?thesis by (simp add: match_template_def)
  next
    case (Cons c' post')
    with assms \<open>dropWhile _ s = c # r\<close> c show ?thesis
      by (intro that [of r post']) (simp_all add: match_template_def split: if_splits)
  qed
qed

lemma match_template_no_close:
  assumes "CHR ''}'' \<notin> set s"
  shows "match_template s = None"
proof (rule ccontr)
  assume "match_template s \<noteq> None"
  then obtain pre x post where "match_template s = Some (pre, x, post)" by (metis prod_cases3 option.exhaust)
  then obtain r post' where "dropWhile (\<lambda>c. c \<noteq> CHR ''{'' \<and> c \<noteq> newline) s = CHR ''{'' # r"
    and "dropWhile (\<lambda>c. c \<noteq> CHR ''}'' \<and> c \<noteq> newline) r = CHR ''}'' # post'"
    by (rule match_template_SomeD)
  then have "CHR ''}'' \<in> set r" and "set r \<subseteq> set s"
    by (metis list.set_intros(1) set_dropWhileD, metis list.set_intros(2) set_dropWhileD subsetI)
  with assms show False by blast
qed

lemma match_template_var_plain:
  assumes "match_template s = Some (pre, x, post)"
  shows "match_template x = None"
proof -
  from assms obtain r where "x = takeWhile (\<lambda>c. c \<noteq> CHR ''}'' \<and> c \<noteq> newline) r"
    by (rule match_template_SomeD)
  then have "CHR ''}'' \<notin> set x" using set_takeWhileD [of _ _ r] by blast
  then show ?thesis by (rule match_template_no_close)
qed

lemma match_template_no_open:
  assumes "CHR ''{'' \<notin> set s"
  shows "match_template s = None"
proof (rule ccontr)
  assume "match_template s \<noteq> None"
  then obtain pre x post where "match_template s = Some (pre, x, post)" by (metis prod_cases3 option.exhaust)
  then obtain r where "dropWhile (\<lambda>c. c \<noteq> CHR ''{'' \<and> c \<noteq> newline) s = CHR ''{'' # r"
    by (rule match_template_SomeD)
  with assms show False by (metis list.set_intros(1) set_dropWhileD)
qed

lemma match_template_Some_iff:
  assumes "\<forall>c \<in> set (pre @ x @ post). c \<noteq> newline"
    and "CHR ''{'' \<notin> set pre" and "CHR ''}'' \<notin> set x"
  shows "match_template (pre @ ''{'' @ x @ ''}'' @ post) = Some (pre, x, post)"
proof -
  have pre_ok: "\<forall>c \<in> set pre. c \<noteq> CHR ''{'' \<and> c \<noteq> newline"
    and var_ok: "\<forall>c \<in> set x. c \<noteq> CHR ''}'' \<and> c \<noteq> newline"
    using assms by auto
  have tail: "takeWhile (\<lambda>c. c \<noteq> newline) post = post"
    using assms(1) by (auto simp: takeWhile_eq_all_conv)
  from pre_ok var_ok show ?thesis
    by (simp add: match_template_def tail)
qed

section \<open>The store implements the environment\<close>

lemma env_lookup_plain: "match_template x = None \<Longrightarrow> env_lookup fs x = env_var fs x"
  by (induction fs) (auto simp: env_fill_def split: option.split)

lemma lookup_plain_chain:
  assumes "chain h i fs" and "match_template x = None" and "length fs < d"
  shows "lookup d h i x = env_var fs x"
  using assms
proof (induction fs arbitrary: i d)
  case (Cons f fs)
  from Cons.prems(3) obtain d' where d: "d = Suc (Suc d')" and len: "length fs < Suc d'"
    by (cases d; cases "d - 1") auto
  from Cons.prems(1) show ?case
    by (cases rule: chain_cases)
      (use Cons.IH [OF _ Cons.prems(2) len] Cons.prems(2) in \<open>auto simp: d split: option.split\<close>)
qed (simp add: chain_simps)

lemma resolve_chain:
  assumes "chain h i fs" and "Suc (length fs) < d"
  shows "resolve_name_with_var d h i s = env_fill fs s"
proof -
  from assms(2) obtain d' where d: "d = Suc d'" and len: "length fs < d'"
    by (metis Suc_less_eq2)
  then show ?thesis
    by (auto simp: env_fill_def lookup_plain_chain [OF assms(1) match_template_var_plain len]
        split: option.split)
qed

lemma lookup_chain:
  assumes "chain h i fs" and "length fs + 2 < d"
  shows "lookup d h i x = env_lookup fs x"
  using assms
proof (induction fs arbitrary: i d x)
  case (Cons f fs)
  from Cons.prems(2) obtain d' where d: "d = Suc d'" and len: "Suc (length (f # fs)) < d'"
    by (cases d) auto
  from Cons.prems(1) show ?case
  proof (cases rule: chain_cases)
    case outermost
    with resolve_chain [OF Cons.prems(1) len, of x] show ?thesis
      by (cases "env_fill (f # fs) x") (auto simp: d split: option.split)
  next
    case (inner p gs)
    with resolve_chain [OF Cons.prems(1) len, of x] Cons.IH [of p d'] len show ?thesis
      by (cases "env_fill (f # fs) x") (auto simp: d split: option.split)
  qed
qed (simp add: chain_simps)

lemma prefix_chain:
  assumes "chain h i fs" and "length fs + 2 < d"
  shows "get_node_name_prefix d h i = env_prefix fs"
  using assms
proof (induction fs arbitrary: i d)
  case (Cons f fs)
  from Cons.prems(2) obtain d' where d: "d = Suc d'" and len: "Suc (length (f # fs)) < d'"
    by (cases d) auto
  from Cons.prems(1) show ?case
    by (cases rule: chain_cases)
      (use resolve_chain [OF Cons.prems(1) len, of "snd f"] Cons.IH [of _ d'] len in \<open>auto simp: d\<close>)
qed (simp add: chain_simps)

lemma resolve_expr_chain:
  assumes "chain h i fs" and "length fs + 3 + vdepth v < d"
  shows "expr_resolve d h i v = env_eval fs v"
  using assms(2)
proof (induction v arbitrary: d)
  case (VExpr n op l r)
  from VExpr.prems obtain d' where d: "d = Suc (Suc d')"
    and len: "length fs + 3 + vdepth l < d'" "length fs + 3 + vdepth r < d'"
    by (cases d; cases "d - 1") auto
  with VExpr.IH show ?case by simp
next
  case (VStr s)
  then show ?case by (cases d) (simp_all add: lookup_chain [OF assms(1)])
next
  case (VInt n)
  then show ?case by (cases d) simp_all
next
  case (VTup n u)
  then show ?case by (cases d) simp_all
qed

end
