(* ===== verification/Topo_Codegen.thy ===== *)
theory Topo_Codegen
  imports Topo_Scope
begin

text \<open>
  The code generator (\<^verbatim>\<open>NS3CodeGenerator\<close> of \<^verbatim>\<open>topology/ns3codegen.py\<close>): it runs the instructions of
  the modules, starting at \<^verbatim>\<open>main\<close>, numbers the nodes of each kind, shares one link helper between
  links with equal attributes, and emits a flat list of ns-3 instructions.

  Every method call takes the remaining stack depth (see \<^verbatim>\<open>Topo_Scope\<close>); the store of scopes is a
  field of the generator's state.
\<close>

section \<open>Instructions for ns-3 and the generator's state\<close>

text \<open>The fields of \<open>NS3MakeLinkHelper\<close> are id, delay, data rate, mtu and type.\<close>

datatype ns3_insn =
    NS3MakeGPUs nat
  | NS3MakeRegSwitches nat
  | NS3MakeNVSwitches nat
  | NS3MakeLinkHelper nat topo_value topo_value topo_value string
  | NS3InstallLink string string nat nat
  | NS3BuildRdmaFabric "(string, int) dict"

type_synonym link_attr = "topo_value \<times> topo_value \<times> topo_value \<times> string"

record gen =
  gpus :: "(string, nat) dict"
  switches :: "(string, nat) dict"
  nvswitches :: "(string, nat) dict"
  insns :: "ns3_insn list"
  modules :: "(string, block) dict"
  gpu_counter :: nat
  switch_counter :: nat
  nvswitch_counter :: nat
  link_helpers :: "(link_attr, nat) dict"
  link_helper_counter :: nat
  link_id_counter :: nat
  has_qbb_fabric :: bool
  rdma_attrs :: "(string, int) dict"
  scopes :: scopes

definition init_gen :: "(string, block) dict \<Rightarrow> gen" where
  "init_gen ms =
     \<lparr>gpus = [], switches = [], nvswitches = [], insns = [], modules = ms,
      gpu_counter = 0, switch_counter = 0, nvswitch_counter = 0,
      link_helpers = [], link_helper_counter = 0, link_id_counter = 0,
      has_qbb_fabric = False, rdma_attrs = [], scopes = (\<lambda>_. new_scope)\<rparr>"

section \<open>Nodes and links\<close>

text \<open>The three dictionary updates of \<^verbatim>\<open>GenNewNode\<close>; a type that is not a known name is refused.\<close>

definition add_node :: "string \<Rightarrow> topo_value \<Rightarrow> gen \<Rightarrow> py_error + gen" where
  "add_node name ty g =
     (if ty = VStr ''gpu'' then
        Inr (g\<lparr>gpus := dset name (gpu_counter g) (gpus g), gpu_counter := Suc (gpu_counter g)\<rparr>)
      else if ty = VStr ''switch'' then
        Inr (g\<lparr>switches := dset name (switch_counter g) (switches g),
               switch_counter := Suc (switch_counter g)\<rparr>)
      else if ty = VStr ''nvswitch'' then
        Inr (g\<lparr>nvswitches := dset name (nvswitch_counter g) (nvswitches g),
               nvswitch_counter := Suc (nvswitch_counter g)\<rparr>)
      else Inl UnrecognizedNodeType)"

fun GenNewNode :: "nat \<Rightarrow> nat \<Rightarrow> string \<Rightarrow> topo_value \<Rightarrow> gen \<Rightarrow> py_error + gen" where
  "GenNewNode 0 sid nm ty g = Inl RecursionError"
| "GenNewNode (Suc d) sid nm ty g =
     res_bind (get_node_name_prefix d (scopes g) sid) (\<lambda>prefix.
     res_bind (resolve_name_with_var d (scopes g) sid nm) (\<lambda>name.
       add_node (if prefix \<noteq> [] then prefix @ ''_'' @ name else name) ty g))"

definition link_type :: "gen \<Rightarrow> string \<Rightarrow> string \<Rightarrow> string" where
  "link_type g src dst =
     (if src \<in> set (dkeys (gpus g)) \<and> dst \<in> set (dkeys (gpus g)) then ''p2p'' else ''qbb'')"

definition link_mtu :: "gen \<Rightarrow> attrs \<Rightarrow> string \<Rightarrow> topo_value" where
  "link_mtu g as type =
     (case dget as ''mtu'' of
        Some m \<Rightarrow> m
      | None \<Rightarrow>
          (if type = ''qbb'' then (case dget (rdma_attrs g) ''Mtu'' of Some m \<Rightarrow> VInt m | None \<Rightarrow> VInt 9000)
           else VInt 9000))"

text \<open>The helper for an attribute tuple: the existing one, or the next number.\<close>

definition intern_helper :: "link_attr \<Rightarrow> gen \<Rightarrow> gen" where
  "intern_helper attr g =
     (case dget (link_helpers g) attr of
        None \<Rightarrow> g\<lparr>link_helpers := dset attr (link_helper_counter g) (link_helpers g),
                  link_helper_counter := Suc (link_helper_counter g)\<rparr>
      | Some _ \<Rightarrow> g)"

text \<open>The part of \<^verbatim>\<open>GenNewLink\<close> after both end names are resolved.\<close>

definition add_link :: "string \<Rightarrow> string \<Rightarrow> attrs \<Rightarrow> gen \<Rightarrow> py_error + gen" where
  "add_link src dst as g =
     (let type = link_type g src dst; mtu = link_mtu g as type
      in case dget as ''latency'' of
           None \<Rightarrow> Inl KeyError
         | Some latency \<Rightarrow>
             (case dget as ''bandwidth'' of
                None \<Rightarrow> Inl KeyError
              | Some bandwidth \<Rightarrow>
                  (let attr = (latency, bandwidth, mtu, type);
                       g1 = intern_helper attr g;
                       link_id = link_id_counter g1;
                       g2 = g1\<lparr>link_id_counter := Suc link_id\<rparr>
                   in case dget (link_helpers g2) attr of
                        None \<Rightarrow> Inl KeyError
                      | Some helper_id \<Rightarrow>
                          (let g3 = g2\<lparr>insns := insns g2 @ [NS3InstallLink src dst helper_id link_id]\<rparr>
                           in Inr (if type = ''qbb'' then g3\<lparr>has_qbb_fabric := True\<rparr> else g3)))))"

fun append_parts :: "nat \<Rightarrow> scopes \<Rightarrow> nat \<Rightarrow> string \<Rightarrow> string list \<Rightarrow> py_error + string" where
  "append_parts d h sid acc [] = Inr acc"
| "append_parts d h sid acc (p # ps) =
     res_bind (resolve_name_with_var d h sid p) (\<lambda>s. append_parts d h sid (acc @ ''_'' @ s) ps)"

fun GenNewLink :: "nat \<Rightarrow> nat \<Rightarrow> string list \<Rightarrow> string list \<Rightarrow> attrs \<Rightarrow> gen \<Rightarrow> py_error + gen" where
  "GenNewLink 0 sid a b as g = Inl RecursionError"
| "GenNewLink (Suc d) sid a b as g =
     (case (a, b) of
        (a0 # as', b0 # bs') \<Rightarrow>
          res_bind (resolve_name_with_var d (scopes g) sid a0) (\<lambda>src0.
          res_bind (resolve_name_with_var d (scopes g) sid b0) (\<lambda>dst0.
          res_bind (append_parts d (scopes g) sid src0 as') (\<lambda>src1.
          res_bind (append_parts d (scopes g) sid dst0 bs') (\<lambda>dst1.
          res_bind (get_node_name_prefix d (scopes g) sid) (\<lambda>pre.
            if pre \<noteq> [] then add_link (pre @ ''_'' @ src1) (pre @ ''_'' @ dst1) as g
            else add_link src1 dst1 as g)))))
      | _ \<Rightarrow> Inl IndexError)"

fun set_rdma :: "nat \<Rightarrow> nat \<Rightarrow> (string \<times> topo_value) list \<Rightarrow> gen \<Rightarrow> py_error + gen" where
  "set_rdma d sid [] g = Inr g"
| "set_rdma d sid ((k, v) # rest) g =
     res_bind (expr_resolve d (scopes g) sid v) (\<lambda>n.
       set_rdma d sid rest (g\<lparr>rdma_attrs := dset k n (rdma_attrs g)\<rparr>))"

fun GenRdmaConfig :: "nat \<Rightarrow> nat \<Rightarrow> attrs \<Rightarrow> gen \<Rightarrow> py_error + gen" where
  "GenRdmaConfig 0 sid as g = Inl RecursionError"
| "GenRdmaConfig (Suc d) sid as g = set_rdma d sid as g"

section \<open>Blocks\<close>

text \<open>\<^verbatim>\<open>for i in range(len(args)): scope.set_name_to_val(module.params[i], args[i])\<close>\<close>

definition bind_params :: "nat \<Rightarrow> string list \<Rightarrow> int list \<Rightarrow> gen \<Rightarrow> gen" where
  "bind_params sid params args g =
     g\<lparr>scopes := fold (\<lambda>(p, a). set_name_to_val sid p a) (zip params args) (scopes g)\<rparr>"

definition is_tuple :: "topo_value \<Rightarrow> bool" where
  "is_tuple v = (case v of VTup _ _ \<Rightarrow> True | _ \<Rightarrow> False)"

function GenerateModule :: "nat \<Rightarrow> block \<Rightarrow> int list \<Rightarrow> gen \<Rightarrow> py_error + gen"
  and run_insns :: "nat \<Rightarrow> nat \<Rightarrow> insn list \<Rightarrow> gen \<Rightarrow> py_error + gen"
  and GenerateInsn :: "nat \<Rightarrow> nat \<Rightarrow> insn \<Rightarrow> gen \<Rightarrow> py_error + gen"
  and GenSubmodule :: "nat \<Rightarrow> nat \<Rightarrow> string \<Rightarrow> string \<Rightarrow> topo_value list \<Rightarrow> gen \<Rightarrow> py_error + gen"
  and GenIf :: "nat \<Rightarrow> nat \<Rightarrow> topo_value \<Rightarrow> cmp_op \<Rightarrow> topo_value \<Rightarrow> block \<Rightarrow> gen \<Rightarrow> py_error + gen"
  and GenLoop :: "nat \<Rightarrow> nat \<Rightarrow> topo_value \<Rightarrow> topo_value \<Rightarrow> block \<Rightarrow> gen \<Rightarrow> py_error + gen"
  and run_loop :: "nat \<Rightarrow> block \<Rightarrow> int list \<Rightarrow> gen \<Rightarrow> py_error + gen" where
  "GenerateModule 0 b args g = Inl RecursionError"
| "GenerateModule (Suc d) b args g =
     (if length args \<noteq> length (block_params b)
      then Inl (ArityMismatch (length (block_params b)) (length args))
      else run_insns d (block_id b) (block_insns b) (bind_params (block_id b) (block_params b) args g))"
| "run_insns d sid [] g = Inr g"
| "run_insns d sid (i # is) g = res_bind (GenerateInsn d sid i g) (\<lambda>g'. run_insns d sid is g')"
| "GenerateInsn 0 sid i g = Inl RecursionError"
| "GenerateInsn (Suc d) sid i g =
     (case i of
        NewNodeInsn nm ty as \<Rightarrow> GenNewNode d sid nm ty g
      | NewLinkInsn a b as \<Rightarrow> GenNewLink d sid a b as g
      | SubmoduleInsn nm m args \<Rightarrow> GenSubmodule d sid nm m args g
      | IfInsn l op r b \<Rightarrow> GenIf d sid l op r b g
      | LoopInsn it s e b \<Rightarrow> GenLoop d sid s e b g
      | RdmaConfigInsn as \<Rightarrow> GenRdmaConfig d sid as g)"
| "GenSubmodule 0 sid nm m args g = Inl RecursionError"
| "GenSubmodule (Suc d) sid nm m args g =
     (case dget (modules g) m of
        None \<Rightarrow> Inl (ModuleNotDefined m)
      | Some b \<Rightarrow>
          (let g1 = g\<lparr>scopes := set_node_name_prefix (block_id b) nm
                                  (set_parent (block_id b) sid (scopes g))\<rparr>
           in res_bind (res_map (expr_resolve d (scopes g1) sid) args) (\<lambda>resolved_args.
                GenerateModule d b resolved_args g1)))"
| "GenIf 0 sid l op r b g = Inl RecursionError"
| "GenIf (Suc d) sid l op r b g =
     (if is_tuple l \<or> is_tuple r then Inl UnitComparison
      else
        res_bind (expr_resolve d (scopes g) sid l) (\<lambda>x.
        res_bind (expr_resolve d (scopes g) sid r) (\<lambda>y.
          if \<not> cmp_apply op x y then Inr g
          else GenerateModule d b [] (g\<lparr>scopes := set_parent (block_id b) sid (scopes g)\<rparr>))))"
| "GenLoop 0 sid s e b g = Inl RecursionError"
| "GenLoop (Suc d) sid s e b g =
     res_bind (expr_resolve d (scopes g) sid s) (\<lambda>x.
     res_bind (expr_resolve d (scopes g) sid e) (\<lambda>y.
       run_loop d b [x..y] (g\<lparr>scopes := set_parent (block_id b) sid (scopes g)\<rparr>)))"
| "run_loop d b [] g = Inr g"
| "run_loop d b (i # is) g = res_bind (GenerateModule d b [i] g) (\<lambda>g'. run_loop d b is g')"
  by pat_completeness auto
termination
  by (relation "inv_image (less_than <*lex*> less_than)
        (\<lambda>x. case x of
           Inl (Inl (d, b, args, g)) \<Rightarrow> (2 * d, 0)
         | Inl (Inr (Inl (d, sid, is, g))) \<Rightarrow> (2 * d + 1, length is)
         | Inl (Inr (Inr (d, sid, i, g))) \<Rightarrow> (2 * d, 0)
         | Inr (Inl (Inl (d, sid, nm, m, args, g))) \<Rightarrow> (2 * d, 0)
         | Inr (Inl (Inr (d, sid, l, op, r, b, g))) \<Rightarrow> (2 * d, 0)
         | Inr (Inr (Inl (d, sid, s, e, b, g))) \<Rightarrow> (2 * d, 0)
         | Inr (Inr (Inr (d, b, is, g))) \<Rightarrow> (2 * d + 1, length is))") auto

section \<open>The whole run\<close>

definition helper_insn :: "link_attr \<times> nat \<Rightarrow> ns3_insn" where
  "helper_insn e = (case e of ((latency, bandwidth, mtu, type), i) \<Rightarrow>
     NS3MakeLinkHelper i latency bandwidth mtu type)"

definition finish_gen :: "gen \<Rightarrow> gen" where
  "finish_gen g =
     (let header = [NS3MakeGPUs (gpu_counter g), NS3MakeRegSwitches (switch_counter g),
                    NS3MakeNVSwitches (nvswitch_counter g)] @ map helper_insn (link_helpers g);
          g' = g\<lparr>insns := header @ insns g\<rparr>
      in if has_qbb_fabric g' then g'\<lparr>insns := insns g' @ [NS3BuildRdmaFabric (rdma_attrs g')]\<rparr> else g')"

definition Generate :: "nat \<Rightarrow> (string, block) dict \<Rightarrow> py_error + gen" where
  "Generate d ms =
     (case dget ms ''main'' of
        None \<Rightarrow> Inl KeyError
      | Some b \<Rightarrow> res_bind (GenerateModule d b [] (init_gen ms)) (\<lambda>g. Inr (finish_gen g)))"

end
