(* ===== verification/Topo_Writer.thy ===== *)
theory Topo_Writer
  imports Topo_Codegen "HOL-Library.Char_ord" "HOL-Library.List_Lexorder" "HOL-Library.Product_Lexorder"
begin

text \<open>
  The emitter of C++ (\<^verbatim>\<open>NS3Writer\<close> of \<^verbatim>\<open>topology/ns3writer.py\<close>) and the whole tool
  (\<^verbatim>\<open>topology/main.py\<close>). The writer turns the generator's instructions into lines of a C++ program
  that builds the topology; the text is returned instead of being written to a file.
\<close>

section \<open>Formatting Python values\<close>

text \<open>
  What an f-string prints for a value: an int in decimal, a str as it is, a tuple with its \<^verbatim>\<open>repr\<close>
  (a unit is one of the grammar's UNIT words, so its \<^verbatim>\<open>repr\<close> is the word in single quotes) and an
  \<^verbatim>\<open>Expr\<close> with its \<^verbatim>\<open>__repr__\<close>.
\<close>

fun py_format :: "topo_value \<Rightarrow> string" where
  "py_format (VInt n) = str_int n"
| "py_format (VStr s) = s"
| "py_format (VTup n u) = ''('' @ str_int n @ '', '' @ [CHR 0x27] @ u @ [CHR 0x27] @ '')''"
| "py_format (VExpr _ op l r) = ''('' @ py_format l @ '' '' @ op @ '' '' @ py_format r @ '')''"

text \<open>
  \<^verbatim>\<open>a, b = value\<close> and the two pieces as an f-string prints them. A string of two characters
  unpacks into its characters; an int or an \<^verbatim>\<open>Expr\<close> is not iterable.
\<close>

definition unpack_pair :: "topo_value \<Rightarrow> py_error + string \<times> string" where
  "unpack_pair v =
     (case v of
        VTup n u \<Rightarrow> Inr (str_int n, u)
      | VStr s \<Rightarrow> (case s of [a, b] \<Rightarrow> Inr ([a], [b]) | _ \<Rightarrow> Inl ValueError)
      | VInt _ \<Rightarrow> Inl TypeError
      | VExpr _ _ _ _ \<Rightarrow> Inl TypeError)"

section \<open>The writer's state\<close>

record writer =
  w_gpus :: "(string, nat) dict"
  w_switches :: "(string, nat) dict"
  w_nvswitches :: "(string, nat) dict"
  w_insns :: "ns3_insn list"
  w_lines :: "string list"
  w_indent :: nat
  container_map :: "(string \<times> string, string) dict"

definition init_writer :: "gen \<Rightarrow> writer" where
  "init_writer g =
     \<lparr>w_gpus = gpus g, w_switches = switches g, w_nvswitches = nvswitches g, w_insns = insns g,
      w_lines = [], w_indent = 0, container_map = []\<rparr>"

definition emit :: "string \<Rightarrow> writer \<Rightarrow> writer" where
  "emit line w = w\<lparr>w_lines := w_lines w @ [concat (replicate (w_indent w) ''    '') @ line]\<rparr>"

abbreviation emits :: "string list \<Rightarrow> writer \<Rightarrow> writer" where
  "emits \<equiv> fold emit"

section \<open>The fixed parts of the program\<close>

definition emit_headers :: "writer \<Rightarrow> writer" where
  "emit_headers = emits
     [''#include \"ns3/core-module.h\"'',
      ''#include \"ns3/network-module.h\"'',
      ''#include \"ns3/internet-module.h\"'',
      ''#include \"ns3/point-to-point-module.h\"'',
      ''#include \"ns3/distributed-ml-module.h\"'',
      '''',
      ''#include <vector>'',
      '''',
      ''using namespace ns3;'',
      '''']"

definition emit_main_start :: "writer \<Rightarrow> writer" where
  "emit_main_start w =
     (let w1 = emit ''int main(int argc, char *argv[]) {'' w;
          w2 = w1\<lparr>w_indent := Suc (w_indent w1)\<rparr>
      in emits
         [''NodeContainer gpunodes;'',
          ''NodeContainer regswtches;'',
          ''NodeContainer nvswtches;'',
          '''',
          ''// PFC backpressure (CheckAndSendPfc) runs unconditionally in SwitchNode, but only'',
          ''// has an effect once QcnEnabled lets a stalled NIC's queue resume; ECN marking is'',
          ''// separately gated per-switch by the EcnEnabled attribute set below.'',
          ''Config::SetDefault(\"ns3::QbbNetDevice::QcnEnabled\", BooleanValue(true));'',
          ''''] w2)"

definition emit_main_end :: "writer \<Rightarrow> writer" where
  "emit_main_end w =
     (let w1 = emits ['''', ''Simulator::Run();'', ''Simulator::Destroy();'', ''return 0;''] w;
          w2 = w1\<lparr>w_indent := w_indent w1 - 1\<rparr>
      in emit ''}'' w2)"

section \<open>Instruction handlers\<close>

definition emit_make_typed_nodes :: "string \<Rightarrow> string \<Rightarrow> nat \<Rightarrow> writer \<Rightarrow> writer" where
  "emit_make_typed_nodes container_name cpp_type n w =
     (if n \<le> 0 then w
      else emit (''for (uint32_t i = 0; i < '' @ str_nat n @ ''; ++i) { '' @ container_name
                 @ ''.Add(CreateObject<'' @ cpp_type @ ''>()); }'') w)"

definition emit_link_helper ::
  "nat \<Rightarrow> topo_value \<Rightarrow> topo_value \<Rightarrow> topo_value \<Rightarrow> string \<Rightarrow> writer \<Rightarrow> py_error + writer" where
  "emit_link_helper hid delay data_rate mtu type w =
     res_bind (unpack_pair delay) (\<lambda>(delay_val, delay_unit).
     res_bind (unpack_pair data_rate) (\<lambda>(bw_val, bw_unit).
     res_bind (if type = ''p2p'' then Inr ''PointToPoint''
               else if type = ''qbb'' then Inr ''Qbb''
               else Inl (UnrecognizedLinkType type)) (\<lambda>helper_name.
       Inr (emits
         [helper_name @ ''Helper link_helper'' @ str_nat hid @ '';'',
          ''link_helper'' @ str_nat hid @ ''.SetDeviceAttribute(\"Mtu\", UintegerValue('' @ py_format mtu @ ''));'',
          ''link_helper'' @ str_nat hid @ ''.SetChannelAttribute(\"Delay\", StringValue(\"''
            @ delay_val @ delay_unit @ ''\"));'',
          ''link_helper'' @ str_nat hid @ ''.SetDeviceAttribute(\"DataRate\", StringValue(\"''
            @ bw_val @ bw_unit @ ''\"));'',
          ''''] w))))"

definition resolve_node :: "writer \<Rightarrow> string \<Rightarrow> py_error + string \<times> string" where
  "resolve_node w name =
     (case dget (w_gpus w) name of
        Some i \<Rightarrow> Inr (''gpunodes.Get('' @ str_nat i @ '')'', ''gpu'')
      | None \<Rightarrow>
          (case dget (w_switches w) name of
             Some i \<Rightarrow> Inr (''regswtches.Get('' @ str_nat i @ '')'', ''switch'')
           | None \<Rightarrow>
               (case dget (w_nvswitches w) name of
                  Some i \<Rightarrow> Inr (''nvswtches.Get('' @ str_nat i @ '')'', ''nvswitch'')
                | None \<Rightarrow> Inl (UnknownNode name))))"

definition gpu_index :: "writer \<Rightarrow> string \<Rightarrow> py_error + string" where
  "gpu_index w name = (case dget (w_gpus w) name of Some i \<Rightarrow> Inr (str_nat i) | None \<Rightarrow> Inl KeyError)"

definition emit_push_send_device ::
  "string \<Rightarrow> string \<Rightarrow> string \<Rightarrow> writer \<Rightarrow> py_error + writer" where
  "emit_push_send_device src_expr dst_name dev_expr w =
     res_bind (gpu_index w dst_name) (\<lambda>i.
       Inr (emit (''DynamicCast<GPU>('' @ src_expr @ '')->PushSendPeerDevice('' @ i @ '', '' @ dev_expr @ '');'') w))"

definition emit_push_recv_device ::
  "string \<Rightarrow> string \<Rightarrow> string \<Rightarrow> writer \<Rightarrow> py_error + writer" where
  "emit_push_recv_device dst_expr src_name dev_expr w =
     res_bind (gpu_index w src_name) (\<lambda>i.
       Inr (emit (''DynamicCast<GPU>('' @ dst_expr @ '')->PushRecvPeerDevice('' @ i @ '', '' @ dev_expr @ '');'') w))"

definition emit_link_install ::
  "string \<Rightarrow> string \<Rightarrow> nat \<Rightarrow> nat \<Rightarrow> writer \<Rightarrow> py_error + writer" where
  "emit_link_install src dst hid link_id w =
     res_bind (resolve_node w src) (\<lambda>(src_expr, src_type).
     res_bind (resolve_node w dst) (\<lambda>(dst_expr, dst_type).
       let container_expr = ''devs'' @ str_nat hid @ ''_'' @ str_nat link_id;
           w1 = emits
             [''NetDeviceContainer '' @ container_expr @ '' = link_helper'' @ str_nat hid
                @ ''.Install('' @ src_expr @ '', '' @ dst_expr @ '');'',
              ''''] w;
           w2 = w1\<lparr>container_map := dset (src, dst) container_expr (container_map w1)\<rparr>
       in if src_type = ''gpu'' \<and> dst_type = ''gpu'' then
            res_bind (emit_push_send_device src_expr dst (container_expr @ ''.Get(0)'') w2) (\<lambda>w3.
            res_bind (emit_push_recv_device dst_expr src (container_expr @ ''.Get(1)'') w3) (\<lambda>w4.
            res_bind (emit_push_send_device dst_expr src (container_expr @ ''.Get(1)'') w4) (\<lambda>w5.
            res_bind (emit_push_recv_device src_expr dst (container_expr @ ''.Get(0)'') w5) (\<lambda>w6.
            res_bind (gpu_index w6 dst) (\<lambda>di.
            res_bind (gpu_index w6 src) (\<lambda>si.
              Inr (emits
                [''DynamicCast<GPU>('' @ src_expr @ '')->PushPeerAddr('' @ di @ '', (''
                   @ container_expr @ ''.Get(1))->GetAddress());'',
                 ''DynamicCast<GPU>('' @ dst_expr @ '')->PushPeerAddr('' @ si @ '', (''
                   @ container_expr @ ''.Get(0))->GetAddress());'',
                 ''''] w6)))))))
          else Inr w2))"

definition emit_build_rdma_fabric :: "(string, int) dict \<Rightarrow> writer \<Rightarrow> writer" where
  "emit_build_rdma_fabric as w =
     (let w1 = emits (map (\<lambda>(name, v). ''Config::SetDefault(\"ns3::RdmaHw::'' @ name
                                       @ ''\", UintegerValue('' @ str_int v @ ''));'') (sort as)) w;
          w2 = (if as \<noteq> [] then emit '''' w1 else w1)
      in emits
         [''// ---- RDMA fabric: addressing, switch/nvswitch routing, RdmaHw/RdmaDriver ----'',
          ''RdmaFabricHelper rdmaFabric;'',
          ''rdmaFabric.Build(gpunodes, regswtches, nvswtches);'',
          ''''] w2)"

definition handle_insn :: "ns3_insn \<Rightarrow> writer \<Rightarrow> py_error + writer" where
  "handle_insn i w =
     (case i of
        NS3MakeGPUs n \<Rightarrow> Inr (emit_make_typed_nodes ''gpunodes'' ''GPU'' n w)
      | NS3MakeRegSwitches n \<Rightarrow> Inr (emit_make_typed_nodes ''regswtches'' ''SwitchNode'' n w)
      | NS3MakeNVSwitches n \<Rightarrow> Inr (emit_make_typed_nodes ''nvswtches'' ''NVSwitchNode'' n w)
      | NS3MakeLinkHelper hid delay data_rate mtu type \<Rightarrow> emit_link_helper hid delay data_rate mtu type w
      | NS3InstallLink src dst hid link_id \<Rightarrow> emit_link_install src dst hid link_id w
      | NS3BuildRdmaFabric as \<Rightarrow> Inr (emit_build_rdma_fabric as w))"

fun handle_insns :: "ns3_insn list \<Rightarrow> writer \<Rightarrow> py_error + writer" where
  "handle_insns [] w = Inr w"
| "handle_insns (i # is) w = res_bind (handle_insn i w) (\<lambda>w'. handle_insns is w')"

text \<open>The closing comment that lists the device container of each pair of nodes.\<close>

definition emit_gpu_setup :: "writer \<Rightarrow> writer" where
  "emit_gpu_setup w =
     (let w1 = emits ['''', ''/*''] w;
          w2 = w1\<lparr>w_indent := Suc (w_indent w1)\<rparr>;
          w3 = emits (map (\<lambda>((a, b), container). a @ '' -> '' @ b @ '': '' @ container) (container_map w2)) w2;
          w4 = w3\<lparr>w_indent := w_indent w3 - 1\<rparr>
      in emit ''*/'' w4)"

definition write_cc :: "writer \<Rightarrow> py_error + writer" where
  "write_cc w =
     res_bind (handle_insns (w_insns w) (emit_main_start (emit_headers w))) (\<lambda>w'.
       Inr (emit_main_end (emit_gpu_setup w')))"

definition file_text :: "writer \<Rightarrow> string" where
  "file_text w = join [newline] (w_lines w)"

section \<open>The tool\<close>

text \<open>
  \<^verbatim>\<open>main.py\<close> after parsing: transform the tree, generate, write. The parser is a parameter: a
  function from the source text to a parse tree.
\<close>

definition compile_tree :: "nat \<Rightarrow> pt_module list \<Rightarrow> py_error + string" where
  "compile_tree depth tree =
     res_bind (topo_transform tree) (\<lambda>cfg.
     res_bind (Generate depth cfg) (\<lambda>codegen.
     res_bind (write_cc (init_writer codegen)) (\<lambda>w. Inr (file_text w))))"

definition topo_main :: "nat \<Rightarrow> (string \<Rightarrow> py_error + pt_module list) \<Rightarrow> string \<Rightarrow> py_error + string" where
  "topo_main depth parse topo_text = res_bind (parse topo_text) (\<lambda>tree. compile_tree depth tree)"

end
