(* ===== verification/Topo_Invariants.thy ===== *)
theory Topo_Invariants
  imports Topo_Codegen
begin

text \<open>
  What every run of the code generator keeps. The state is changed by four operations only (a node, a
  link, an \<^verbatim>\<open>rdma\<close> attribute, the scopes); a locale states their contract and lifts it, once, to
  modules, loops, conditionals and uses. The invariants of the state are its interpretations.
\<close>

named_theorems gen_defs "the operations that change the generator's state"

lemmas GenerateModule_induct =
  GenerateModule_run_insns_GenerateInsn_GenSubmodule_GenIf_GenLoop_run_loop.induct

section \<open>Lifting a contract of the four operations to whole runs\<close>

locale gen_relation =
  fixes R :: "gen \<Rightarrow> gen \<Rightarrow> bool"
  assumes R_refl: "R g g"
    and R_trans: "R g g' \<Longrightarrow> R g' g'' \<Longrightarrow> R g g''"
    and R_node: "add_node name ty g = Inr g' \<Longrightarrow> R g g'"
    and R_link: "add_link src dst as g = Inr g' \<Longrightarrow> R g g'"
    and R_rdma: "R g (g\<lparr>rdma_attrs := dset k n (rdma_attrs g)\<rparr>)"
    and R_scopes: "R g (g\<lparr>scopes := h\<rparr>)"
begin

lemma R_GenNewNode: "GenNewNode d sid nm ty g = Inr g' \<Longrightarrow> R g g'"
  by (cases d) (auto simp: res_bind_eq_Inr intro: R_node)

lemma R_GenNewLink: "GenNewLink d sid a b as g = Inr g' \<Longrightarrow> R g g'"
  by (cases d) (auto simp: res_bind_eq_Inr intro: R_link split: list.splits if_splits)

lemma R_set_rdma: "set_rdma d sid as g = Inr g' \<Longrightarrow> R g g'"
proof (induction d sid as g rule: set_rdma.induct)
  case (2 d sid k v rest g)
  then show ?case by (auto simp: res_bind_eq_Inr intro: R_trans [OF R_rdma])
qed (simp add: R_refl)

lemma R_GenRdmaConfig: "GenRdmaConfig d sid as g = Inr g' \<Longrightarrow> R g g'"
  by (cases d) (auto intro: R_set_rdma)

lemma R_bind_params: "R g (bind_params sid ps args g)"
  by (simp add: bind_params_def R_scopes)

lemma R_run:
  "GenerateModule d b args g = Inr g' \<Longrightarrow> R g g'"
  "run_insns d sid is g = Inr g' \<Longrightarrow> R g g'"
  "GenerateInsn d sid i g = Inr g' \<Longrightarrow> R g g'"
  "GenSubmodule d sid nm m vs g = Inr g' \<Longrightarrow> R g g'"
  "GenIf d sid l op r b g = Inr g' \<Longrightarrow> R g g'"
  "GenLoop d sid s e b g = Inr g' \<Longrightarrow> R g g'"
  "run_loop d b ns g = Inr g' \<Longrightarrow> R g g'"
proof (induction d b args g and d sid "is" g and d sid i g and d sid nm m vs g
    and d sid l op r b g and d sid s e b g and d b ns g
    arbitrary: g' and g' and g' and g' and g' and g' and g' rule: GenerateModule_induct)
  case (2 d b args g)
  then show ?case by (auto intro: R_trans [OF R_bind_params] split: if_splits)
next
  case (4 d sid i "is" g)
  then show ?case by (auto simp: res_bind_eq_Inr intro: R_trans)
next
  case (6 d sid i g)
  then show ?case
    by (cases i) (auto intro: R_GenNewNode R_GenNewLink R_GenRdmaConfig)
next
  case (8 d sid nm m args g)
  let ?h = "\<lambda>b. set_node_name_prefix (block_id b) nm (set_parent (block_id b) sid (scopes g))"
  from "8.prems" obtain b vs where b: "dget (modules g) m = Some b"
    and vs: "res_map (expr_resolve d (?h b) sid) args = Inr vs"
    and run: "GenerateModule d b vs (g\<lparr>scopes := ?h b\<rparr>) = Inr g'"
    by (auto simp: res_bind_eq_Inr Let_def split: option.splits)
  have "R (g\<lparr>scopes := ?h b\<rparr>) g'"
    by (rule "8.IH" [OF b refl _ run]) (simp add: vs)
  then show ?case by (rule R_trans [OF R_scopes])
next
  case (10 d sid l op r b g)
  then show ?case
    by (auto simp: res_bind_eq_Inr intro: R_refl R_trans [OF R_scopes] split: if_splits)
next
  case (12 d sid s e b g)
  then show ?case by (auto simp: res_bind_eq_Inr intro: R_trans [OF R_scopes])
next
  case (14 d b i "is" g)
  then show ?case by (auto simp: res_bind_eq_Inr intro: R_trans)
qed (auto simp: R_refl)

end

text \<open>An invariant of states is the relation "if it held before, it holds after".\<close>

locale gen_invariant =
  fixes P :: "gen \<Rightarrow> bool"
  assumes P_node: "P g \<Longrightarrow> add_node name ty g = Inr g' \<Longrightarrow> P g'"
    and P_link: "P g \<Longrightarrow> add_link src dst as g = Inr g' \<Longrightarrow> P g'"
    and P_rdma: "P g \<Longrightarrow> P (g\<lparr>rdma_attrs := dset k n (rdma_attrs g)\<rparr>)"
    and P_scopes: "P g \<Longrightarrow> P (g\<lparr>scopes := h\<rparr>)"
begin

sublocale gen_relation "\<lambda>g g'. P g \<longrightarrow> P g'"
  by unfold_locales (auto intro: P_node P_link P_rdma P_scopes)

lemma P_run: "GenerateModule d b args g = Inr g' \<Longrightarrow> P g \<Longrightarrow> P g'"
  using R_run(1) by blast

lemma P_Generate:
  assumes "Generate d ms = Inr g" and "P (init_gen ms)"
  obtains g0 where "P g0" and "g = finish_gen g0"
  using assms by (auto simp: Generate_def res_bind_eq_Inr intro: P_run split: option.splits)

end

section \<open>The four operations in closed form\<close>

lemma add_node_cases [consumes 1, case_names gpu switch nvswitch]:
  assumes "add_node name ty g = Inr g'"
  obtains "g' = g\<lparr>gpus := dset name (gpu_counter g) (gpus g), gpu_counter := Suc (gpu_counter g)\<rparr>"
    | "g' = g\<lparr>switches := dset name (switch_counter g) (switches g),
             switch_counter := Suc (switch_counter g)\<rparr>"
    | "g' = g\<lparr>nvswitches := dset name (nvswitch_counter g) (nvswitches g),
             nvswitch_counter := Suc (nvswitch_counter g)\<rparr>"
  using assms by (auto simp: add_node_def split: if_splits)

lemma intern_helper_get: "\<exists>hid. dget (link_helpers (intern_helper attr g)) attr = Some hid"
  by (auto simp: intern_helper_def split: option.split)

lemma intern_helper_simps [simp]:
  "gpus (intern_helper attr g) = gpus g" "switches (intern_helper attr g) = switches g"
  "nvswitches (intern_helper attr g) = nvswitches g" "insns (intern_helper attr g) = insns g"
  "gpu_counter (intern_helper attr g) = gpu_counter g"
  "switch_counter (intern_helper attr g) = switch_counter g"
  "nvswitch_counter (intern_helper attr g) = nvswitch_counter g"
  "link_id_counter (intern_helper attr g) = link_id_counter g"
  "has_qbb_fabric (intern_helper attr g) = has_qbb_fabric g"
  "rdma_attrs (intern_helper attr g) = rdma_attrs g" "modules (intern_helper attr g) = modules g"
  by (auto simp: intern_helper_def split: option.split)

definition link_state :: "link_attr \<Rightarrow> string \<Rightarrow> string \<Rightarrow> nat \<Rightarrow> gen \<Rightarrow> gen" where
  "link_state attr src dst hid g =
     (intern_helper attr g)\<lparr>insns := insns g @ [NS3InstallLink src dst hid (link_id_counter g)],
        link_id_counter := Suc (link_id_counter g),
        has_qbb_fabric := has_qbb_fabric g \<or> snd (snd (snd attr)) = ''qbb''\<rparr>"

lemma add_link_InrE:
  assumes "add_link src dst as g = Inr g'"
  obtains latency bandwidth attr hid where
    "attr = (latency, bandwidth, link_mtu g as (link_type g src dst), link_type g src dst)"
    and "dget as ''latency'' = Some latency" and "dget as ''bandwidth'' = Some bandwidth"
    and "dget (link_helpers (intern_helper attr g)) attr = Some hid"
    and "g' = link_state attr src dst hid g"
  using assms
  by (auto simp: add_link_def Let_def link_state_def split: option.splits if_splits)

section \<open>Numbered nodes\<close>

text \<open>Every name has its own number, below the count of nodes of its kind.\<close>

definition index_table :: "(string, nat) dict \<Rightarrow> nat \<Rightarrow> bool" where
  "index_table d n \<longleftrightarrow> distinct (dkeys d) \<and> distinct (map snd d) \<and> (\<forall>i \<in> set (map snd d). i < n)"

definition nodes_ok :: "gen \<Rightarrow> bool" where
  "nodes_ok g \<longleftrightarrow>
     index_table (gpus g) (gpu_counter g) \<and> index_table (switches g) (switch_counter g) \<and>
     index_table (nvswitches g) (nvswitch_counter g)"

lemma snd_set_dset: "set (map snd (dset k v d)) \<subseteq> insert v (set (map snd d))"
  by (induction k v d rule: dset.induct) auto

lemma distinct_snd_dset:
  "distinct (map snd d) \<Longrightarrow> v \<notin> set (map snd d) \<Longrightarrow> distinct (map snd (dset k v d))"
proof (induction k v d rule: dset.induct)
  case (2 k v k' v' d)
  then show ?case using snd_set_dset [of k v d] by auto
qed simp

lemma index_table_Nil [simp]: "index_table [] n"
  by (simp add: index_table_def)

lemma index_table_dset: "index_table d n \<Longrightarrow> index_table (dset name n d) (Suc n)"
  using snd_set_dset [of name n d]
  by (fastforce simp: index_table_def intro: distinct_snd_dset)

lemma index_table_bound: "index_table d n \<Longrightarrow> dget d name = Some i \<Longrightarrow> i < n"
  by (force simp: index_table_def dest: map_of_SomeD)

lemma index_table_inj:
  assumes "index_table d n" and "dget d a = Some i" and "dget d b = Some i"
  shows "a = b"
proof -
  from assms have "(a, i) \<in> set d" "(b, i) \<in> set d" "distinct (map snd d)"
    by (auto dest: map_of_SomeD simp: index_table_def)
  then show ?thesis by (force simp: distinct_map inj_on_def)
qed

interpretation nodes: gen_invariant nodes_ok
proof unfold_locales
  fix g name ty g'
  assume "nodes_ok g" and "add_node name ty g = Inr g'"
  then show "nodes_ok g'"
    by (elim add_node_cases) (auto simp: nodes_ok_def intro: index_table_dset)
next
  fix g src dst as g'
  assume "nodes_ok g" and "add_link src dst as g = Inr g'"
  then show "nodes_ok g'"
    by (elim add_link_InrE) (auto simp: nodes_ok_def link_state_def)
qed (auto simp: nodes_ok_def)

section \<open>Shared helpers and planned links\<close>

fun link_id_of :: "ns3_insn \<Rightarrow> nat" where
  "link_id_of (NS3InstallLink _ _ _ lid) = lid"
| "link_id_of _ = 0"

text \<open>
  A planned link uses a helper of the table, and a link whose helper is of type p2p joins two GPUs.
\<close>

definition link_ok :: "gen \<Rightarrow> ns3_insn \<Rightarrow> bool" where
  "link_ok g i \<longleftrightarrow>
     (\<exists>s t hid lid lat bw mtu type.
        i = NS3InstallLink s t hid lid \<and> dget (link_helpers g) (lat, bw, mtu, type) = Some hid \<and>
        (type = ''p2p'' \<longrightarrow> s \<in> set (dkeys (gpus g)) \<and> t \<in> set (dkeys (gpus g))))"

definition link_attr_type :: "link_attr \<Rightarrow> string" where
  "link_attr_type a = snd (snd (snd a))"

definition links_ok :: "gen \<Rightarrow> bool" where
  "links_ok g \<longleftrightarrow>
     pydict.numbers (\<lambda>i. i) (link_helpers g) (link_helper_counter g) \<and>
     map link_id_of (insns g) = [0..<link_id_counter g] \<and>
     (\<forall>i \<in> set (insns g). link_ok g i) \<and>
     (\<forall>a \<in> set (dkeys (link_helpers g)). link_attr_type a = ''p2p'' \<or> link_attr_type a = ''qbb'') \<and>
     (has_qbb_fabric g \<longleftrightarrow> (\<exists>a \<in> set (dkeys (link_helpers g)). link_attr_type a = ''qbb''))"

text \<open>Tables only grow: what a planned link refers to stays.\<close>

definition grows :: "gen \<Rightarrow> gen \<Rightarrow> bool" where
  "grows g g' \<longleftrightarrow>
     set (dkeys (gpus g)) \<subseteq> set (dkeys (gpus g')) \<and>
     (\<forall>a hid. dget (link_helpers g) a = Some hid \<longrightarrow> dget (link_helpers g') a = Some hid)"

lemma link_ok_grows: "link_ok g i \<Longrightarrow> grows g g' \<Longrightarrow> link_ok g' i"
  unfolding link_ok_def grows_def by blast

lemma grows_intern: "grows g (link_state attr src dst hid g)"
  by (auto simp: grows_def link_state_def intern_helper_def split: option.split)

lemma links_ok_grows:
  assumes "links_ok g" and "grows g g'" and "link_helpers g' = link_helpers g"
    and "insns g' = insns g" and "link_helper_counter g' = link_helper_counter g"
    and "link_id_counter g' = link_id_counter g" and "has_qbb_fabric g' = has_qbb_fabric g"
  shows "links_ok g'"
  using assms(1) link_ok_grows [OF _ assms(2)] by (simp add: links_ok_def assms(3-))

lemma links_ok_add_node:
  assumes "links_ok g" and "add_node name ty g = Inr g'"
  shows "links_ok g'"
  by (rule links_ok_grows [OF assms(1)])
    (use assms(2) in \<open>elim add_node_cases; force simp: grows_def\<close>)+

lemma link_helpers_intern:
  "dkeys (link_helpers (intern_helper attr g)) =
     (if attr \<in> set (dkeys (link_helpers g)) then dkeys (link_helpers g)
      else dkeys (link_helpers g) @ [attr])"
  by (auto simp: intern_helper_def dget_None_iff dkeys_dset dest: dget_Some_key split: option.split)

lemma numbers_intern:
  assumes "pydict.numbers (\<lambda>i. i) (link_helpers g) (link_helper_counter g)"
  shows "pydict.numbers (\<lambda>i. i) (link_helpers (intern_helper attr g))
           (link_helper_counter (intern_helper attr g))"
proof (cases "dget (link_helpers g) attr")
  case None
  then show ?thesis
    using pydict.numbers_fresh [OF assms None] by (simp add: intern_helper_def)
next
  case (Some hid)
  with assms show ?thesis by (simp add: intern_helper_def)
qed

lemma links_ok_link_state:
  assumes ok: "links_ok g"
    and attr: "attr = (lat, bw, mtu, link_type g src dst)"
    and hid: "dget (link_helpers (intern_helper attr g)) attr = Some hid"
  shows "links_ok (link_state attr src dst hid g)"
proof -
  let ?g' = "link_state attr src dst hid g"
  have type: "link_attr_type attr = ''p2p'' \<or> link_attr_type attr = ''qbb''"
    and p2p: "link_attr_type attr = ''p2p'' \<Longrightarrow> src \<in> set (dkeys (gpus g)) \<and> dst \<in> set (dkeys (gpus g))"
    by (auto simp: attr link_type_def link_attr_type_def split: if_splits)
  have new: "link_ok ?g' (NS3InstallLink src dst hid (link_id_counter g))"
    unfolding link_ok_def
  proof (intro exI conjI)
    show "dget (link_helpers ?g') (lat, bw, mtu, link_type g src dst) = Some hid"
      using hid by (simp add: link_state_def attr)
  qed (use p2p in \<open>auto simp: link_state_def attr link_attr_type_def\<close>)
  have old: "\<forall>i \<in> set (insns g). link_ok ?g' i"
    using ok link_ok_grows [OF _ grows_intern] by (auto simp: links_ok_def)
  have keys: "set (dkeys (link_helpers ?g')) = insert attr (set (dkeys (link_helpers g)))"
    by (auto simp: link_state_def link_helpers_intern)
  have nums: "pydict.numbers (\<lambda>i. i) (link_helpers ?g') (link_helper_counter ?g')"
    using ok numbers_intern by (simp add: links_ok_def link_state_def)
  have fields: "insns ?g' = insns g @ [NS3InstallLink src dst hid (link_id_counter g)]"
    "link_id_counter ?g' = Suc (link_id_counter g)"
    "has_qbb_fabric ?g' \<longleftrightarrow> has_qbb_fabric g \<or> link_attr_type attr = ''qbb''"
    by (simp_all add: link_state_def link_attr_type_def)
  from ok new old type nums show ?thesis
    unfolding links_ok_def keys fields by auto
qed

interpretation links: gen_invariant links_ok
proof unfold_locales
  fix g src dst as g'
  assume "links_ok g" and "add_link src dst as g = Inr g'"
  then show "links_ok g'"
    by (elim add_link_InrE) (simp add: links_ok_link_state)
next
  show "links_ok g \<Longrightarrow> links_ok (g\<lparr>rdma_attrs := dset k n (rdma_attrs g)\<rparr>)" for g k n
    by (erule links_ok_grows) (simp_all add: grows_def)
next
  show "links_ok g \<Longrightarrow> links_ok (g\<lparr>scopes := h\<rparr>)" for g h
    by (erule links_ok_grows) (simp_all add: grows_def)
qed (rule links_ok_add_node)

lemma links_ok_init: "links_ok (init_gen ms)"
  using pydict.numbers_empty [of "\<lambda>i. i"] by (simp add: links_ok_def init_gen_def)

lemma nodes_ok_init: "nodes_ok (init_gen ms)"
  by (simp add: nodes_ok_def init_gen_def)

section \<open>What a finished run looks like\<close>

text \<open>The fields a finished run shares with the state before the header was put in front.\<close>

lemma finish_gen_simps [simp]:
  "gpus (finish_gen g) = gpus g" "switches (finish_gen g) = switches g"
  "nvswitches (finish_gen g) = nvswitches g" "link_helpers (finish_gen g) = link_helpers g"
  "gpu_counter (finish_gen g) = gpu_counter g" "switch_counter (finish_gen g) = switch_counter g"
  "nvswitch_counter (finish_gen g) = nvswitch_counter g"
  "link_helper_counter (finish_gen g) = link_helper_counter g"
  "link_id_counter (finish_gen g) = link_id_counter g"
  "has_qbb_fabric (finish_gen g) = has_qbb_fabric g" "rdma_attrs (finish_gen g) = rdma_attrs g"
  by (simp_all add: finish_gen_def Let_def)

lemma insns_finish_gen:
  "insns (finish_gen g) =
     [NS3MakeGPUs (gpu_counter g), NS3MakeRegSwitches (switch_counter g),
      NS3MakeNVSwitches (nvswitch_counter g)]
     @ map helper_insn (link_helpers g) @ insns g
     @ (if has_qbb_fabric g then [NS3BuildRdmaFabric (rdma_attrs g)] else [])"
  by (simp add: finish_gen_def Let_def)

lemma link_ok_finish_gen [simp]: "link_ok (finish_gen g) i \<longleftrightarrow> link_ok g i"
  by (simp add: link_ok_def)

lemma numbers_snd:
  assumes "pydict.numbers (\<lambda>i. i) d n"
  shows "distinct (dkeys d)" and "map snd d = [0..<n]"
proof -
  from assms have dist: "distinct (dkeys d)" and nums: "map (dget d) (dkeys d) = map Some [0..<n]"
    by (simp_all add: pydict.numbers_def comp_def)
  show "distinct (dkeys d)" by (rule dist)
  have "map (dget d) (dkeys d) = map Some (map snd d)"
    using dist by (auto simp: map_of_is_SomeI)
  with nums have "map Some (map snd d) = map Some [0..<n]" by simp
  then show "map snd d = [0..<n]" by (metis inj_map_eq_map inj_Some)
qed

text \<open>A two-GPU hub, the smallest program with a module, a loop, templates and a use.\<close>

definition hub_program :: "(string, block) dict" where
  "hub_program =
     [(''hub_spoke'', Block 1 [''N'']
        [NewNodeInsn ''sw'' (VStr ''switch'') [],
         LoopInsn ''i'' (VInt 1) (VStr ''N'') (Block 0 [''i'']
           [NewNodeInsn ''n{i}'' (VStr ''gpu'') [],
            NewLinkInsn [''n{i}''] [''sw'']
              [(''bandwidth'', VTup 125 ''Gbps''), (''latency'', VTup 300 ''ns'')]])]),
      (''main'', Block 2 [] [SubmoduleInsn ''c1'' ''hub_spoke'' [VInt 2]])]"

lemma hub_program_ok: "is_ok (Generate 30 hub_program)"
  by code_simp

text \<open>
  Claim C6. A run of the generator that returns has planned its links consistently: the instructions
  are the three node counts, one helper per distinct attribute tuple with the helpers numbered
  0, 1, 2, ... in creation order, then the links numbered 0, 1, 2, ..., and the RDMA fabric last
  exactly when some helper is of type qbb. Every link uses a helper that was created, and a link
  whose helper is of type p2p joins two declared GPUs.
\<close>

theorem Generate_plan:
  assumes "Generate d ms = Inr g"
  shows "\<exists>links.
      insns g = [NS3MakeGPUs (gpu_counter g), NS3MakeRegSwitches (switch_counter g),
                 NS3MakeNVSwitches (nvswitch_counter g)]
                @ map helper_insn (link_helpers g) @ links
                @ (if \<exists>a \<in> set (dkeys (link_helpers g)). link_attr_type a = ''qbb''
                   then [NS3BuildRdmaFabric (rdma_attrs g)] else [])
      \<and> distinct (dkeys (link_helpers g))
      \<and> map snd (link_helpers g) = [0..<length (link_helpers g)]
      \<and> map link_id_of links = [0..<length links]
      \<and> list_all (link_ok g) links"
proof -
  obtain g0 where ok: "links_ok g0" and g: "g = finish_gen g0"
    using assms links_ok_init by (rule links.P_Generate)
  from ok have nums: "pydict.numbers (\<lambda>i. i) (link_helpers g0) (link_helper_counter g0)"
    and ids: "map link_id_of (insns g0) = [0..<link_id_counter g0]"
    and links: "\<forall>i \<in> set (insns g0). link_ok g0 i"
    and qbb: "has_qbb_fabric g0 \<longleftrightarrow> (\<exists>a \<in> set (dkeys (link_helpers g0)). link_attr_type a = ''qbb'')"
    by (simp_all add: links_ok_def)
  have "length (link_helpers g0) = link_helper_counter g0"
    using numbers_snd(2) [OF nums] by (metis length_map length_upt minus_nat.diff_0)
  moreover have "length (insns g0) = link_id_counter g0"
    using ids by (metis length_map length_upt minus_nat.diff_0)
  ultimately show ?thesis
    using numbers_snd [OF nums] ids links qbb
    by (intro exI [of _ "insns g0"]) (simp add: g insns_finish_gen list_all_iff)
qed

theorem Generate_plan_witness:
  "\<exists>g links. Generate 30 hub_program = Inr g \<and> map link_id_of links = [0..<length links] \<and>
     list_all (link_ok g) links"
proof -
  from hub_program_ok obtain g where g: "Generate 30 hub_program = Inr g"
    by (auto simp: is_ok_iff)
  with Generate_plan [OF g] show ?thesis by blast
qed

text \<open>
  Claim C7. After a run, every name of a GPU, a switch and an NVSwitch has its own index, and the
  index is below the number of nodes of its kind that the emitted program creates, so no lookup of
  the emitted program runs past its node container.
\<close>

theorem Generate_node_indices:
  assumes "Generate d ms = Inr g"
  shows "index_table (gpus g) (gpu_counter g) \<and> index_table (switches g) (switch_counter g) \<and>
    index_table (nvswitches g) (nvswitch_counter g) \<and>
    take 3 (insns g) = [NS3MakeGPUs (gpu_counter g), NS3MakeRegSwitches (switch_counter g),
                        NS3MakeNVSwitches (nvswitch_counter g)]"
proof -
  obtain g0 where "nodes_ok g0" and "g = finish_gen g0"
    using assms nodes_ok_init by (rule nodes.P_Generate)
  then show ?thesis by (simp add: nodes_ok_def insns_finish_gen)
qed

theorem Generate_node_indices_witness:
  "\<exists>g. Generate 30 hub_program = Inr g \<and> index_table (gpus g) (gpu_counter g)"
proof -
  from hub_program_ok obtain g where g: "Generate 30 hub_program = Inr g"
    by (auto simp: is_ok_iff)
  with Generate_node_indices [OF g] show ?thesis by blast
qed

end
