(* ===== verification/Topo_Refine.thy ===== *)
theory Topo_Refine
  imports Topo_Invariants
begin

text \<open>
  A reference semantics of topology programs and its implementation by the code generator.

  The generator keeps one mutable scope per block, rewires parent pointers at every entry, leaves
  stale bindings behind and runs on a bounded stack. The reference semantics has none of this: a block
  runs in an environment that is a list of frames (\<^verbatim>\<open>Topo_Scope\<close>), and entering a block pushes a
  frame. For programs whose blocks do not enter themselves, directly or through uses, the two agree.
\<close>

section \<open>The reference semantics\<close>

definition join_prefix :: "string \<Rightarrow> string \<Rightarrow> string" where
  "join_prefix prefix name = (if prefix \<noteq> [] then prefix @ ''_'' @ name else name)"

definition ref_new_node :: "frame list \<Rightarrow> string \<Rightarrow> topo_value \<Rightarrow> gen \<Rightarrow> py_error + gen" where
  "ref_new_node fs nm ty g =
     res_bind (env_prefix fs) (\<lambda>prefix.
     res_bind (env_fill fs nm) (\<lambda>name. add_node (join_prefix prefix name) ty g))"

fun ref_path :: "frame list \<Rightarrow> string \<Rightarrow> string list \<Rightarrow> py_error + string" where
  "ref_path fs acc [] = Inr acc"
| "ref_path fs acc (p # ps) = res_bind (env_fill fs p) (\<lambda>s. ref_path fs (acc @ ''_'' @ s) ps)"

definition ref_new_link ::
  "frame list \<Rightarrow> string list \<Rightarrow> string list \<Rightarrow> attrs \<Rightarrow> gen \<Rightarrow> py_error + gen" where
  "ref_new_link fs a b as g =
     (case (a, b) of
        (a0 # as', b0 # bs') \<Rightarrow>
          res_bind (env_fill fs a0) (\<lambda>src0.
          res_bind (env_fill fs b0) (\<lambda>dst0.
          res_bind (ref_path fs src0 as') (\<lambda>src.
          res_bind (ref_path fs dst0 bs') (\<lambda>dst.
          res_bind (env_prefix fs) (\<lambda>prefix.
            add_link (join_prefix prefix src) (join_prefix prefix dst) as g)))))
      | _ \<Rightarrow> Inl IndexError)"

fun ref_rdma :: "frame list \<Rightarrow> (string \<times> topo_value) list \<Rightarrow> gen \<Rightarrow> py_error + gen" where
  "ref_rdma fs [] g = Inr g"
| "ref_rdma fs ((k, v) # rest) g =
     res_bind (env_eval fs v) (\<lambda>n. ref_rdma fs rest (g\<lparr>rdma_attrs := dset k n (rdma_attrs g)\<rparr>))"

text \<open>The first argument bounds how many blocks may be entered inside one another.\<close>

function ref_block ::
    "nat \<Rightarrow> frame list \<Rightarrow> string \<Rightarrow> block \<Rightarrow> int list \<Rightarrow> gen \<Rightarrow> py_error + gen"
  and ref_insns :: "nat \<Rightarrow> frame list \<Rightarrow> insn list \<Rightarrow> gen \<Rightarrow> py_error + gen"
  and ref_insn :: "nat \<Rightarrow> frame list \<Rightarrow> insn \<Rightarrow> gen \<Rightarrow> py_error + gen"
  and ref_loop :: "nat \<Rightarrow> frame list \<Rightarrow> block \<Rightarrow> int list \<Rightarrow> gen \<Rightarrow> py_error + gen" where
  "ref_block 0 fs prefix b args g = Inl RecursionError"
| "ref_block (Suc n) fs prefix b args g =
     (if length args \<noteq> length (block_params b)
      then Inl (ArityMismatch (length (block_params b)) (length args))
      else ref_insns n ((dget (rev (zip (block_params b) args)), prefix) # fs) (block_insns b) g)"
| "ref_insns n fs [] g = Inr g"
| "ref_insns n fs (i # is) g = res_bind (ref_insn n fs i g) (\<lambda>g'. ref_insns n fs is g')"
| "ref_insn n fs i g =
     (case i of
        NewNodeInsn nm ty as \<Rightarrow> ref_new_node fs nm ty g
      | NewLinkInsn a b as \<Rightarrow> ref_new_link fs a b as g
      | RdmaConfigInsn as \<Rightarrow> ref_rdma fs as g
      | SubmoduleInsn nm m vs \<Rightarrow>
          (case dget (modules g) m of
             None \<Rightarrow> Inl (ModuleNotDefined m)
           | Some b \<Rightarrow> res_bind (res_map (env_eval fs) vs) (\<lambda>xs. ref_block n fs nm b xs g))
      | IfInsn l op r b \<Rightarrow>
          (if is_tuple l \<or> is_tuple r then Inl UnitComparison
           else
             res_bind (env_eval fs l) (\<lambda>x.
             res_bind (env_eval fs r) (\<lambda>y.
               if cmp_apply op x y then ref_block n fs [] b [] g else Inr g)))
      | LoopInsn it s e b \<Rightarrow>
          res_bind (env_eval fs s) (\<lambda>x.
          res_bind (env_eval fs e) (\<lambda>y. ref_loop n fs b [x..y] g)))"
| "ref_loop n fs b [] g = Inr g"
| "ref_loop n fs b (k # ks) g = res_bind (ref_block n fs [] b [k] g) (\<lambda>g'. ref_loop n fs b ks g')"
  by pat_completeness auto
termination
  by (relation "inv_image (less_than <*lex*> less_than <*lex*> less_than)
        (\<lambda>x. case x of
           Inl (Inl (n, fs, prefix, b, args, g)) \<Rightarrow> (n, 0, 0)
         | Inl (Inr (n, fs, is, g)) \<Rightarrow> (n, 3, length is)
         | Inr (Inl (n, fs, i, g)) \<Rightarrow> (n, 2, 0)
         | Inr (Inr (n, fs, b, ks, g)) \<Rightarrow> (n, 1, length ks))") auto

lemmas ref_induct = ref_block_ref_insns_ref_insn_ref_loop.induct

declare ref_insn.simps [simp del]

definition ref_generate :: "nat \<Rightarrow> (string, block) dict \<Rightarrow> py_error + gen" where
  "ref_generate n ms =
     (case dget ms ''main'' of
        None \<Rightarrow> Inl KeyError
      | Some b \<Rightarrow> res_bind (ref_block n [] [] b [] (init_gen ms)) (\<lambda>g. Inr (finish_gen g)))"

section \<open>Programs whose blocks do not enter themselves\<close>

text \<open>
  A shape gives every block number a rank, its parameter list and whether it is the body of a loop
  or a conditional, and bounds the height of expressions. In a well-formed program a block only
  enters blocks of smaller rank.
\<close>

record shape =
  sh_rank :: "nat \<Rightarrow> nat"
  sh_params :: "nat \<Rightarrow> string list"
  sh_inner :: "nat \<Rightarrow> bool"
  sh_height :: nat

fun wf_block :: "shape \<Rightarrow> (string, block) dict \<Rightarrow> block \<Rightarrow> bool"
  and wf_insn :: "shape \<Rightarrow> (string, block) dict \<Rightarrow> nat \<Rightarrow> insn \<Rightarrow> bool" where
  "wf_block sh ms (Block i ps is) \<longleftrightarrow> ps = sh_params sh i \<and> (\<forall>x \<in> set is. wf_insn sh ms i x)"
| "wf_insn sh ms i (SubmoduleInsn nm m vs) \<longleftrightarrow>
     (\<forall>v \<in> set vs. vdepth v \<le> sh_height sh) \<and>
     (\<forall>b. dget ms m = Some b \<longrightarrow> sh_rank sh (block_id b) < sh_rank sh i)"
| "wf_insn sh ms i (IfInsn l op r b) \<longleftrightarrow>
     vdepth l \<le> sh_height sh \<and> vdepth r \<le> sh_height sh \<and>
     sh_rank sh (block_id b) < sh_rank sh i \<and> sh_inner sh (block_id b) \<and> wf_block sh ms b"
| "wf_insn sh ms i (LoopInsn it s e b) \<longleftrightarrow>
     vdepth s \<le> sh_height sh \<and> vdepth e \<le> sh_height sh \<and>
     sh_rank sh (block_id b) < sh_rank sh i \<and> sh_inner sh (block_id b) \<and> wf_block sh ms b"
| "wf_insn sh ms i (RdmaConfigInsn as) \<longleftrightarrow> (\<forall>v \<in> set (map snd as). vdepth v \<le> sh_height sh)"
| "wf_insn sh ms i (NewNodeInsn nm ty as) \<longleftrightarrow> True"
| "wf_insn sh ms i (NewLinkInsn a b as) \<longleftrightarrow> True"

definition wf_prog :: "shape \<Rightarrow> (string, block) dict \<Rightarrow> bool" where
  "wf_prog sh ms \<longleftrightarrow> (\<forall>b \<in> set (map snd ms). wf_block sh ms b \<and> \<not> sh_inner sh (block_id b))"

lemma wf_prog_get: "wf_prog sh ms \<Longrightarrow> dget ms m = Some b \<Longrightarrow> wf_block sh ms b \<and> \<not> sh_inner sh (block_id b)"
  by (force simp: wf_prog_def dest: map_of_SomeD)

lemma wf_block_iff:
  "wf_block sh ms b \<longleftrightarrow>
     block_params b = sh_params sh (block_id b) \<and> (\<forall>x \<in> set (block_insns b). wf_insn sh ms (block_id b) x)"
  by (cases b) simp

text \<open>The bound on nesting is never reached when it exceeds the rank of the block.\<close>

lemma add_node_not_rec: "add_node name ty g \<noteq> Inl RecursionError"
  by (simp add: add_node_def)

lemma add_link_not_rec: "add_link a b as g \<noteq> Inl RecursionError"
  by (simp add: add_link_def Let_def split: option.split)

lemma apply_op_not_rec: "apply_op op x y \<noteq> Inl RecursionError"
  by (simp add: apply_op_def)

lemma env_var_not_rec: "env_var fs x \<noteq> Inl RecursionError"
  by (induction fs) (auto split: option.splits)

lemma env_fill_not_rec: "env_fill fs s \<noteq> Inl RecursionError"
  by (auto simp: env_fill_def res_bind_eq_Inl env_var_not_rec split: option.splits)

lemma env_lookup_not_rec: "env_lookup fs x \<noteq> Inl RecursionError"
  by (induction fs arbitrary: x) (auto simp: res_bind_eq_Inl env_fill_not_rec split: option.splits)

lemma env_prefix_not_rec: "env_prefix fs \<noteq> Inl RecursionError"
  by (induction fs) (auto simp: res_bind_eq_Inl env_fill_not_rec split: if_splits)

lemma env_eval_not_rec: "env_eval fs v \<noteq> Inl RecursionError"
  by (induction fs v rule: env_eval.induct) (auto simp: res_bind_eq_Inl env_lookup_not_rec apply_op_not_rec)

lemma res_map_not_rec: "res_map (env_eval fs) vs \<noteq> Inl RecursionError"
  by (induction vs) (auto simp: res_bind_eq_Inl env_eval_not_rec)

lemma ref_path_not_rec: "ref_path fs acc ps \<noteq> Inl RecursionError"
  by (induction fs acc ps rule: ref_path.induct) (auto simp: res_bind_eq_Inl env_fill_not_rec)

lemma ref_rdma_not_rec: "ref_rdma fs as g \<noteq> Inl RecursionError"
  by (induction fs as g rule: ref_rdma.induct) (auto simp: res_bind_eq_Inl env_eval_not_rec)

lemma ref_new_node_not_rec: "ref_new_node fs nm ty g \<noteq> Inl RecursionError"
  by (auto simp: ref_new_node_def res_bind_eq_Inl env_prefix_not_rec env_fill_not_rec add_node_not_rec)

lemma ref_new_link_not_rec: "ref_new_link fs a b as g \<noteq> Inl RecursionError"
  by (auto simp: ref_new_link_def res_bind_eq_Inl env_prefix_not_rec env_fill_not_rec
      ref_path_not_rec add_link_not_rec split: list.split)

lemmas not_rec = env_eval_not_rec res_map_not_rec ref_rdma_not_rec ref_new_node_not_rec
  ref_new_link_not_rec

lemma modules_add_node: "add_node name ty g = Inr g' \<Longrightarrow> modules g' = modules g"
  by (elim add_node_cases) auto

lemma modules_add_link: "add_link a b as g = Inr g' \<Longrightarrow> modules g' = modules g"
  by (elim add_link_InrE) (simp add: link_state_def)

interpretation same_modules: gen_relation "\<lambda>g g'. modules g' = modules g"
  by unfold_locales (auto simp: modules_add_node modules_add_link)

lemma modules_ref_rdma: "ref_rdma fs as g = Inr g' \<Longrightarrow> modules g' = modules g"
  by (induction fs as g rule: ref_rdma.induct) (auto simp: res_bind_eq_Inr)

lemma modules_ref_new_node: "ref_new_node fs nm ty g = Inr g' \<Longrightarrow> modules g' = modules g"
  by (auto simp: ref_new_node_def res_bind_eq_Inr modules_add_node)

lemma modules_ref_new_link: "ref_new_link fs a b as g = Inr g' \<Longrightarrow> modules g' = modules g"
  by (auto simp: ref_new_link_def res_bind_eq_Inr modules_add_link split: list.splits)

lemmas modules_ref_leaf = modules_ref_rdma modules_ref_new_node modules_ref_new_link

lemma modules_ref:
  "ref_block n fs p b args g = Inr g' \<Longrightarrow> modules g' = modules g"
  "ref_insns n fs is g = Inr g' \<Longrightarrow> modules g' = modules g"
  "ref_insn n fs i g = Inr g' \<Longrightarrow> modules g' = modules g"
  "ref_loop n fs b ks g = Inr g' \<Longrightarrow> modules g' = modules g"
proof (induction n fs p b args g and n fs "is" g and n fs i g and n fs b ks g
    arbitrary: g' and g' and g' and g' rule: ref_induct)
  case (5 n fs i g)
  show ?case
  proof (cases i)
    case (SubmoduleInsn nm m vs)
    with "5.prems" obtain b xs where b: "dget (modules g) m = Some b"
      and xs: "res_map (env_eval fs) vs = Inr xs" and run: "ref_block n fs nm b xs g = Inr g'"
      by (auto simp: ref_insn.simps res_bind_eq_Inr split: option.splits)
    show ?thesis by (rule "5.IH"(1) [OF SubmoduleInsn b xs run])
  next
    case (IfInsn l op r b)
    with "5.prems" consider "g' = g" | x y where "\<not> (is_tuple l \<or> is_tuple r)"
        "env_eval fs l = Inr x" "env_eval fs r = Inr y" "cmp_apply op x y"
        "ref_block n fs [] b [] g = Inr g'"
      by (auto simp: ref_insn.simps res_bind_eq_Inr split: if_splits)
    then show ?thesis by cases (simp, rule "5.IH"(2) [OF IfInsn])
  next
    case (LoopInsn it s e b)
    with "5.prems" obtain x y where "env_eval fs s = Inr x" "env_eval fs e = Inr y"
        "ref_loop n fs b [x..y] g = Inr g'"
      by (auto simp: ref_insn.simps res_bind_eq_Inr)
    then show ?thesis by (rule "5.IH"(3) [OF LoopInsn])
  qed (use "5.prems" in \<open>auto simp: ref_insn.simps dest: modules_ref_leaf\<close>)
next
  case (4 n fs i "is" g)
  from "4.prems" obtain g1 where i: "ref_insn n fs i g = Inr g1" and rest: "ref_insns n fs is g1 = Inr g'"
    by (auto simp: res_bind_eq_Inr)
  from "4.IH"(2) [OF i rest] "4.IH"(1) [OF i] show ?case by simp
next
  case (7 n fs b k ks g)
  from "7.prems" obtain g1 where k: "ref_block n fs [] b [k] g = Inr g1" and rest: "ref_loop n fs b ks g1 = Inr g'"
    by (auto simp: res_bind_eq_Inr)
  from "7.IH"(2) [OF k rest] "7.IH"(1) [OF k] show ?case by simp
qed (simp_all split: if_splits)

lemma ref_fuel_enough:
  "wf_prog sh (modules g) \<Longrightarrow> wf_block sh (modules g) b \<Longrightarrow> sh_rank sh (block_id b) < n
     \<Longrightarrow> ref_block n fs p b args g \<noteq> Inl RecursionError"
  "wf_prog sh (modules g) \<Longrightarrow> \<forall>x \<in> set is. wf_insn sh (modules g) i x \<Longrightarrow> sh_rank sh i \<le> n
     \<Longrightarrow> ref_insns n fs is g \<noteq> Inl RecursionError"
  "wf_prog sh (modules g) \<Longrightarrow> wf_insn sh (modules g) i x \<Longrightarrow> sh_rank sh i \<le> n
     \<Longrightarrow> ref_insn n fs x g \<noteq> Inl RecursionError"
  "wf_prog sh (modules g) \<Longrightarrow> wf_block sh (modules g) b \<Longrightarrow> sh_rank sh (block_id b) < n
     \<Longrightarrow> ref_loop n fs b ks g \<noteq> Inl RecursionError"
proof (induction n fs p b args g and n fs "is" g and n fs x g and n fs b ks g
    arbitrary: and i and i and rule: ref_induct)
  case (2 n fs p b args g)
  show ?case
  proof (cases "length args = length (block_params b)")
    case True
    then show ?thesis
      using "2.IH" [of "block_id b"] "2.prems" by (simp add: wf_block_iff)
  qed simp
next
  case (4 n fs x "is" g)
  have "ref_insns n fs is g' \<noteq> Inl RecursionError" if "ref_insn n fs x g = Inr g'" for g'
    using "4.IH"(2) [OF that, of i] "4.prems" modules_ref(3) [OF that] by simp
  moreover have "ref_insn n fs x g \<noteq> Inl RecursionError"
    using "4.IH"(1) [of i] "4.prems" by simp
  ultimately show ?case by (auto simp: res_bind_eq_Inl)
next
  case (5 n fs x g)
  show ?case
  proof (cases x)
    case (SubmoduleInsn nm m vs)
    show ?thesis
    proof (cases "dget (modules g) m")
      case (Some b)
      with "5.prems" SubmoduleInsn have "wf_block sh (modules g) b" "sh_rank sh (block_id b) < n"
        by (auto dest: wf_prog_get)
      with "5.IH" "5.prems" SubmoduleInsn Some show ?thesis
        by (auto simp: ref_insn.simps res_bind_eq_Inl not_rec)
    qed (simp add: SubmoduleInsn ref_insn.simps)
  next
    case (IfInsn l op r b)
    with "5.prems" "5.IH" show ?thesis
      by (auto simp: ref_insn.simps res_bind_eq_Inl not_rec split: if_splits)
  next
    case (LoopInsn it s e b)
    with "5.prems" "5.IH" show ?thesis
      by (auto simp: ref_insn.simps res_bind_eq_Inl not_rec)
  qed (simp_all add: ref_insn.simps not_rec)
next
  case (7 n fs b k ks g)
  have "ref_loop n fs b ks g' \<noteq> Inl RecursionError" if "ref_block n fs [] b [k] g = Inr g'" for g'
    using "7.IH"(2) [OF that] "7.prems" modules_ref(1) [OF that] by simp
  with "7.IH"(1) "7.prems" show ?case by (auto simp: res_bind_eq_Inl)
qed simp_all

section \<open>What a run may change in the store\<close>

definition same_above :: "shape \<Rightarrow> nat \<Rightarrow> scopes \<Rightarrow> scopes \<Rightarrow> bool" where
  "same_above sh k h h' \<longleftrightarrow> (\<forall>j. k \<le> sh_rank sh j \<longrightarrow> h' j = h j)"

text \<open>Bindings are for the block's own parameters, and loop and conditional bodies have no prefix.\<close>

definition tidy :: "shape \<Rightarrow> scopes \<Rightarrow> bool" where
  "tidy sh h \<longleftrightarrow>
     (\<forall>j. set (dkeys (sc_vals (h j))) \<subseteq> set (sh_params sh j) \<and> (sh_inner sh j \<longrightarrow> sc_prefix (h j) = []))"

lemma same_above_refl [simp]: "same_above sh k h h"
  by (simp add: same_above_def)

lemma same_above_trans: "same_above sh k h h' \<Longrightarrow> same_above sh k h' h'' \<Longrightarrow> same_above sh k h h''"
  by (simp add: same_above_def)

lemma same_above_mono: "same_above sh k h h' \<Longrightarrow> k \<le> k' \<Longrightarrow> same_above sh k' h h'"
  by (simp add: same_above_def)

lemma tidy_init [simp]: "tidy sh (\<lambda>_. new_scope)"
  by (simp add: tidy_def new_scope_def)

lemma tidy_set_parent [simp]: "tidy sh (set_parent b p h) = tidy sh h"
  by (auto simp: tidy_def set_parent_def)

lemma tidy_set_prefix: "tidy sh h \<Longrightarrow> \<not> sh_inner sh b \<Longrightarrow> tidy sh (set_node_name_prefix b p h)"
  by (simp add: tidy_def set_node_name_prefix_def)

lemma same_above_set_parent: "sh_rank sh b < k \<Longrightarrow> same_above sh k h (set_parent b p h)"
  by (auto simp: same_above_def set_parent_def)

lemma same_above_enter:
  "sh_rank sh b < k \<Longrightarrow> same_above sh k h (set_node_name_prefix b nm (set_parent b p h))"
  by (auto simp: same_above_def set_parent_def set_node_name_prefix_def)

lemma fold_set_vals:
  "fold (\<lambda>(p, a). set_name_to_val b p a) ps h =
     h(b := (h b)\<lparr>sc_vals := fold (\<lambda>(p, a). dset p a) ps (sc_vals (h b))\<rparr>)"
proof (induction ps arbitrary: h)
  case (Cons pa ps)
  obtain a c where pa: "pa = (a, c)" by fastforce
  show ?case by (rule ext) (simp add: pa Cons.IH, simp add: set_name_to_val_def)
qed simp

lemma scopes_bind_params:
  "scopes (bind_params b ps args g) =
     (scopes g)(b := (scopes g b)\<lparr>sc_vals := fold (\<lambda>(p, a). dset p a) (zip ps args) (sc_vals (scopes g b))\<rparr>)"
  by (simp add: bind_params_def fold_set_vals)

lemma set_dkeys_fold_dset:
  "set (dkeys (fold (\<lambda>(p, a). dset p a) ps d)) \<subseteq> set (dkeys d) \<union> set (map fst ps)"
proof (induction ps arbitrary: d)
  case (Cons pa ps)
  obtain p a where pa: "pa = (p, a)" by fastforce
  show ?case using Cons.IH [of "dset p a d"] by (auto simp: pa)
qed simp

lemma tidy_bind_params:
  assumes "tidy sh (scopes g)"
  shows "tidy sh (scopes (bind_params b (sh_params sh b) args g))"
proof -
  have "set (dkeys (fold (\<lambda>(p, a). dset p a) (zip (sh_params sh b) args) (sc_vals (scopes g b))))
      \<subseteq> set (sh_params sh b)"
    using set_dkeys_fold_dset [of "zip (sh_params sh b) args" "sc_vals (scopes g b)"] assms
    by (force simp: tidy_def dest: set_zip_leftD)
  with assms show ?thesis by (simp add: tidy_def scopes_bind_params)
qed

lemma same_above_bind_params:
  "sh_rank sh b < k \<Longrightarrow> same_above sh k (scopes g) (scopes (bind_params b ps args g))"
  by (auto simp: same_above_def scopes_bind_params)

lemma scopes_add_node: "add_node name ty g = Inr g' \<Longrightarrow> scopes g' = scopes g"
  by (elim add_node_cases) auto

lemma scopes_add_link: "add_link a b as g = Inr g' \<Longrightarrow> scopes g' = scopes g"
  by (elim add_link_InrE) (auto simp: link_state_def intern_helper_def split: option.split)

lemma scopes_leaf:
  "GenNewNode d i nm ty g = Inr g' \<Longrightarrow> scopes g' = scopes g"
  "GenNewLink d i a b as g = Inr g' \<Longrightarrow> scopes g' = scopes g"
  by (cases d; auto simp: res_bind_eq_Inr scopes_add_node scopes_add_link split: list.splits if_splits)+

lemma scopes_set_rdma: "set_rdma d i as g = Inr g' \<Longrightarrow> scopes g' = scopes g"
  by (induction d i as g rule: set_rdma.induct) (auto simp: res_bind_eq_Inr)

lemma scopes_GenRdmaConfig: "GenRdmaConfig d i as g = Inr g' \<Longrightarrow> scopes g' = scopes g"
  by (cases d) (auto simp: scopes_set_rdma)

definition kept :: "shape \<Rightarrow> nat \<Rightarrow> gen \<Rightarrow> gen \<Rightarrow> bool" where
  "kept sh k g g' \<longleftrightarrow>
     tidy sh (scopes g') \<and> same_above sh k (scopes g) (scopes g') \<and> modules g' = modules g"

lemma kept_trans: "kept sh k g g' \<Longrightarrow> kept sh k g' g'' \<Longrightarrow> kept sh k g g''"
  by (auto simp: kept_def intro: same_above_trans)

lemma kept_mono: "kept sh k g g' \<Longrightarrow> k \<le> k' \<Longrightarrow> kept sh k' g g'"
  by (auto simp: kept_def intro: same_above_mono)

text \<open>A run of a block changes scopes of blocks of at most its own rank, and keeps the store tidy.\<close>

lemma run_kept:
  "GenerateModule d b args g = Inr g' \<Longrightarrow> wf_prog sh (modules g) \<Longrightarrow> tidy sh (scopes g)
     \<Longrightarrow> wf_block sh (modules g) b \<Longrightarrow> kept sh (Suc (sh_rank sh (block_id b))) g g'"
  "run_insns d i is g = Inr g' \<Longrightarrow> wf_prog sh (modules g) \<Longrightarrow> tidy sh (scopes g)
     \<Longrightarrow> \<forall>x \<in> set is. wf_insn sh (modules g) i x \<Longrightarrow> kept sh (sh_rank sh i) g g'"
  "GenerateInsn d i x g = Inr g' \<Longrightarrow> wf_prog sh (modules g) \<Longrightarrow> tidy sh (scopes g)
     \<Longrightarrow> wf_insn sh (modules g) i x \<Longrightarrow> kept sh (sh_rank sh i) g g'"
  "GenSubmodule d i nm m vs g = Inr g' \<Longrightarrow> wf_prog sh (modules g) \<Longrightarrow> tidy sh (scopes g)
     \<Longrightarrow> wf_insn sh (modules g) i (SubmoduleInsn nm m vs) \<Longrightarrow> kept sh (sh_rank sh i) g g'"
  "GenIf d i l op r b g = Inr g' \<Longrightarrow> wf_prog sh (modules g) \<Longrightarrow> tidy sh (scopes g)
     \<Longrightarrow> wf_insn sh (modules g) i (IfInsn l op r b) \<Longrightarrow> kept sh (sh_rank sh i) g g'"
  "GenLoop d i s e b g = Inr g' \<Longrightarrow> wf_prog sh (modules g) \<Longrightarrow> tidy sh (scopes g)
     \<Longrightarrow> wf_insn sh (modules g) i (LoopInsn it s e b) \<Longrightarrow> kept sh (sh_rank sh i) g g'"
  "run_loop d b ns g = Inr g' \<Longrightarrow> wf_prog sh (modules g) \<Longrightarrow> tidy sh (scopes g)
     \<Longrightarrow> wf_block sh (modules g) b \<Longrightarrow> kept sh (Suc (sh_rank sh (block_id b))) g g'"
proof (induction d b args g and d i "is" g and d i x g and d i nm m vs g
    and d i l op r b g and d i s e b g and d b ns g
    arbitrary: g' and g' and g' and g' and g' and g' it and g' rule: GenerateModule_induct)
  case (2 d b args g)
  let ?g1 = "bind_params (block_id b) (block_params b) args g"
  have 1: "kept sh (Suc (sh_rank sh (block_id b))) g ?g1"
    using "2.prems" tidy_bind_params [of sh g "block_id b" args]
    by (simp add: kept_def same_above_bind_params wf_block_iff) (simp add: bind_params_def)
  have "kept sh (sh_rank sh (block_id b)) ?g1 g'"
    using "2.prems" 1 "2.IH" [of g'] by (simp add: kept_def wf_block_iff split: if_splits)
  then have "kept sh (Suc (sh_rank sh (block_id b))) ?g1 g'" by (rule kept_mono) simp
  with 1 show ?case by (rule kept_trans)
next
  case (4 d i x "is" g)
  from "4.prems"(1) obtain g1 where x: "GenerateInsn d i x g = Inr g1"
    and rest: "run_insns d i is g1 = Inr g'"
    by (auto simp: res_bind_eq_Inr)
  have 1: "kept sh (sh_rank sh i) g g1" using "4.IH"(1) [OF x] "4.prems" by simp
  have "kept sh (sh_rank sh i) g1 g'"
    using "4.IH"(2) [OF x rest] "4.prems" 1 by (simp add: kept_def)
  with 1 show ?case by (rule kept_trans)
next
  case (6 d i x g)
  then show ?case
    by (cases x) (auto simp: kept_def dest: scopes_leaf scopes_GenRdmaConfig
        same_modules.R_GenNewNode same_modules.R_GenNewLink same_modules.R_GenRdmaConfig)
next
  case (8 d i nm m vs g)
  let ?g1 = "\<lambda>b. g\<lparr>scopes := set_node_name_prefix (block_id b) nm (set_parent (block_id b) i (scopes g))\<rparr>"
  from "8.prems"(1) obtain b xs where b: "dget (modules g) m = Some b"
    and xs: "res_map (expr_resolve d (scopes (?g1 b)) i) vs = Inr xs"
    and run: "GenerateModule d b xs (?g1 b) = Inr g'"
    by (auto simp: res_bind_eq_Inr Let_def split: option.splits)
  from b "8.prems" have wf: "wf_block sh (modules g) b" "\<not> sh_inner sh (block_id b)"
    and rank: "sh_rank sh (block_id b) < sh_rank sh i"
    by (auto dest: wf_prog_get)
  have 1: "kept sh (sh_rank sh i) g (?g1 b)"
    using "8.prems" wf rank by (simp add: kept_def tidy_set_prefix same_above_enter)
  have "kept sh (Suc (sh_rank sh (block_id b))) (?g1 b) g'"
    using "8.IH" [OF b refl xs run] "8.prems" 1 wf by (simp add: kept_def)
  then have "kept sh (sh_rank sh i) (?g1 b) g'" using rank by (rule kept_mono [OF _ Suc_leI])
  with 1 show ?case by (rule kept_trans)
next
  case (10 d i l op r b g)
  let ?g1 = "g\<lparr>scopes := set_parent (block_id b) i (scopes g)\<rparr>"
  from "10.prems"(1) consider "g' = g" | x y where "\<not> (is_tuple l \<or> is_tuple r)"
      "expr_resolve d (scopes g) i l = Inr x" "expr_resolve d (scopes g) i r = Inr y"
      "\<not> \<not> cmp_apply op x y" "GenerateModule d b [] ?g1 = Inr g'"
    by (auto simp: res_bind_eq_Inr split: if_splits)
  then show ?case
  proof cases
    case 1
    with "10.prems" show ?thesis by (simp add: kept_def)
  next
    case (2 x y)
    have 1: "kept sh (sh_rank sh i) g ?g1"
      using "10.prems" by (simp add: kept_def same_above_set_parent)
    have "kept sh (Suc (sh_rank sh (block_id b))) ?g1 g'"
      using "10.IH" [OF 2] "10.prems" by simp
    then have "kept sh (sh_rank sh i) ?g1 g'"
      using "10.prems" by (auto elim: kept_mono)
    with 1 show ?thesis by (rule kept_trans)
  qed
next
  case (12 d i s e b g)
  let ?g1 = "g\<lparr>scopes := set_parent (block_id b) i (scopes g)\<rparr>"
  from "12.prems"(1) obtain x y where xy: "expr_resolve d (scopes g) i s = Inr x"
      "expr_resolve d (scopes g) i e = Inr y" and run: "run_loop d b [x..y] ?g1 = Inr g'"
    by (auto simp: res_bind_eq_Inr)
  have 1: "kept sh (sh_rank sh i) g ?g1"
    using "12.prems" by (simp add: kept_def same_above_set_parent)
  have "kept sh (Suc (sh_rank sh (block_id b))) ?g1 g'"
    using "12.IH" [OF xy run] "12.prems" by simp
  then have "kept sh (sh_rank sh i) ?g1 g'"
    using "12.prems" by (auto elim: kept_mono)
  with 1 show ?case by (rule kept_trans)
next
  case (14 d b k ks g)
  from "14.prems"(1) obtain g1 where k: "GenerateModule d b [k] g = Inr g1"
    and rest: "run_loop d b ks g1 = Inr g'"
    by (auto simp: res_bind_eq_Inr)
  have 1: "kept sh (Suc (sh_rank sh (block_id b))) g g1" using "14.IH"(1) [OF k] "14.prems" by simp
  have "kept sh (Suc (sh_rank sh (block_id b))) g1 g'"
    using "14.IH"(2) [OF k rest] "14.prems" 1 by (simp add: kept_def)
  with 1 show ?case by (rule kept_trans)
qed (simp_all add: kept_def)

section \<open>The generator computes the reference semantics\<close>

text \<open>
  The environment of a block whose parents have strictly increasing ranks: the frames above it
  survive whatever the blocks entered from it do to the store.
\<close>

fun rchain :: "shape \<Rightarrow> scopes \<Rightarrow> nat \<Rightarrow> frame list \<Rightarrow> bool" where
  "rchain sh h i [] \<longleftrightarrow> False"
| "rchain sh h i (f # fs) \<longleftrightarrow>
     f = (dget (sc_vals (h i)), sc_prefix (h i)) \<and>
     (if fs = [] then sc_parent (h i) = None
      else \<exists>p. sc_parent (h i) = Some p \<and> sh_rank sh i < sh_rank sh p \<and> rchain sh h p fs)"

definition entered :: "shape \<Rightarrow> scopes \<Rightarrow> nat \<Rightarrow> frame list \<Rightarrow> bool" where
  "entered sh h i fs \<longleftrightarrow>
     (if fs = [] then sc_parent (h i) = None
      else \<exists>p. sc_parent (h i) = Some p \<and> sh_rank sh i < sh_rank sh p \<and> rchain sh h p fs)"

lemma rchain_Cons:
  "rchain sh h i (f # fs) \<longleftrightarrow> f = (dget (sc_vals (h i)), sc_prefix (h i)) \<and> entered sh h i fs"
  by (simp add: entered_def)

declare rchain.simps(2) [simp del]

lemma rchain_chain: "rchain sh h i fs \<Longrightarrow> chain h i fs"
proof (induction fs arbitrary: i)
  case (Cons f fs)
  then show ?case by (cases fs) (auto simp: rchain_Cons entered_def chain_simps)
qed simp

lemma rchain_same_above:
  "rchain sh h i fs \<Longrightarrow> same_above sh (sh_rank sh i) h h' \<Longrightarrow> rchain sh h' i fs"
proof (induction fs arbitrary: i)
  case (Cons f fs)
  have same: "h' i = h i" using Cons.prems(2) by (simp add: same_above_def)
  have "rchain sh h' p fs" if "rchain sh h p fs" "sh_rank sh i < sh_rank sh p" for p
    using Cons.IH [OF that(1)] same_above_mono [OF Cons.prems(2)] that(2) by simp
  with Cons.prems(1) same show ?case by (auto simp: rchain_Cons entered_def)
qed simp

lemma entered_same_above:
  assumes "entered sh h i fs" and "same_above sh (Suc (sh_rank sh i)) h h'"
    and "sc_parent (h' i) = sc_parent (h i)"
  shows "entered sh h' i fs"
proof -
  have "rchain sh h' p fs" if "rchain sh h p fs" "sh_rank sh i < sh_rank sh p" for p
    using rchain_same_above [OF that(1)] same_above_mono [OF assms(2)] that(2) by simp
  with assms(1,3) show ?thesis by (auto simp: entered_def)
qed

lemma entered_set_parent:
  assumes "rchain sh h i fs" and "sh_rank sh j < sh_rank sh i"
  shows "entered sh (set_parent j i h) j fs"
    and "entered sh (set_node_name_prefix j nm (set_parent j i h)) j fs"
proof -
  have "fs \<noteq> []" using assms(1) by auto
  moreover have "rchain sh (set_parent j i h) i fs"
    using assms same_above_set_parent by (blast intro: rchain_same_above)
  moreover have "rchain sh (set_node_name_prefix j nm (set_parent j i h)) i fs"
    using assms same_above_enter by (blast intro: rchain_same_above)
  ultimately show "entered sh (set_parent j i h) j fs"
    and "entered sh (set_node_name_prefix j nm (set_parent j i h)) j fs"
    using assms(2) by (auto simp: entered_def set_parent_def set_node_name_prefix_def)
qed

lemma module_keeps_parent:
  assumes "GenerateModule d b args g = Inr g'" and "wf_prog sh (modules g)" and "tidy sh (scopes g)"
    and "wf_block sh (modules g) b"
  shows "sc_parent (scopes g' (block_id b)) = sc_parent (scopes g (block_id b))"
proof -
  let ?g1 = "bind_params (block_id b) (block_params b) args g"
  from assms(1) obtain d' where "run_insns d' (block_id b) (block_insns b) ?g1 = Inr g'"
    by (cases d) (auto split: if_splits)
  then have "kept sh (sh_rank sh (block_id b)) ?g1 g'"
    by (rule run_kept(2)) (use assms tidy_bind_params [of sh g "block_id b" args] in
        \<open>simp_all add: wf_block_iff, simp_all add: bind_params_def\<close>)
  then show ?thesis by (simp add: kept_def same_above_def scopes_bind_params)
qed

text \<open>Binding the parameters leaves exactly the bindings of this entry.\<close>

lemma dget_bound:
  assumes "set (dkeys d) \<subseteq> set ps" and "length args = length ps"
  shows "dget (fold (\<lambda>(p, a). dset p a) (zip ps args) d) = dget (rev (zip ps args))"
proof
  fix k
  have "dget (fold (\<lambda>(p, a). dset p a) zs d) k
      = (case dget (rev zs) k of Some v \<Rightarrow> Some v | None \<Rightarrow> dget d k)" for zs
    by (induction zs arbitrary: d) (auto simp: dget_dset map_of_append map_add_def split: option.split)
  moreover have "dget d k = None" if "dget (rev (zip ps args)) k = None"
  proof -
    have "k \<notin> set ps"
      using that assms(2) by (simp add: map_of_eq_None_iff flip: set_map)
    with assms(1) show ?thesis by (auto simp: dget_None_iff)
  qed
  ultimately show "dget (fold (\<lambda>(p, a). dset p a) (zip ps args) d) k = dget (rev (zip ps args)) k"
    by (auto split: option.split)
qed

lemma rchain_bind_params:
  assumes "entered sh (scopes g) i fs" and "tidy sh (scopes g)" and "ps = sh_params sh i"
    and "length args = length ps"
  shows "rchain sh (scopes (bind_params i ps args g)) i
           ((dget (rev (zip ps args)), sc_prefix (scopes g i)) # fs)"
proof -
  have "entered sh (scopes (bind_params i ps args g)) i fs"
    by (rule entered_same_above [OF assms(1) same_above_bind_params]) (simp_all add: scopes_bind_params)
  moreover have "set (dkeys (sc_vals (scopes g i))) \<subseteq> set ps"
    using assms(2,3) by (simp add: tidy_def)
  ultimately show ?thesis
    using assms(4) by (simp add: rchain_Cons scopes_bind_params dget_bound)
qed

text \<open>The reference semantics does not use the store; \<open>agrees\<close> compares results up to it.\<close>

definition strip :: "gen \<Rightarrow> gen" where
  "strip g = g\<lparr>scopes := (\<lambda>_. new_scope)\<rparr>"

definition agrees :: "py_error + gen \<Rightarrow> py_error + gen \<Rightarrow> bool" where
  "agrees r r' \<longleftrightarrow> map_sum id strip r = r'"

lemma agrees_simps [simp]:
  "agrees (Inl e) r \<longleftrightarrow> r = Inl e"
  "agrees (Inr g) r \<longleftrightarrow> r = Inr (strip g)"
  by (auto simp: agrees_def)

lemma agrees_bind:
  assumes "agrees r r'" and "\<And>g. r = Inr g \<Longrightarrow> agrees (f g) (f' (strip g))"
  shows "agrees (res_bind r f) (res_bind r' f')"
  using assms by (cases r) auto

lemma agrees_bind_same:
  "(\<And>x. r = Inr x \<Longrightarrow> agrees (f x) (f' x)) \<Longrightarrow> agrees (res_bind r f) (res_bind r f')"
  by (cases r) auto

lemma strip_simps [simp]:
  "modules (strip g) = modules g" "strip (g\<lparr>scopes := h\<rparr>) = strip g"
  "strip (bind_params b ps args g) = strip g" "strip (init_gen ms) = init_gen ms"
  "rdma_attrs (strip g) = rdma_attrs g"
  by (simp_all add: strip_def bind_params_def init_gen_def)

lemma strip_rdma [simp]: "strip (g\<lparr>rdma_attrs := a\<rparr>) = (strip g)\<lparr>rdma_attrs := a\<rparr>"
  by (cases g) (simp add: strip_def)

lemma strip_add_node: "agrees (add_node name ty g) (add_node name ty (strip g))"
  by (simp add: add_node_def strip_def)

lemma strip_add_link: "agrees (add_link a b as g) (add_link a b as (strip g))"
proof -
  have "link_type (strip g) a b = link_type g a b" "link_mtu (strip g) as ty = link_mtu g as ty" for ty
    by (auto simp: link_type_def link_mtu_def strip_def split: option.split)
  moreover have "intern_helper attr (strip g) = strip (intern_helper attr g)" for attr
    by (simp add: intern_helper_def strip_def split: option.split)
  ultimately show ?thesis
    by (simp add: add_link_def Let_def split: option.split) (simp add: strip_def)
qed

lemma strip_finish_gen: "strip (finish_gen g) = finish_gen (strip g)"
  by (simp add: finish_gen_def strip_def Let_def)

text \<open>The leaves: with enough stack, each reads the store as its environment.\<close>

lemma agrees_GenNewNode:
  assumes "chain (scopes g) i fs" and "length fs + 3 < d"
  shows "agrees (GenNewNode d i nm ty g) (ref_new_node fs nm ty (strip g))"
proof -
  from assms(2) obtain d' where d: "d = Suc d'" "length fs + 2 < d'" by (cases d) auto
  with prefix_chain [OF assms(1)] resolve_chain [OF assms(1)] show ?thesis
    by (auto simp: ref_new_node_def join_prefix_def strip_add_node intro!: agrees_bind_same)
qed

lemma append_parts_chain:
  "chain h i fs \<Longrightarrow> length fs + 1 < d \<Longrightarrow> append_parts d h i acc ps = ref_path fs acc ps"
  by (induction ps arbitrary: acc) (simp_all add: resolve_chain)

lemma agrees_GenNewLink:
  assumes "chain (scopes g) i fs" and "length fs + 3 < d"
  shows "agrees (GenNewLink d i a b as g) (ref_new_link fs a b as (strip g))"
proof -
  from assms(2) obtain d' where d: "d = Suc d'" "length fs + 2 < d'" by (cases d) auto
  with prefix_chain [OF assms(1)] resolve_chain [OF assms(1)] append_parts_chain [OF assms(1)]
  show ?thesis
    by (auto simp: ref_new_link_def join_prefix_def strip_add_link split: list.split
        intro!: agrees_bind_same)
qed

lemma agrees_set_rdma:
  assumes "\<forall>v \<in> set (map snd as). vdepth v \<le> k" and "length fs + 3 + k < d"
  shows "chain (scopes g) i fs \<Longrightarrow> agrees (set_rdma d i as g) (ref_rdma fs as (strip g))"
  using assms(1)
proof (induction as arbitrary: g)
  case (Cons kv as)
  obtain x v where kv: "kv = (x, v)" by fastforce
  have "expr_resolve d (scopes g) i v = env_eval fs v"
    by (rule resolve_expr_chain) (use Cons.prems assms(2) kv in auto)
  moreover have "agrees (set_rdma d i as (g\<lparr>rdma_attrs := dset x n (rdma_attrs g)\<rparr>))
      (ref_rdma fs as ((strip g)\<lparr>rdma_attrs := dset x n (rdma_attrs (strip g))\<rparr>))" for n
    using Cons.IH [of "g\<lparr>rdma_attrs := dset x n (rdma_attrs g)\<rparr>"] Cons.prems by simp
  ultimately show ?case by (simp add: kv agrees_bind_same)
qed simp

lemma res_map_chain:
  assumes "chain h i fs" and "\<forall>v \<in> set vs. vdepth v \<le> k" and "length fs + 3 + k < d"
  shows "res_map (expr_resolve d h i) vs = res_map (env_eval fs) vs"
  using assms(2)
proof (induction vs)
  case (Cons v vs)
  with resolve_expr_chain [OF assms(1), of v d] assms(3) show ?case by simp
qed simp

definition holds_env :: "shape \<Rightarrow> nat \<Rightarrow> frame list \<Rightarrow> gen \<Rightarrow> bool" where
  "holds_env sh i fs g \<longleftrightarrow>
     wf_prog sh (modules g) \<and> tidy sh (scopes g) \<and> rchain sh (scopes g) i fs"

lemma holds_env_kept: "holds_env sh i fs g \<Longrightarrow> kept sh (sh_rank sh i) g g' \<Longrightarrow> holds_env sh i fs g'"
  by (auto simp: holds_env_def kept_def intro: rchain_same_above)

lemma run_agrees:
  "wf_prog sh (modules g) \<Longrightarrow> tidy sh (scopes g) \<Longrightarrow> wf_block sh (modules g) b
     \<Longrightarrow> entered sh (scopes g) (block_id b) fs \<Longrightarrow> sh_rank sh (block_id b) < n
     \<Longrightarrow> 4 * n + length fs + sh_height sh + 4 \<le> d
     \<Longrightarrow> agrees (GenerateModule d b args g)
           (ref_block n fs (sc_prefix (scopes g (block_id b))) b args (strip g))"
  "holds_env sh i fs g \<Longrightarrow> \<forall>x \<in> set is. wf_insn sh (modules g) i x \<Longrightarrow> sh_rank sh i \<le> n
     \<Longrightarrow> 4 * n + length fs + sh_height sh + 6 \<le> d
     \<Longrightarrow> agrees (run_insns d i is g) (ref_insns n fs is (strip g))"
  "holds_env sh i fs g \<Longrightarrow> wf_insn sh (modules g) i x \<Longrightarrow> sh_rank sh i \<le> n
     \<Longrightarrow> 4 * n + length fs + sh_height sh + 6 \<le> d
     \<Longrightarrow> agrees (GenerateInsn d i x g) (ref_insn n fs x (strip g))"
  "holds_env sh i fs g \<Longrightarrow> wf_insn sh (modules g) i (SubmoduleInsn nm m vs) \<Longrightarrow> sh_rank sh i \<le> n
     \<Longrightarrow> 4 * n + length fs + sh_height sh + 5 \<le> d
     \<Longrightarrow> agrees (GenSubmodule d i nm m vs g) (ref_insn n fs (SubmoduleInsn nm m vs) (strip g))"
  "holds_env sh i fs g \<Longrightarrow> wf_insn sh (modules g) i (IfInsn l op r b) \<Longrightarrow> sh_rank sh i \<le> n
     \<Longrightarrow> 4 * n + length fs + sh_height sh + 5 \<le> d
     \<Longrightarrow> agrees (GenIf d i l op r b g) (ref_insn n fs (IfInsn l op r b) (strip g))"
  "holds_env sh i fs g \<Longrightarrow> wf_insn sh (modules g) i (LoopInsn it s e b) \<Longrightarrow> sh_rank sh i \<le> n
     \<Longrightarrow> 4 * n + length fs + sh_height sh + 5 \<le> d
     \<Longrightarrow> agrees (GenLoop d i s e b g) (ref_insn n fs (LoopInsn it s e b) (strip g))"
  "wf_prog sh (modules g) \<Longrightarrow> tidy sh (scopes g) \<Longrightarrow> wf_block sh (modules g) b
     \<Longrightarrow> sh_inner sh (block_id b)
     \<Longrightarrow> entered sh (scopes g) (block_id b) fs \<Longrightarrow> sh_rank sh (block_id b) < n
     \<Longrightarrow> 4 * n + length fs + sh_height sh + 4 \<le> d
     \<Longrightarrow> agrees (run_loop d b ks g) (ref_loop n fs b ks (strip g))"
proof (induction d b args g and d i "is" g and d i x g and d i nm m vs g
    and d i l op r b g and d i s e b g and d b ks g
    arbitrary: n fs and n fs and n fs and n fs and n fs and n fs it and n fs
    rule: GenerateModule_induct)
  case (2 d b args g)
  let ?f = "(dget (rev (zip (block_params b) args)), sc_prefix (scopes g (block_id b)))"
  let ?g1 = "bind_params (block_id b) (block_params b) args g"
  from "2.prems"(5) obtain n' where n: "n = Suc n'" by (cases n) auto
  show ?case
  proof (cases "length args = length (block_params b)")
    case True
    have "holds_env sh (block_id b) (?f # fs) ?g1"
      using "2.prems" True rchain_bind_params [of sh g "block_id b" fs "block_params b" args]
        tidy_bind_params [of sh g "block_id b" args]
      by (simp add: holds_env_def wf_block_iff) (simp add: bind_params_def)
    then have "agrees (run_insns d (block_id b) (block_insns b) ?g1)
        (ref_insns n' (?f # fs) (block_insns b) (strip ?g1))"
      using "2.IH" [of "?f # fs" n'] "2.prems" True n
      by (simp add: wf_block_iff) (simp add: bind_params_def)
    with True n show ?thesis by simp
  qed (simp add: n)
next
  case (4 d i x "is" g)
  have 1: "agrees (GenerateInsn d i x g) (ref_insn n fs x (strip g))"
    using "4.IH"(1) "4.prems" by simp
  have "agrees (run_insns d i is g1) (ref_insns n fs is (strip g1))"
    if x: "GenerateInsn d i x g = Inr g1" for g1
  proof -
    have k: "kept sh (sh_rank sh i) g g1"
      using run_kept(3) [OF x] "4.prems" by (simp add: holds_env_def)
    from holds_env_kept [OF "4.prems"(1) k] k "4.IH"(2) [OF x] "4.prems" show ?thesis
      by (simp add: kept_def)
  qed
  with 1 show ?case by (simp add: agrees_bind)
next
  case (6 d i x g)
  from "6.prems"(1) have ch: "chain (scopes g) i fs" by (auto simp: holds_env_def intro: rchain_chain)
  show ?case
  proof (cases x)
    case (RdmaConfigInsn as)
    from "6.prems"(4) obtain d' where d: "d = Suc d'" "length fs + 3 + sh_height sh < d'"
      by (cases d) auto
    with RdmaConfigInsn "6.prems"(2) agrees_set_rdma [OF _ d(2) ch, of as] show ?thesis
      by (simp add: ref_insn.simps)
  qed (use 6 ch in \<open>simp_all add: ref_insn.simps agrees_GenNewNode agrees_GenNewLink\<close>)
next
  case (8 d i nm m vs g)
  let ?g1 = "\<lambda>b. g\<lparr>scopes := set_node_name_prefix (block_id b) nm (set_parent (block_id b) i (scopes g))\<rparr>"
  show ?case
  proof (cases "dget (modules g) m")
    case None
    then show ?thesis by (simp add: ref_insn.simps)
  next
    case (Some b)
    from Some "8.prems" have wf: "wf_block sh (modules g) b" "\<not> sh_inner sh (block_id b)"
      and rank: "sh_rank sh (block_id b) < sh_rank sh i" and rch: "rchain sh (scopes g) i fs"
      by (auto simp: holds_env_def dest: wf_prog_get)
    have "chain (scopes (?g1 b)) i fs"
      using rch rank same_above_enter by (auto intro!: rchain_chain intro: rchain_same_above)
    then have args: "res_map (expr_resolve d (scopes (?g1 b)) i) vs = res_map (env_eval fs) vs"
      by (rule res_map_chain) (use "8.prems" in auto)
    have "agrees (GenerateModule d b xs (?g1 b)) (ref_block n fs nm b xs (strip g))"
      if "res_map (expr_resolve d (scopes (?g1 b)) i) vs = Inr xs" for xs
      using "8.IH" [OF Some refl that, of fs n] "8.prems" wf rank entered_set_parent(2) [OF rch rank]
      by (simp add: holds_env_def tidy_set_prefix) (simp add: set_node_name_prefix_def)
    then show ?thesis
      by (auto simp: Some Let_def ref_insn.simps simp flip: args intro: agrees_bind_same)
  qed
next
  case (10 d i l op r b g)
  let ?g1 = "g\<lparr>scopes := set_parent (block_id b) i (scopes g)\<rparr>"
  from "10.prems" have rch: "rchain sh (scopes g) i fs" and rank: "sh_rank sh (block_id b) < sh_rank sh i"
    and ti: "tidy sh (scopes g)"
    by (simp_all add: holds_env_def)
  have vals: "expr_resolve d (scopes g) i l = env_eval fs l" "expr_resolve d (scopes g) i r = env_eval fs r"
    by (rule resolve_expr_chain [OF rchain_chain [OF rch]]; use "10.prems" in simp)+
  have px: "sc_prefix (scopes ?g1 (block_id b)) = []"
    using ti "10.prems" by (simp add: tidy_def set_parent_def)
  have "agrees (GenerateModule d b [] ?g1) (ref_block n fs [] b [] (strip g))"
    if "\<not> (is_tuple l \<or> is_tuple r)" "expr_resolve d (scopes g) i l = Inr x"
      "expr_resolve d (scopes g) i r = Inr y" "\<not> \<not> cmp_apply op x y" for x y
    using "10.IH" [OF that, of fs n] "10.prems" entered_set_parent(1) [OF rch rank] rank px
    by (simp add: holds_env_def)
  then show ?case
    by (auto simp: ref_insn.simps simp flip: vals intro!: agrees_bind_same)
next
  case (12 d i s e b g)
  let ?g1 = "g\<lparr>scopes := set_parent (block_id b) i (scopes g)\<rparr>"
  from "12.prems" have rch: "rchain sh (scopes g) i fs" and rank: "sh_rank sh (block_id b) < sh_rank sh i"
    by (simp_all add: holds_env_def)
  have vals: "expr_resolve d (scopes g) i s = env_eval fs s" "expr_resolve d (scopes g) i e = env_eval fs e"
    by (rule resolve_expr_chain [OF rchain_chain [OF rch]]; use "12.prems" in simp)+
  have "agrees (run_loop d b [x..y] ?g1) (ref_loop n fs b [x..y] (strip g))"
    if "expr_resolve d (scopes g) i s = Inr x" "expr_resolve d (scopes g) i e = Inr y" for x y
    using "12.IH" [OF that, of fs n] "12.prems" entered_set_parent(1) [OF rch rank] rank
    by (simp add: holds_env_def)
  then show ?case
    by (auto simp: ref_insn.simps simp flip: vals intro!: agrees_bind_same)
next
  case (14 d b k ks g)
  have px: "sc_prefix (scopes g (block_id b)) = []"
    using "14.prems" by (simp add: tidy_def)
  have 1: "agrees (GenerateModule d b [k] g) (ref_block n fs [] b [k] (strip g))"
    using "14.IH"(1) [of fs n] "14.prems" px by simp
  have "agrees (run_loop d b ks g1) (ref_loop n fs b ks (strip g1))"
    if k: "GenerateModule d b [k] g = Inr g1" for g1
  proof -
    have kept: "kept sh (Suc (sh_rank sh (block_id b))) g g1"
      using run_kept(1) [OF k] "14.prems" by simp
    then have "entered sh (scopes g1) (block_id b) fs"
      using entered_same_above "14.prems" module_keeps_parent [OF k] by (simp add: kept_def)
    with kept "14.IH"(2) [OF k] "14.prems" show ?thesis by (simp add: kept_def)
  qed
  with 1 show ?case by (simp add: agrees_bind)
qed (simp_all)

text \<open>An example: a module used twice with different arguments, a loop, a conditional and templates.\<close>

definition fabric_program :: "(string, block) dict" where
  "fabric_program =
     [(''pod'', Block 2 [''n''] [
         NewNodeInsn ''sw'' (VStr ''switch'') [],
         LoopInsn ''i'' (VInt 0) (VExpr 0 ''-'' (VStr ''n'') (VInt 1)) (Block 0 [''i''] [
           NewNodeInsn ''gpu{i}'' (VStr ''gpu'') [],
           NewLinkInsn [''gpu{i}''] [''sw''] [(''latency'', VStr ''1us''), (''bandwidth'', VStr ''100Gbps'')]]),
         IfInsn (VStr ''n'') OpGt (VInt 1) (Block 1 [] [NewNodeInsn ''nv'' (VStr ''nvswitch'') []])]),
      (''main'', Block 3 [] [
         SubmoduleInsn ''left'' ''pod'' [VInt 2],
         SubmoduleInsn ''right'' ''pod'' [VInt 1],
         RdmaConfigInsn [(''Mtu'', VInt 4000)],
         NewLinkInsn [''left'', ''sw''] [''right'', ''sw'']
           [(''latency'', VStr ''2us''), (''bandwidth'', VStr ''400Gbps'')]])]"

definition fabric_shape :: shape where
  "fabric_shape =
     \<lparr>sh_rank = id, sh_params = (\<lambda>i. if i = 0 then [''i''] else if i = 2 then [''n''] else []),
      sh_inner = (\<lambda>i. i < 2), sh_height = 2\<rparr>"

lemma fabric_wf: "wf_prog fabric_shape fabric_program"
  by (simp add: wf_prog_def fabric_shape_def fabric_program_def)

lemma Generate_agrees:
  assumes "wf_prog sh ms" and "dget ms ''main'' = Some b"
    and "sh_rank sh (block_id b) < n" and "4 * n + sh_height sh + 4 \<le> d"
  shows "map_sum id strip (Generate d ms) = ref_generate n ms"
proof -
  have "agrees (GenerateModule d b [] (init_gen ms))
      (ref_block n [] (sc_prefix (scopes (init_gen ms) (block_id b))) b [] (strip (init_gen ms)))"
    by (rule run_agrees(1) [of sh])
      (use assms in \<open>auto simp: init_gen_def entered_def new_scope_def tidy_def dest: wf_prog_get\<close>)
  then have "agrees (GenerateModule d b [] (init_gen ms)) (ref_block n [] [] b [] (init_gen ms))"
    by (simp only: strip_simps) (simp add: init_gen_def new_scope_def)
  then have "agrees (Generate d ms) (ref_generate n ms)"
    by (auto simp: Generate_def ref_generate_def assms(2) strip_finish_gen intro: agrees_bind)
  then show ?thesis by (simp add: agrees_def)
qed

text \<open>
  Refinement. For a program whose blocks only enter blocks of smaller rank, the generator with
  its shared, mutated scope objects and bounded stack computes, at every depth above an explicit bound,
  the reference semantics in which a block runs in an immutable stack of frames: the same result,
  errors included, up to the contents of the scope store.
\<close>

theorem Generate_refines:
  assumes "wf_prog sh ms" and "dget ms ''main'' = Some b"
    and "4 * sh_rank sh (block_id b) + sh_height sh + 8 \<le> d"
  shows "map_sum id strip (Generate d ms) = ref_generate (Suc (sh_rank sh (block_id b))) ms"
  using assms by (intro Generate_agrees) auto

theorem Generate_refines_witness:
  "map_sum id strip (Generate 22 fabric_program) = ref_generate 4 fabric_program"
  using Generate_refines [OF fabric_wf, of "snd (fabric_program ! 1)" 22]
  by (simp add: fabric_program_def fabric_shape_def)

text \<open>
  Termination. For such a program the stack bound is never the reason for a failure, and the
  bound does not influence the result: any two depths above the bound give the same outcome.
\<close>

theorem Generate_terminates:
  assumes "wf_prog sh ms" and "dget ms ''main'' = Some b"
    and "4 * sh_rank sh (block_id b) + sh_height sh + 8 \<le> d" and "d \<le> d'"
  shows "Generate d ms \<noteq> Inl RecursionError
    \<and> map_sum id strip (Generate d' ms) = map_sum id strip (Generate d ms)"
proof
  let ?n = "Suc (sh_rank sh (block_id b))"
  have agree: "map_sum id strip (Generate e ms) = ref_generate ?n ms" if "d \<le> e" for e
    by (rule Generate_agrees) (use assms that in auto)
  have "wf_prog sh (modules (init_gen ms))" and "wf_block sh (modules (init_gen ms)) b"
    using assms by (auto simp: init_gen_def dest: wf_prog_get)
  then have "ref_block ?n [] [] b [] (init_gen ms) \<noteq> Inl RecursionError"
    by (rule ref_fuel_enough(1)) simp
  then have "ref_generate ?n ms \<noteq> Inl RecursionError"
    by (auto simp: ref_generate_def assms(2) res_bind_eq_Inl)
  with agree [of d] show "Generate d ms \<noteq> Inl RecursionError" by auto
  show "map_sum id strip (Generate d' ms) = map_sum id strip (Generate d ms)"
    using agree [of d'] agree [of d] assms(4) by simp
qed

theorem Generate_terminates_witness:
  "Generate 22 fabric_program \<noteq> Inl RecursionError"
  using Generate_terminates [OF fabric_wf, of "snd (fabric_program ! 1)" 22 22]
  by (simp add: fabric_program_def fabric_shape_def)

end
