(* ===== verification/Rad_Lists.thy ===== *)
theory Rad_Lists
  imports Py_Prelude "HOL-Library.Multiset" "HOL-Library.Sublist"
begin

text \<open>
  The list, string and dictionary utilities of \<^verbatim>\<open>simulation/bindings/python/rad_util.py\<close>:
  \<^verbatim>\<open>reverse\<close>, \<^verbatim>\<open>transpose\<close>, \<^verbatim>\<open>permutations\<close>, \<^verbatim>\<open>uniquify\<close>, \<^verbatim>\<open>reverse_dict\<close>,
  \<^verbatim>\<open>find_common_fixes\<close>, \<^verbatim>\<open>is_rotated\<close> and \<^verbatim>\<open>get_args\<close>. The module is Python 2.
\<close>

section \<open>Definitions\<close>

definition reverse_string :: "string \<Rightarrow> string" where
  "reverse_string input_string = (let str_list = input_string; str_list = rev str_list in join [] (map (\<lambda>c. [c]) str_list))"

text \<open>\<^verbatim>\<open>zip(*matrix)\<close> stops as soon as some row is used up; \<^verbatim>\<open>zip()\<close> is empty.\<close>

function zip_rows :: "'a list list \<Rightarrow> 'a list list" where
  "zip_rows m = (if m = [] \<or> [] \<in> set m then [] else map hd m # zip_rows (map tl m))"
  by pat_completeness auto
termination
proof (relation "measure (\<lambda>m. length (hd m))")
  fix m :: "'a list list"
  assume "\<not> (m = [] \<or> [] \<in> set m)"
  then show "(map tl m, m) \<in> measure (\<lambda>m. length (hd m))"
    by (cases m; cases "hd m") auto
qed simp

declare zip_rows.simps [simp del]

definition transpose_matrix :: "'a list list \<Rightarrow> 'a list list" where
  "transpose_matrix matrix = zip_rows matrix"

definition insert_at :: "nat \<Rightarrow> 'a \<Rightarrow> 'a list \<Rightarrow> 'a list" where
  "insert_at i x xs = take i xs @ x # drop i xs"

fun permutations :: "'a list \<Rightarrow> 'a list list" where
  "permutations (item # y # zs) =
     concat (map (\<lambda>sub_list. map (\<lambda>i. insert_at i item sub_list) [0..<length (item # y # zs)])
                 (permutations (y # zs)))"
| "permutations xs = [xs]"

text \<open>
  \<^verbatim>\<open>uniquify\<close> of hashable items, order kept: the comprehension with the dictionary \<^verbatim>\<open>d\<close> it fills
  on the way; and of items that cannot be hashed: the slow loop over the result so far.
\<close>

fun uniquify_hashed :: "('a, nat) dict \<Rightarrow> 'a list \<Rightarrow> 'a list" where
  "uniquify_hashed d [] = []"
| "uniquify_hashed d (x # xs) =
     (if dget d x = None then x # uniquify_hashed (dset x 0 d) xs else uniquify_hashed d xs)"

fun uniquify_slow :: "'a list \<Rightarrow> 'a list \<Rightarrow> 'a list" where
  "uniquify_slow result [] = result"
| "uniquify_slow result (x # xs) =
     (if x \<notin> set result then uniquify_slow (result @ [x]) xs else uniquify_slow result xs)"

definition uniquify :: "bool \<Rightarrow> bool \<Rightarrow> 'a list \<Rightarrow> 'a list" where
  "uniquify hashable preserve_order seq =
     (if hashable then
        (if preserve_order then uniquify_hashed [] seq
         else dkeys (fold (\<lambda>x. dset x (0::nat)) seq []))
      else uniquify_slow [] seq)"

definition reverse_dict :: "('k, 'v) dict \<Rightarrow> ('v, 'k) dict" where
  "reverse_dict d = fold (\<lambda>(key, v) result. dset v key result) d []"

text \<open>The two loops of \<^verbatim>\<open>find_common_fixes\<close>; \<open>xs ! (length xs - i)\<close> is \<^verbatim>\<open>xs[-i]\<close>.\<close>

function common_prefix_loop :: "'a list \<Rightarrow> 'a list \<Rightarrow> nat \<Rightarrow> nat \<Rightarrow> 'a list \<Rightarrow> 'a list" where
  "common_prefix_loop s1 s2 common_len i pre =
     (if i < common_len then
        (if s1 ! i \<noteq> s2 ! i then pre
         else common_prefix_loop s1 s2 common_len (i + 1) (pre @ [s1 ! i]))
      else pre)"
  by pat_completeness auto
termination by (relation "measure (\<lambda>(s1, s2, n, i, p). n - i)") auto

function common_suffix_loop :: "'a list \<Rightarrow> 'a list \<Rightarrow> nat \<Rightarrow> nat \<Rightarrow> 'a list \<Rightarrow> 'a list" where
  "common_suffix_loop s1 s2 common_len i suf =
     (if i < common_len + 1 then
        (if s1 ! (length s1 - i) \<noteq> s2 ! (length s2 - i) then suf
         else common_suffix_loop s1 s2 common_len (i + 1) (suf @ [s1 ! (length s1 - i)]))
      else suf)"
  by pat_completeness auto
termination by (relation "measure (\<lambda>(s1, s2, n, i, p). n + 1 - i)") auto

declare common_prefix_loop.simps [simp del] common_suffix_loop.simps [simp del]

definition find_common_fixes :: "'a list \<Rightarrow> 'a list \<Rightarrow> 'a list \<times> 'a list" where
  "find_common_fixes s1 s2 =
     (let common_len = min (length s1) (length s2);
          pre = common_prefix_loop s1 s2 common_len 0 [];
          suf = common_suffix_loop s1 s2 common_len 1 []
      in (pre, rev suf))"

text \<open>\<^verbatim>\<open>seq2[0]\<close> is evaluated after the length check, so two empty sequences raise.\<close>

definition is_rotated :: "'a list \<Rightarrow> 'a list \<Rightarrow> py_error + bool" where
  "is_rotated seq1 seq2 =
     (if length seq1 \<noteq> length seq2 then Inr False
      else case seq2 of
        [] \<Rightarrow> Inl IndexError
      | head_item # _ \<Rightarrow>
          (let start_indexes = filter (\<lambda>i. seq1 ! i = head_item) [0..<length seq1];
               double_seq1 = seq1 @ seq1
           in Inr (list_ex (\<lambda>i. take (length seq1) (drop i double_seq1) = seq2) start_indexes)))"

text \<open>
  \<^verbatim>\<open>get_args\<close>, whose dictionary holds a string, \<^verbatim>\<open>None\<close>, or under \<^verbatim>\<open>args\<close> the list of the plain arguments.
\<close>

datatype arg_value = ArgStr string | ArgNone | ArgList "string list"

definition is_option_arg :: "string \<Rightarrow> bool" where
  "is_option_arg arg = (arg \<noteq> [] \<and> hd arg = CHR ''-'')"

definition parse_option :: "string \<Rightarrow> string \<times> arg_value" where
  "parse_option arg =
     (let parts = split_char (CHR ''='') (dropWhile (\<lambda>c. c = CHR ''-'') arg)
      in if length parts = 2 then (parts ! 0, ArgStr (parts ! 1)) else (parts ! 0, ArgNone))"

fun get_args_loop :: "string list \<Rightarrow> (string, arg_value) dict \<Rightarrow> string list \<Rightarrow> (string, arg_value) dict" where
  "get_args_loop [] d args = dset ''args'' (ArgList args) d"
| "get_args_loop (arg # rest) d args =
     (if is_option_arg arg
      then (case parse_option arg of (k, v) \<Rightarrow> get_args_loop rest (dset k v d) args)
      else get_args_loop rest d (args @ [arg]))"

definition get_args :: "string list \<Rightarrow> (string, arg_value) dict" where
  "get_args argv = get_args_loop argv [] []"

section \<open>Rotations\<close>

lemma window_rotate: "i < length s \<Longrightarrow> take (length s) (drop i (s @ s)) = rotate i s"
  by (simp add: rotate_drop_take)

lemma list_ex_filter_upt: "list_ex P (filter Q [0..<n]) \<longleftrightarrow> (\<exists>i<n. Q i \<and> P i)"
  by (auto simp: list_ex_iff)

lemma is_rotated_nonempty:
  assumes "s1 \<noteq> [] \<or> s2 \<noteq> []"
  shows "is_rotated s1 s2 = Inr (\<exists>n. s2 = rotate n s1)"
proof (cases s2)
  case Nil
  with assms have "s2 \<noteq> rotate n s1" for n by (metis rotate_is_Nil_conv)
  then show ?thesis using assms Nil by (auto simp: is_rotated_def)
next
  case (Cons h t)
  show ?thesis
  proof (cases "length s1 = length s2")
    case True
    have "(\<exists>i<length s1. s1 ! i = h \<and> take (length s1) (drop i (s1 @ s1)) = s2) \<longleftrightarrow> (\<exists>n. s2 = rotate n s1)"
    proof
      assume "\<exists>n. s2 = rotate n s1"
      then obtain n where n: "s2 = rotate n s1" ..
      have pos: "n mod length s1 < length s1" using True Cons by simp
      moreover have rot: "s2 = rotate (n mod length s1) s1" using n by (simp add: rotate_drop_take)
      moreover have "s1 ! (n mod length s1) = h"
        using rot pos Cons by (metis hd_rotate_conv_nth list.sel(1) list.size(3) mod_less not_less0)
      ultimately show "\<exists>i<length s1. s1 ! i = h \<and> take (length s1) (drop i (s1 @ s1)) = s2"
        using window_rotate by metis
    qed (use window_rotate in metis)
    moreover have "is_rotated s1 s2
        = Inr (\<exists>i<length s1. s1 ! i = h \<and> take (length s1) (drop i (s1 @ s1)) = s2)"
      using True Cons
      by (simp add: is_rotated_def Let_def list_ex_filter_upt del: upt_Suc take_append drop_append)
    ultimately show ?thesis by simp
  next
    case False
    then have "s2 \<noteq> rotate n s1" for n by auto
    with False show ?thesis by (simp add: is_rotated_def)
  qed
qed

text \<open>
  \<^verbatim>\<open>is_rotated\<close> decides whether the second sequence is a rotation of the first, and raises
  an IndexError on two empty sequences.
\<close>

theorem is_rotated_iff:
  "is_rotated s1 s2 = (if s1 = [] \<and> s2 = [] then Inl IndexError else Inr (\<exists>n. s2 = rotate n s1))"
  by (auto simp: is_rotated_nonempty, simp add: is_rotated_def)

section \<open>Permutations\<close>

lemma mset_insert_at [simp]: "mset (insert_at i x xs) = add_mset x (mset xs)"
  by (metis append_take_drop_id insert_at_def mset.simps(2) mset_append union_mset_add_mset_right)

lemma permutations_step:
  "permutations (x # y # zs) =
     concat (map (\<lambda>sub. map (\<lambda>i. insert_at i x sub) [0..<Suc (Suc (length zs))]) (permutations (y # zs)))"
  by simp

lemma mset_Cons_insert_at:
  assumes "mset ys = mset (x # xs)"
  obtains i sub where "i < length ys" and "ys = insert_at i x sub" and "mset sub = mset xs"
proof -
  from assms have "x \<in> set ys" by (metis list.set_intros(1) set_mset_mset)
  then obtain as bs where ys: "ys = as @ x # bs" by (meson split_list)
  with assms that [of "length as" "as @ bs"] show ?thesis by (simp add: insert_at_def)
qed

lemma permutations_sound: "ys \<in> set (permutations xs) \<Longrightarrow> mset ys = mset xs"
  by (induction xs arbitrary: ys rule: permutations.induct) (auto simp del: upt_Suc)

lemma permutations_complete: "mset ys = mset xs \<Longrightarrow> ys \<in> set (permutations xs)"
proof (induction xs arbitrary: ys rule: permutations.induct)
  case (1 x y zs)
  from "1.prems" obtain i sub where i: "i < length ys" "ys = insert_at i x sub" and "mset sub = mset (y # zs)"
    by (rule mset_Cons_insert_at)
  then have "sub \<in> set (permutations (y # zs))" using "1.IH" by blast
  moreover have "i < Suc (Suc (length zs))" using i "1.prems" by (metis length_Cons mset_eq_length)
  ultimately show ?case
    using i by (auto simp: permutations_step simp del: upt_Suc permutations.simps intro!: bexI [of _ sub])
qed (auto dest: mset_eq_length simp: mset_single_iff)

lemma length_permutations: "length (permutations xs) = fact (length xs)"
proof (induction xs rule: permutations.induct)
  case (1 x y zs)
  then show ?case by (simp add: length_concat comp_def sum_list_triv del: upt_Suc permutations.simps add: permutations_step)
qed simp_all

text \<open>
  \<^verbatim>\<open>permutations\<close> returns exactly the lists with the same items, \<open>n!\<close> of them.
\<close>

theorem permutations_correct:
  "set (permutations xs) = {ys. mset ys = mset xs} \<and> length (permutations xs) = fact (length xs)"
  using permutations_sound permutations_complete length_permutations by blast

section \<open>Transposition\<close>

lemma zip_rows_nth:
  "m \<noteq> [] \<Longrightarrow> n = Min (length ` set m) \<Longrightarrow> zip_rows m = map (\<lambda>j. map (\<lambda>r. r ! j) m) [0..<n]"
proof (induction m arbitrary: n rule: zip_rows.induct)
  case (1 m)
  show ?case
  proof (cases "[] \<in> set m")
    case True
    then have "Min (length ` set m) = 0" by (metis List.finite_set Min_eqI Min_le finite_imageI image_eqI le0 list.size(3))
    with True "1.prems" show ?thesis by (simp add: zip_rows.simps)
  next
    case False
    then have ne: "\<forall>r \<in> set m. r \<noteq> []" by auto
    have "Min (length ` set m) = Suc (Min (length ` set (map tl m)))"
    proof -
      have "length ` set m = Suc ` length ` set (map tl m)"
        using ne by (auto simp: image_iff)
      then show ?thesis using "1.prems"(1) by (simp add: mono_Min_commute mono_Suc)
    qed
    with "1.prems" obtain k where n: "n = Suc k" and k: "k = Min (length ` set (map tl m))" by simp
    have rest: "map (\<lambda>r. r ! j) (map tl m) = map (\<lambda>r. r ! Suc j) m" for j
      using ne by (auto simp: neq_Nil_conv)
    have first: "map hd m = map (\<lambda>r. r ! 0) m" using ne by (auto simp: hd_conv_nth)
    have "zip_rows m = map hd m # zip_rows (map tl m)"
      using False "1.prems" by (simp add: zip_rows.simps [of m])
    also have "zip_rows (map tl m) = map (\<lambda>j. map (\<lambda>r. r ! j) (map tl m)) [0..<k]"
      using "1.IH" [of k] "1.prems" False k by auto
    also have "\<dots> = map (\<lambda>j. map (\<lambda>r. r ! Suc j) m) [0..<k]" by (simp only: rest)
    also have "map hd m # \<dots> = map (\<lambda>j. map (\<lambda>r. r ! j) m) (0 # map Suc [0..<k])"
      by (simp add: first comp_def)
    also have "0 # map Suc [0..<k] = [0..<n]"
      by (simp add: n map_Suc_upt upt_conv_Cons del: upt_Suc)
    finally show ?thesis .
  qed
qed

text \<open>
  Transposing a matrix with equally long, non-empty rows exchanges the two indices, and
  transposing twice gives the matrix back.
\<close>

theorem transpose_matrix_involution:
  assumes "m \<noteq> []" and "\<forall>r \<in> set m. length r = n" and "0 < n"
  shows "transpose_matrix m = map (\<lambda>j. map (\<lambda>r. r ! j) m) [0..<n] \<and> transpose_matrix (transpose_matrix m) = m"
proof
  have "length ` set m = {n}" using assms by (auto simp: image_iff) (metis list.set_intros(1) neq_Nil_conv)
  then show 1: "transpose_matrix m = map (\<lambda>j. map (\<lambda>r. r ! j) m) [0..<n]"
    unfolding transpose_matrix_def by (intro zip_rows_nth [OF assms(1)]) simp
  let ?t = "map (\<lambda>j. map (\<lambda>r. r ! j) m) [0..<n]"
  have "length ` set ?t = {length m}" using assms(3) by (auto simp: image_iff)
  then have "transpose_matrix ?t = map (\<lambda>i. map (\<lambda>c. c ! i) ?t) [0..<length m]"
    unfolding transpose_matrix_def using assms(3) by (intro zip_rows_nth) auto
  also have "\<dots> = map (\<lambda>i. m ! i) [0..<length m]"
    using assms(2) by (intro map_cong refl nth_equalityI) (auto simp: comp_def)
  finally show "transpose_matrix (transpose_matrix m) = m" by (simp add: 1 map_nth)
qed

theorem transpose_matrix_involution_witness:
  "transpose_matrix (transpose_matrix [[1, 2, 3], [4, 5, 6::nat]]) = [[1, 2, 3], [4, 5, 6]]"
  by (rule transpose_matrix_involution [of _ 3, THEN conjunct2]) simp_all

section \<open>Removing duplicates\<close>

lemma uniquify_hashed_cong: "fst ` set d = fst ` set d' \<Longrightarrow> uniquify_hashed d xs = uniquify_hashed d' xs"
proof (induction xs arbitrary: d d')
  case (Cons x xs)
  from Cons.IH [of "dset x 0 d" "dset x 0 d'"] Cons.IH [of d d'] Cons.prems show ?case
    by (simp add: dget_None_iff)
qed simp

lemma uniquify_slow_hashed:
  "fst ` set d = set acc \<Longrightarrow> uniquify_slow acc xs = acc @ uniquify_hashed d xs"
proof (induction xs arbitrary: d acc)
  case (Cons x xs)
  from Cons.IH [of "dset x 0 d" "acc @ [x]"] Cons.IH [of d acc] Cons.prems show ?case
    by (simp add: dget_None_iff)
qed simp

lemma dkeys_fold_dset_hashed: "dkeys (fold (\<lambda>x. dset x 0) xs d) = dkeys d @ uniquify_hashed d xs"
proof (induction xs arbitrary: d)
  case (Cons x xs)
  have "uniquify_hashed (dset x 0 d) xs = uniquify_hashed d xs" if "x \<in> fst ` set d"
    by (rule uniquify_hashed_cong) (use that in auto)
  with Cons.IH [of "dset x 0 d"] show ?case by (simp add: dget_None_iff dkeys_dset)
qed simp

lemma uniquify_hashed_subseq: "subseq (uniquify_hashed d xs) xs"
  by (induction d xs rule: uniquify_hashed.induct) auto

lemma uniquify_hashed_set:
  "set (uniquify_hashed d xs) = set xs - set (dkeys d) \<and> distinct (uniquify_hashed d xs)"
  by (induction d xs rule: uniquify_hashed.induct) (auto simp: dget_None_iff)

text \<open>
  The fast path with a dictionary and the slow path for unhashable items return the same
  list: the items of the sequence without repetition, in the order of their first occurrence; the
  path that gives up the order has the same items.
\<close>

theorem uniquify_correct:
  "uniquify True True seq = uniquify False b seq
   \<and> distinct (uniquify h b seq) \<and> set (uniquify h b seq) = set seq \<and> subseq (uniquify True True seq) seq"
  by (simp add: uniquify_def uniquify_slow_hashed [of "[]" "[]", simplified] dkeys_fold_dset_hashed
      uniquify_hashed_subseq uniquify_hashed_set)

section \<open>Reversing a dictionary\<close>

lemma reverse_dict_swap: "reverse_dict d = dict_of (map prod.swap d)"
proof -
  have "fold (\<lambda>(key, v) result. dset v key result) d r = fold (\<lambda>(k, v). dset k v) (map prod.swap d) r" for r
    by (induction d arbitrary: r) (auto simp: split_beta)
  then show ?thesis by (simp add: reverse_dict_def dict_of_def)
qed

text \<open>
  When the values are distinct, \<^verbatim>\<open>reverse_dict\<close> exchanges keys and values, and reversing
  twice gives the dictionary back.
\<close>

theorem reverse_dict_involution:
  assumes "distinct (dkeys d)" and "distinct (map snd d)"
  shows "reverse_dict (reverse_dict d) = d \<and> (dget (reverse_dict d) v = Some k \<longleftrightarrow> dget d k = Some v)"
proof -
  have "reverse_dict d = map prod.swap d"
    using assms(2) by (simp add: reverse_dict_swap dict_of_distinct comp_def)
  moreover have "reverse_dict (map prod.swap d) = d"
    using assms(1) by (simp add: reverse_dict_swap dict_of_distinct comp_def)
  moreover have "dget (map prod.swap d) v = Some k \<longleftrightarrow> dget d k = Some v"
    using assms by (force simp: comp_def)
  ultimately show ?thesis by simp
qed

theorem reverse_dict_involution_witness:
  "reverse_dict (reverse_dict [(''a'', 1), (''b'', 2::nat)]) = [(''a'', 1), (''b'', 2)]"
  using reverse_dict_involution [of "[(''a'', 1), (''b'', 2::nat)]" 1 "''a''"] by simp

section \<open>Common prefix and suffix\<close>

lemma common_prefix_loop_lcp:
  "n = min (length s1) (length s2) \<Longrightarrow>
     common_prefix_loop s1 s2 n i pre = pre @ longest_common_prefix (drop i s1) (drop i s2)"
proof (induction s1 s2 n i pre rule: common_prefix_loop.induct)
  case (1 s1 s2 n i pre)
  show ?case
  proof (cases "i < n")
    case True
    with "1.prems" have "drop i s1 = s1 ! i # drop (Suc i) s1" "drop i s2 = s2 ! i # drop (Suc i) s2"
      by (simp_all add: Cons_nth_drop_Suc)
    with "1.IH" True "1.prems" show ?thesis by (subst common_prefix_loop.simps) simp
  next
    case False
    with "1.prems" have "drop i s1 = [] \<or> drop i s2 = []" by auto
    with False show ?thesis by (subst common_prefix_loop.simps) (auto split: list.split)
  qed
qed

lemma common_suffix_loop_rev:
  "n \<le> length s1 \<Longrightarrow> n \<le> length s2 \<Longrightarrow>
     common_suffix_loop s1 s2 n (Suc i) suf = common_prefix_loop (rev s1) (rev s2) n i suf"
proof (induction "rev s1" "rev s2" n i suf arbitrary: rule: common_prefix_loop.induct)
  case (1 n i suf)
  then show ?case
    by (subst common_suffix_loop.simps, subst common_prefix_loop.simps) (auto simp: rev_nth)
qed

text \<open>
  \<^verbatim>\<open>find_common_fixes\<close> returns the longest common prefix and the longest common suffix,
  which may overlap.
\<close>

theorem find_common_fixes_longest:
  "find_common_fixes s1 s2 = (longest_common_prefix s1 s2, rev (longest_common_prefix (rev s1) (rev s2)))"
  using common_suffix_loop_rev [of "min (length s1) (length s2)" s1 s2 0 "[]"]
    common_prefix_loop_lcp [of "min (length s1) (length s2)" s1 s2 0 "[]"]
    common_prefix_loop_lcp [of "min (length s1) (length s2)" "rev s1" "rev s2" 0 "[]"]
  by (simp add: find_common_fixes_def Let_def)

section \<open>Command-line arguments\<close>

lemma get_args_loop_get:
  "dget (get_args_loop argv d args) k =
     (if k = ''args'' then Some (ArgList (args @ filter (\<lambda>a. \<not> is_option_arg a) argv))
      else (dget d ++ dget (rev (map parse_option (filter is_option_arg argv)))) k)"
  by (induction argv d args rule: get_args_loop.induct)
    (auto simp: map_of_append map_add_def split: prod.split option.split)

text \<open>
  \<^verbatim>\<open>get_args\<close> collects the plain arguments in order under \<^verbatim>\<open>args\<close>, and every other key has the
  value its last option gives it.
\<close>

theorem get_args_get:
  "dget (get_args argv) k =
     (if k = ''args'' then Some (ArgList (filter (\<lambda>a. \<not> is_option_arg a) argv))
      else dget (rev (map parse_option (filter is_option_arg argv))) k)"
  by (simp add: get_args_def get_args_loop_get)

text \<open>
  An option \<^verbatim>\<open>--name=value\<close> parses to its name and value, and a value that itself contains
  an equals sign is lost.
\<close>

theorem parse_option_value:
  assumes "CHR ''='' \<notin> set name" and "CHR ''='' \<notin> set val" and "name \<noteq> []" and "hd name \<noteq> CHR ''-''"
  shows "parse_option (''--'' @ name @ ''='' @ val) = (name, ArgStr val)
    \<and> parse_option (''--'' @ name @ ''='' @ val @ ''='' @ more) = (name, ArgNone)"
proof -
  have "dropWhile (\<lambda>c. c = CHR ''-'') (name @ rest) = name @ rest" for rest
    using assms(3,4) by (cases name) auto
  moreover have "length (split_char (CHR ''='') more) \<noteq> 0"
    by (induction more) (auto split: list.split)
  ultimately show ?thesis
    using assms by (simp add: parse_option_def Let_def split_char_append split_char_no_sep)
qed

theorem parse_option_value_witness:
  "parse_option ''--mode=fast'' = (''mode'', ArgStr ''fast'') \<and> parse_option ''--mode=a=b'' = (''mode'', ArgNone)"
  using parse_option_value [of "''mode''" "''fast''" "[]"] parse_option_value [of "''mode''" "''a''" "''b''"] by simp

end
