(* ===== verification/Rad_Numbers.thy ===== *)
theory Rad_Numbers
  imports Py_Prelude
begin

unbundle bit_operations_syntax

text \<open>
  The integer utilities of \<^verbatim>\<open>simulation/bindings/python/rad_util.py\<close>: \<^verbatim>\<open>int2bin\<close>, \<^verbatim>\<open>bin2int\<close>,
  \<^verbatim>\<open>gcf\<close>, \<^verbatim>\<open>lcm\<close>, \<^verbatim>\<open>reduce_fraction\<close>, \<^verbatim>\<open>lsb\<close>, \<^verbatim>\<open>gray_encode\<close>, \<^verbatim>\<open>binary_range\<close> and
  \<^verbatim>\<open>round_grid\<close>, on Python's unbounded integers; the functions also accept floats, which are not
  modelled. The module is Python 2: \<^verbatim>\<open>/\<close> on integers is floor division.
\<close>

section \<open>Binary strings\<close>

text \<open>The reference: the \<open>n\<close> lowest bits of \<open>i\<close>, most significant first.\<close>

definition bit_char :: "bool \<Rightarrow> char" where
  "bit_char b = (if b then CHR ''1'' else CHR ''0'')"

definition bits_msb :: "nat \<Rightarrow> nat \<Rightarrow> string" where
  "bits_msb n i = map (\<lambda>k. bit_char (odd (i div 2 ^ k))) (rev [0..<n])"

definition hex_char :: "nat \<Rightarrow> char" where
  "hex_char d = ''0123456789abcdef'' ! d"

fun hex_nat :: "nat \<Rightarrow> string" where
  "hex_nat n = (if n < 16 then [hex_char n] else hex_nat (n div 16) @ [hex_char (n mod 16)])"

declare hex_nat.simps [simp del]

text \<open>\<^verbatim>\<open>hex(i)\<close>; the \<^verbatim>\<open>L\<close> suffix of a long, which the code removes again, is left out.\<close>

definition py_hex :: "int \<Rightarrow> string" where
  "py_hex i = (if i < 0 then ''-0x'' @ hex_nat (nat (- i)) else ''0x'' @ hex_nat (nat i))"

definition hex2bin :: "char \<Rightarrow> string option" where
  "hex2bin = map_of
     [(CHR ''0'', ''0000''), (CHR ''1'', ''0001''), (CHR ''2'', ''0010''), (CHR ''3'', ''0011''),
      (CHR ''4'', ''0100''), (CHR ''5'', ''0101''), (CHR ''6'', ''0110''), (CHR ''7'', ''0111''),
      (CHR ''8'', ''1000''), (CHR ''9'', ''1001''), (CHR ''a'', ''1010''), (CHR ''b'', ''1011''),
      (CHR ''c'', ''1100''), (CHR ''d'', ''1101''), (CHR ''e'', ''1110''), (CHR ''f'', ''1111'')]"

text \<open>
  The slices \<^verbatim>\<open>s[:-n]\<close> and \<^verbatim>\<open>s[-n:]\<close> for \<open>0 \<le> n\<close>: for \<open>n = 0\<close> the first is empty and the second
  is the whole string.
\<close>

definition upto_last :: "nat \<Rightarrow> 'a list \<Rightarrow> 'a list" where
  "upto_last n s = (if n = 0 then [] else take (length s - n) s)"

definition from_last :: "nat \<Rightarrow> 'a list \<Rightarrow> 'a list" where
  "from_last n s = (if n = 0 then s else drop (length s - n) s)"

definition int2bin :: "int \<Rightarrow> nat \<Rightarrow> py_error + string" where
  "int2bin i n =
     res_bind (res_map (\<lambda>x. case hex2bin x of None \<Rightarrow> Inl KeyError | Some b \<Rightarrow> Inr b) (drop 2 (py_hex i))) (\<lambda>bs.
       let result = concat bs in
       if CHR ''1'' \<in> set (upto_last n result) then Inl ValueError
       else (let result = from_last n result
             in Inr (replicate (n - length result) (CHR ''0'') @ result)))"

text \<open>
  \<^verbatim>\<open>int(s, 2)\<close>: surrounding whitespace, a sign and a \<^verbatim>\<open>0b\<close> prefix are accepted; at least one
  binary digit is needed and nothing else may follow.
\<close>

definition is_space :: "char \<Rightarrow> bool" where
  "is_space c \<longleftrightarrow> c \<in> {CHR '' '', CHR 0x09, CHR 0x0A, CHR 0x0B, CHR 0x0C, CHR 0x0D}"

definition strip_space :: "string \<Rightarrow> string" where
  "strip_space s = rev (dropWhile is_space (rev (dropWhile is_space s)))"

fun bin_digits_val :: "nat \<Rightarrow> string \<Rightarrow> nat option" where
  "bin_digits_val acc [] = Some acc"
| "bin_digits_val acc (c # cs) =
     (if c = CHR ''0'' then bin_digits_val (2 * acc) cs
      else if c = CHR ''1'' then bin_digits_val (2 * acc + 1) cs
      else None)"

definition drop_0b :: "string \<Rightarrow> string" where
  "drop_0b s = (if take 2 s = ''0b'' \<or> take 2 s = ''0B'' then drop 2 s else s)"

definition bin2int :: "string \<Rightarrow> py_error + int" where
  "bin2int bin_string =
     (let s = strip_space bin_string;
          neg = (s \<noteq> [] \<and> hd s = CHR ''-'');
          digits = drop_0b (if s \<noteq> [] \<and> (hd s = CHR ''-'' \<or> hd s = CHR ''+'') then tl s else s)
      in if digits = [] then Inl ValueError
         else case bin_digits_val 0 digits of
                None \<Rightarrow> Inl ValueError
              | Some v \<Rightarrow> Inr (if neg then - int v else int v))"

lemma length_bits_msb [simp]: "length (bits_msb n i) = n"
  by (simp add: bits_msb_def)

lemma bits_msb_0 [simp]: "bits_msb 0 i = []"
  by (simp add: bits_msb_def)

lemma bits_msb_Suc: "bits_msb (Suc n) i = bit_char (odd (i div 2 ^ n)) # bits_msb n i"
  by (simp add: bits_msb_def)

lemma bits_msb_add: "bits_msb (a + b) i = bits_msb a (i div 2 ^ b) @ bits_msb b i"
  by (induction a) (simp_all add: bits_msb_Suc power_add mult.commute flip: div_mult2_eq)

lemma bits_msb_mod: "bits_msb n (i mod 2 ^ n) = bits_msb n i"
proof -
  have "odd (i mod 2 ^ n div 2 ^ k) = odd (i div 2 ^ k)" if "k < n" for k
  proof -
    have "i mod 2 ^ n div 2 ^ k = (i div 2 ^ k) mod 2 ^ (n - k)"
      using that by (metis div_exp_mod_exp_eq drop_bit_eq_div le_add_diff_inverse less_imp_le_nat take_bit_drop_bit take_bit_eq_mod)
    then show ?thesis using that by (simp add: even_mod_exp_div_exp_iff dvd_mod_iff)
  qed
  then show ?thesis by (simp add: bits_msb_def)
qed

lemma bits_msb_zero: "bits_msb n 0 = replicate n (CHR ''0'')"
  by (induction n) (simp_all add: bits_msb_Suc bit_char_def)

lemma one_in_bits_msb: "i < 2 ^ n \<Longrightarrow> CHR ''1'' \<in> set (bits_msb n i) \<longleftrightarrow> i \<noteq> 0"
proof (induction n arbitrary: i)
  case (Suc n)
  show ?case
  proof (cases "i < 2 ^ n")
    case True
    with Suc.IH [OF True] show ?thesis by (simp add: bits_msb_Suc bit_char_def)
  next
    case False
    then have "i div 2 ^ n = 1" using Suc.prems by (simp add: div_nat_eqI)
    with False show ?thesis by (cases "i = 0") (simp_all add: bits_msb_Suc bit_char_def)
  qed
qed simp

lemma hex2bin_hex_char: "d < 16 \<Longrightarrow> hex2bin (hex_char d) = Some (bits_msb 4 d)"
proof -
  have "list_all (\<lambda>d. hex2bin (hex_char d) = Some (bits_msb 4 d)) [0..<16]" by code_simp
  then show "d < 16 \<Longrightarrow> ?thesis" by (simp add: list_all_iff)
qed

lemma res_map_hex2bin:
  "\<exists>k. n < 2 ^ (4 * k) \<and>
     (\<exists>bs. res_map (\<lambda>x. case hex2bin x of None \<Rightarrow> Inl KeyError | Some b \<Rightarrow> Inr b) (hex_nat n) = Inr bs
        \<and> concat bs = bits_msb (4 * k) n)"
proof (induction n rule: hex_nat.induct)
  case (1 n)
  show ?case
  proof (cases "n < 16")
    case True
    then show ?thesis by (intro exI [of _ 1]) (simp add: hex_nat.simps hex2bin_hex_char)
  next
    case False
    let ?f = "\<lambda>x. case hex2bin x of None \<Rightarrow> Inl KeyError | Some b \<Rightarrow> Inr b"
    from "1.IH" [OF False] obtain k bs where k: "n div 16 < 2 ^ (4 * k)"
      and bs: "res_map ?f (hex_nat (n div 16)) = Inr bs" "concat bs = bits_msb (4 * k) (n div 16)"
      by blast
    have "res_map ?f (hex_nat n) = Inr (bs @ [bits_msb 4 (n mod 16)])"
      using False bs(1) by (simp add: hex_nat.simps [of n] res_map_append hex2bin_hex_char)
    moreover have "concat (bs @ [bits_msb 4 (n mod 16)]) = bits_msb (4 * Suc k) n"
      using bits_msb_mod [of 4 n] bits_msb_add [of "4 * k" 4 n] bs(2) by (simp add: add.commute)
    moreover have "n < 2 ^ (4 * Suc k)"
      using k by (simp add: power_add div_less_iff_less_mult mult.commute)
    ultimately show ?thesis by blast
  qed
qed

lemma take_bits_msb: "take a (bits_msb (a + b) i) = bits_msb a (i div 2 ^ b)"
  and drop_bits_msb: "drop a (bits_msb (a + b) i) = bits_msb b i"
  by (simp_all add: bits_msb_add)

lemma int2bin_spec:
  assumes "0 \<le> i" and "0 < n"
  shows "int2bin i n = (if i < 2 ^ n then Inr (bits_msb n (nat i)) else Inl ValueError)"
proof -
  obtain m bs where k: "nat i < 2 ^ m" and
    bs: "res_map (\<lambda>x. case hex2bin x of None \<Rightarrow> Inl KeyError | Some b \<Rightarrow> Inr b) (hex_nat (nat i)) = Inr bs"
    "concat bs = bits_msb m (nat i)"
    using res_map_hex2bin by blast
  have small: "i < 2 ^ n \<longleftrightarrow> nat i < 2 ^ n" using assms(1) by (metis nat_less_numeral_power_cancel_iff)
  have run: "int2bin i n = (if CHR ''1'' \<in> set (upto_last n (bits_msb m (nat i))) then Inl ValueError
      else Inr (replicate (n - length (from_last n (bits_msb m (nat i)))) (CHR ''0'')
                @ from_last n (bits_msb m (nat i))))"
    using assms bs by (simp add: int2bin_def py_hex_def Let_def)
  show ?thesis
  proof (cases "n \<le> m")
    case True
    then obtain a where a: "m = a + n" by (metis le_add_diff_inverse2)
    have "nat i div 2 ^ n < 2 ^ a" using k a by (metis less_mult_imp_div_less power_add)
    moreover have "nat i div 2 ^ n \<noteq> 0 \<longleftrightarrow> \<not> i < 2 ^ n"
      unfolding small by (metis div_eq_0_iff power_not_zero zero_neq_numeral)
    ultimately have "CHR ''1'' \<in> set (upto_last n (bits_msb m (nat i))) \<longleftrightarrow> \<not> i < 2 ^ n"
      using assms(2) by (simp add: upto_last_def a take_bits_msb one_in_bits_msb)
    then show ?thesis using assms(2) by (simp add: run from_last_def a drop_bits_msb)
  next
    case False
    then obtain a where a: "n = a + m" by (metis le_add_diff_inverse2 nat_le_linear)
    have "nat i div 2 ^ m = 0" using k by simp
    then have "bits_msb n (nat i) = replicate a (CHR ''0'') @ bits_msb m (nat i)"
      by (simp add: a bits_msb_add bits_msb_zero)
    moreover have "(2::nat) ^ m \<le> 2 ^ n" using False by (intro power_increasing) auto
    with k have "nat i < 2 ^ n" by (rule less_le_trans)
    ultimately show ?thesis
      using assms(2) False unfolding run by (simp add: from_last_def upto_last_def small a)
  qed
qed

lemma int2bin_negative: "i < 0 \<Longrightarrow> int2bin i n = Inl KeyError"
  by (simp add: int2bin_def py_hex_def hex2bin_def)

lemma bits_msb_chars: "set (bits_msb n i) \<subseteq> {CHR ''0'', CHR ''1''}"
  by (auto simp: bits_msb_def bit_char_def)

lemma drop_space_bits: "set s \<subseteq> {CHR ''0'', CHR ''1''} \<Longrightarrow> dropWhile is_space s = s"
  by (cases s) (auto simp: is_space_def)

lemma strip_space_bits: "set s \<subseteq> {CHR ''0'', CHR ''1''} \<Longrightarrow> strip_space s = s"
  by (simp add: strip_space_def drop_space_bits)

lemma bin_digits_val_bits_msb: "bin_digits_val acc (bits_msb n i) = Some (acc * 2 ^ n + i mod 2 ^ n)"
proof (induction n arbitrary: acc)
  case (Suc n)
  have "i mod 2 ^ Suc n = (i div 2 ^ n mod 2) * 2 ^ n + i mod 2 ^ n"
    by (metis mod_mult2_eq add.commute mult.commute power_Suc2)
  then show ?case
    by (cases "odd (i div 2 ^ n)")
      (simp_all add: bits_msb_Suc bit_char_def Suc.IH algebra_simps odd_iff_mod_2_eq_one even_iff_mod_2_eq_zero)
qed simp

lemma bin2int_bits:
  assumes "set s \<subseteq> {CHR ''0'', CHR ''1''}" and "s \<noteq> []" and "bin_digits_val 0 s = Some v"
  shows "bin2int s = Inr (int v)"
proof -
  have "hd s \<in> {CHR ''0'', CHR ''1''}" using assms(1,2) hd_in_set by blast
  moreover have "drop_0b s = s"
    using assms(1,2) by (cases s; cases "tl s") (auto simp: drop_0b_def)
  ultimately show ?thesis
    using assms by (auto simp: bin2int_def Let_def strip_space_bits)
qed

lemma bin2int_bits_msb:
  assumes "0 < n" and "0 \<le> i" and "i < 2 ^ n"
  shows "bin2int (bits_msb n (nat i)) = Inr i"
proof -
  from assms have "nat i mod 2 ^ n = nat i" by (metis mod_less nat_less_numeral_power_cancel_iff)
  moreover have "bits_msb n (nat i) \<noteq> []" using assms by (metis length_bits_msb list.size(3) not_less0)
  ultimately show ?thesis
    using assms by (simp add: bin2int_bits [OF bits_msb_chars] bin_digits_val_bits_msb)
qed

text \<open>
  For a non-negative integer and a positive width, \<^verbatim>\<open>int2bin\<close> returns the \<open>n\<close>-digit binary
  numeral, most significant digit first, which \<^verbatim>\<open>bin2int\<close> reads back, exactly when the integer
  fits; otherwise it raises the ValueError. A negative integer raises a KeyError (on the \<^verbatim>\<open>x\<close> of
  its hexadecimal form).
\<close>

theorem int2bin_correct:
  assumes "0 < n"
  shows "int2bin i n =
     (if i < 0 then Inl KeyError else if i < 2 ^ n then Inr (bits_msb n (nat i)) else Inl ValueError)
   \<and> (0 \<le> i \<and> i < 2 ^ n \<longrightarrow> bin2int (bits_msb n (nat i)) = Inr i)"
proof (intro conjI impI)
  assume "0 \<le> i \<and> i < 2 ^ n"
  then show "bin2int (bits_msb n (nat i)) = Inr i" using assms by (simp add: bin2int_bits_msb)
qed (use assms in \<open>simp add: int2bin_spec int2bin_negative\<close>)

theorem int2bin_correct_witness: "int2bin 123 8 = Inr ''01111011'' \<and> bin2int ''01111011'' = Inr 123"
proof -
  have "bits_msb 8 123 = ''01111011''" by code_simp
  with int2bin_correct [of 8 123] show ?thesis by simp
qed

section \<open>Common factors\<close>

function gcf_loop :: "int \<Rightarrow> int \<Rightarrow> int" where
  "gcf_loop result remainder =
     (if remainder \<noteq> 0 then gcf_loop remainder (result mod remainder) else \<bar>result\<bar>)"
  by pat_completeness auto
termination
  by (relation "measure (\<lambda>(r, m). nat \<bar>m\<bar>)") (auto simp: abs_mod_less)

declare gcf_loop.simps [simp del]

text \<open>For integers the test against \<^verbatim>\<open>epsilon\<close> is the test for zero.\<close>

definition gcf :: "int \<Rightarrow> int \<Rightarrow> int" where
  "gcf a b = gcf_loop (max a b) (min a b)"

definition lcm_py :: "int \<Rightarrow> int \<Rightarrow> int" where
  "lcm_py a b = (let denom = gcf a b in if denom = 0 then 0 else a * (b div denom))"

definition reduce_fraction :: "int \<times> int \<Rightarrow> py_error + int \<times> int" where
  "reduce_fraction fraction =
     (let (numerator, denominator) = fraction;
          common_factor = \<bar>gcf numerator denominator\<bar>
      in if common_factor = 0 then Inl ZeroDivisionError
         else Inr (numerator div common_factor, denominator div common_factor))"

lemma gcf_loop_gcd: "gcf_loop a b = gcd a b"
  by (induction a b rule: gcf_loop.induct) (subst gcf_loop.simps, simp add: gcd.commute flip: gcd_red_int)

lemma gcf_gcd: "gcf a b = gcd a b"
  by (simp add: gcf_def gcf_loop_gcd max_def min_def gcd.commute)

text \<open>
  On integers \<^verbatim>\<open>gcf\<close> is the greatest common divisor, of numbers of any sign, and \<^verbatim>\<open>lcm\<close> is the
  least common multiple with the sign of the product.
\<close>

theorem gcf_lcm_correct:
  "gcf a b = gcd a b \<and> lcm_py a b = sgn (a * b) * lcm a b"
proof (cases "gcd a b = 0")
  case False
  have "a * (b div gcd a b) = a * b div gcd a b" by (simp add: div_mult_swap)
  also have "\<dots> = sgn (a * b) * (\<bar>a * b\<bar> div gcd a b)"
    by (metis abs_div abs_gcd_int abs_mult_self_eq gcd_dvd1 dvd_mult2 mult_sgn_abs sgn_mult_dvd_iff
        div_mult_swap dvd_abs_iff)
  finally show ?thesis using False by (simp add: lcm_py_def gcf_gcd lcm_altdef_int abs_mult)
qed (simp add: lcm_py_def gcf_gcd)

text \<open>
  \<^verbatim>\<open>reduce_fraction\<close> returns a fraction of the same value whose terms have no common factor,
  and fails only on \<open>0/0\<close>; the sign stays where it was.
\<close>

theorem reduce_fraction_correct:
  "(case reduce_fraction (p, q) of
      Inl e \<Rightarrow> e = ZeroDivisionError \<and> p = 0 \<and> q = 0
    | Inr (p', q') \<Rightarrow> p * q' = p' * q \<and> coprime p' q' \<and> sgn p' = sgn p \<and> sgn q' = sgn q)"
proof (cases "p = 0 \<and> q = 0")
  case False
  let ?g = "gcd p q"
  have pos: "?g > 0" using False by (simp add: gcd_pos_int)
  obtain p' q' where pq: "p = p' * ?g" "q = q' * ?g" by (metis dvd_div_mult_self gcd_dvd1 gcd_dvd2)
  then have "p div ?g = p'" "q div ?g = q'" using pos by (metis nonzero_mult_div_cancel_right less_irrefl)+
  moreover have "coprime (p div ?g) (q div ?g)" using False by (intro div_gcd_coprime) auto
  moreover have "sgn p = sgn p'" "sgn q = sgn q'"
    using pos pq by (metis mult.right_neutral sgn_mult sgn_pos)+
  moreover have "p * q' = p' * q" using pq by (metis mult.assoc mult.commute)
  ultimately show ?thesis using pos by (simp add: reduce_fraction_def gcf_gcd Let_def)
qed (simp add: reduce_fraction_def gcf_gcd)

section \<open>Bits\<close>

definition lsb :: "int \<Rightarrow> nat \<Rightarrow> int" where
  "lsb x n = x AND (2 ^ n - 1)"

definition gray_encode :: "int \<Rightarrow> int" where
  "gray_encode i = i XOR (drop_bit 1 i)"

lemma gray_div_2: "gray_encode i div 2 = gray_encode (i div 2)"
proof -
  have half: "x div 2 = drop_bit 1 x" for x :: int by (simp add: drop_bit_Suc)
  show ?thesis unfolding half gray_encode_def by (simp only: drop_bit_xor)
qed

lemma odd_gray: "odd (gray_encode i) \<longleftrightarrow> odd i \<noteq> odd (i div 2)"
  by (simp add: gray_encode_def even_xor_iff drop_bit_Suc)

lemma gray_inject: "0 \<le> i \<Longrightarrow> 0 \<le> j \<Longrightarrow> gray_encode i = gray_encode j \<Longrightarrow> i = j"
proof (induction "nat (i + j)" arbitrary: i j rule: less_induct)
  case less
  show ?case
  proof (cases "i = 0 \<and> j = 0")
    case False
    then have "nat (i div 2 + j div 2) < nat (i + j)" using less.prems by linarith
    moreover have "gray_encode (i div 2) = gray_encode (j div 2)"
      using less.prems(3) by (metis gray_div_2)
    ultimately have "i div 2 = j div 2" using less by simp
    moreover from this have "odd i = odd j" using less.prems(3) odd_gray by metis
    ultimately show ?thesis by (metis even_iff_mod_2_eq_zero mod2_eq_if div_mult_mod_eq)
  qed simp
qed

text \<open>Consecutive codes differ in one bit.\<close>

lemma gray_step: "0 \<le> i \<Longrightarrow> \<exists>k. gray_encode i XOR gray_encode (i + 1) = 2 ^ k"
proof (induction "nat i" arbitrary: i rule: less_induct)
  case less
  let ?x = "gray_encode i XOR gray_encode (i + 1)"
  have half: "x div 2 = drop_bit 1 x" for x :: int by (simp add: drop_bit_Suc)
  have div2: "?x div 2 = gray_encode (i div 2) XOR gray_encode ((i + 1) div 2)"
    unfolding gray_div_2 [symmetric] unfolding half by (simp only: drop_bit_xor)
  have odd: "odd ?x \<longleftrightarrow> odd (i div 2) = odd ((i + 1) div 2)"
    using odd_gray [of i] odd_gray [of "i + 1"] by (simp add: even_xor_iff) blast
  show ?case
  proof (cases "even i")
    case True
    then have "(i + 1) div 2 = i div 2" by simp
    with div2 odd have "?x div 2 = 0" "odd ?x" by simp_all
    then have "?x = 1" by (metis odd_two_times_div_two_succ mult_zero_right add_0)
    then show ?thesis by (metis power_0)
  next
    case False
    then have next_half: "(i + 1) div 2 = i div 2 + 1" by (auto elim: oddE)
    have "i > 0" using False less.prems by (cases "i = 0") auto
    then have "nat (i div 2) < nat i" and "0 \<le> i div 2" by linarith+
    then obtain k where "gray_encode (i div 2) XOR gray_encode (i div 2 + 1) = 2 ^ k"
      using less.hyps [of "i div 2"] by blast
    with div2 next_half have "?x div 2 = 2 ^ k" by simp
    moreover have "even ?x" using odd next_half by simp
    ultimately have "?x = 2 ^ Suc k" by (metis even_two_times_div_two power_Suc)
    then show ?thesis by blast
  qed
qed

text \<open>
  The Gray code of consecutive non-negative integers differs in exactly one bit, and
  different integers have different codes.
\<close>

theorem gray_encode_correct:
  "(\<exists>k. gray_encode (int m) XOR gray_encode (int m + 1) = 2 ^ k)
   \<and> (gray_encode (int m) = gray_encode (int n) \<longleftrightarrow> m = n)"
  using gray_step [of "int m"] gray_inject [of "int m" "int n"] by auto

text \<open>
  \<^verbatim>\<open>lsb\<close> is the remainder modulo \<open>2^n\<close>, also of negative integers.
\<close>

theorem lsb_mod: "lsb x n = x mod 2 ^ n"
  by (simp add: lsb_def take_bit_eq_mod flip: take_bit_eq_mask mask_eq_exp_minus_1)

section \<open>Counting in binary\<close>

text \<open>
  \<^verbatim>\<open>binary_range\<close> keeps the digits in \<^verbatim>\<open>v\<close>, least significant first, and increments them by
  rippling a carry through \<^verbatim>\<open>toggle\<close>; it stops when the carry leaves the last digit.
\<close>

function ripple :: "nat \<Rightarrow> nat \<Rightarrow> string \<Rightarrow> nat list \<Rightarrow> string \<times> nat list" where
  "ripple bits i v toggle =
     (if i < bits \<and> toggle ! i = 1 then
        (if v ! i = CHR ''0''
         then ripple bits (i + 1) (v[i := CHR ''1'']) (toggle[i + 1 := 0])
         else ripple bits (i + 1) (v[i := CHR ''0'']) (toggle[i + 1 := 1]))
      else (v, toggle))"
  by pat_completeness auto
termination by (relation "measure (\<lambda>(bits, i, v, t). bits - i)") auto

declare ripple.simps [simp del]

fun digits_lsb :: "string \<Rightarrow> nat" where
  "digits_lsb [] = 0"
| "digits_lsb (c # cs) = (if c = CHR ''1'' then 1 else 0) + 2 * digits_lsb cs"

abbreviation fresh_toggle :: "nat \<Rightarrow> nat list" where
  "fresh_toggle bits \<equiv> 1 # replicate bits 0"

lemma digits_lsb_bound: "digits_lsb v < 2 ^ length v"
  by (induction v) auto

lemma digits_lsb_update:
  "i < length v \<Longrightarrow> v ! i \<noteq> CHR ''1'' \<Longrightarrow> digits_lsb (v[i := CHR ''1'']) = digits_lsb v + 2 ^ i"
  "i < length v \<Longrightarrow> v ! i = CHR ''1'' \<Longrightarrow> digits_lsb (v[i := CHR ''0'']) + 2 ^ i = digits_lsb v"
  "i < length v \<Longrightarrow> v ! i \<noteq> CHR ''1'' \<Longrightarrow> digits_lsb (v[i := CHR ''0'']) = digits_lsb v"
  by (induction v arbitrary: i; force simp: nth_Cons split: nat.splits)+

lemma ripple_value:
  assumes "length t = Suc (length v)" and "i \<le> length v" and "t ! i = 1" and "\<forall>k. i < k \<and> k \<le> length v \<longrightarrow> t ! k = 0"
    and "ripple (length v) i v t = (v', t')"
  shows "length v' = length v \<and> set v' \<subseteq> set v \<union> {CHR ''0'', CHR ''1''} \<and>
    digits_lsb v + 2 ^ i \<le> digits_lsb v' + (if t' ! length v = 1 then 2 ^ length v else 0) \<and>
    (set v \<subseteq> {CHR ''0'', CHR ''1''} \<longrightarrow>
      digits_lsb v + 2 ^ i = digits_lsb v' + (if t' ! length v = 1 then 2 ^ length v else 0))"
  using assms
proof (induction "length v - i" arbitrary: i v t rule: less_induct)
  case less
  note run = less.prems(5) [unfolded ripple.simps [of _ i]]
  consider "i = length v" | "i < length v" "v ! i = CHR ''0''" | "i < length v" "v ! i \<noteq> CHR ''0''"
    using less.prems(2) by linarith
  then show ?case
  proof cases
    case 1
    with run less.prems show ?thesis by auto
  next
    case 2
    let ?v = "v[i := CHR ''1'']" and ?t = "t[i + 1 := 0]"
    have stop: "?t ! (i + 1) = 0" using 2 less.prems(1) by simp
    have "ripple (length v) (i + 1) ?v ?t = (?v, ?t)"
      unfolding ripple.simps [of _ "i + 1"] using stop by simp
    then have eq: "v' = ?v" "t' = ?t" using run 2 less.prems by simp_all
    have "t' ! length v = 0" using eq less.prems 2 by (cases "length v = i + 1") auto
    then show ?thesis
      using 2 digits_lsb_update(1) [of i v] set_update_subset_insert [of v i "CHR ''1''"] by (auto simp: eq)
  next
    case 3
    let ?v = "v[i := CHR ''0'']" and ?t = "t[i + 1 := 1]"
    have run': "ripple (length ?v) (i + 1) ?v ?t = (v', t')" using run 3 less.prems by simp
    have ih: "length v' = length ?v \<and> set v' \<subseteq> set ?v \<union> {CHR ''0'', CHR ''1''} \<and>
      digits_lsb ?v + 2 ^ (i + 1) \<le> digits_lsb v' + (if t' ! length v = 1 then 2 ^ length v else 0) \<and>
      (set ?v \<subseteq> {CHR ''0'', CHR ''1''} \<longrightarrow>
        digits_lsb ?v + 2 ^ (i + 1) = digits_lsb v' + (if t' ! length v = 1 then 2 ^ length v else 0))"
      using less.hyps [of ?v "i + 1" ?t] 3 less.prems run' by (auto simp: nth_list_update)
    have sub: "set ?v \<subseteq> set v \<union> {CHR ''0''}" using set_update_subset_insert [of v i] by auto
    have val: "digits_lsb v + 2 ^ i \<le> digits_lsb ?v + 2 ^ (i + 1)"
      using digits_lsb_update(2,3) [of i v] 3 by (cases "v ! i = CHR ''1''") auto
    have "digits_lsb v + 2 ^ i = digits_lsb ?v + 2 ^ (i + 1)" if "set v \<subseteq> {CHR ''0'', CHR ''1''}"
    proof -
      have "v ! i = CHR ''1''" using that 3 nth_mem by blast
      then show ?thesis using digits_lsb_update(2) [of i v] 3 by simp
    qed
    with ih sub val show ?thesis by auto
  qed
qed

lemma ripple_fresh:
  assumes "ripple (length v) 0 v (fresh_toggle (length v)) = (v', t')"
  shows "length v' = length v \<and> set v' \<subseteq> set v \<union> {CHR ''0'', CHR ''1''} \<and>
    digits_lsb v + 1 \<le> digits_lsb v' + (if t' ! length v = 1 then 2 ^ length v else 0) \<and>
    (set v \<subseteq> {CHR ''0'', CHR ''1''} \<longrightarrow>
      digits_lsb v + 1 = digits_lsb v' + (if t' ! length v = 1 then 2 ^ length v else 0))"
proof -
  have "\<forall>k. 0 < k \<and> k \<le> length v \<longrightarrow> fresh_toggle (length v) ! k = 0" by (auto simp: nth_Cons')
  from ripple_value [OF _ _ _ this assms] show ?thesis by simp
qed

function count_up :: "string \<Rightarrow> nat list \<Rightarrow> string list \<Rightarrow> string list" where
  "count_up v toggle l =
     (if toggle ! length v \<noteq> 1 then
        (let (v', toggle') = ripple (length v) 0 v (fresh_toggle (length v))
         in count_up v' toggle' (l @ [rev v]))
      else l)"
  by pat_completeness auto
termination
proof (relation "measure (\<lambda>(v, t, l). if t ! length v = 1 then 0 else Suc (2 ^ length v - digits_lsb v))")
  fix v t l x v' t'
  assume run: "t ! length v \<noteq> (1::nat)" "x = ripple (length v) 0 v (fresh_toggle (length v))" "(v', t') = x"
  from run have ok: "length v' = length v"
    "digits_lsb v + 1 \<le> digits_lsb v' + (if t' ! length v = 1 then 2 ^ length v else 0)"
    using ripple_fresh [of v v' t'] by auto
  with run(1) digits_lsb_bound [of v] digits_lsb_bound [of v']
  show "((v', t', l @ [rev v]), (v, t, l))
      \<in> measure (\<lambda>(v, t, l). if t ! length v = 1 then 0 else Suc (2 ^ length v - digits_lsb v))"
    by auto
qed simp

declare count_up.simps [simp del]

definition binary_range :: "nat \<Rightarrow> string list" where
  "binary_range bits = count_up (replicate bits (CHR ''0'')) (fresh_toggle bits) []"

lemma odd_div_pow_Suc: "odd (n div 2 ^ Suc k) = odd (n div 2 div 2 ^ k)" for n :: nat
  by (simp add: div_mult2_eq)

lemma rev_bits_msb_Suc: "rev (bits_msb (Suc n) i) = bit_char (odd i) # rev (bits_msb n (i div 2))"
  using bits_msb_add [of n 1 i] by (simp add: bits_msb_Suc)

lemma bits_msb_digits_lsb:
  "set v \<subseteq> {CHR ''0'', CHR ''1''} \<Longrightarrow> rev v = bits_msb (length v) (digits_lsb v)"
proof (induction v)
  case (Cons c cs)
  have "bits_msb (Suc (length cs)) (digits_lsb (c # cs))
      = bits_msb (length cs) (digits_lsb (c # cs) div 2) @ [bit_char (odd (digits_lsb (c # cs)))]"
    using arg_cong [OF rev_bits_msb_Suc [of "length cs" "digits_lsb (c # cs)"], of rev] by simp
  with Cons show ?case by (auto simp: bit_char_def)
qed simp

lemma count_up_bits:
  "set v \<subseteq> {CHR ''0'', CHR ''1''} \<Longrightarrow> t ! length v \<noteq> 1 \<Longrightarrow>
     count_up v t l = l @ map (bits_msb (length v)) [digits_lsb v..<2 ^ length v]"
proof (induction v t l rule: count_up.induct)
  case (1 v t l)
  obtain v' t' where run: "ripple (length v) 0 v (fresh_toggle (length v)) = (v', t')" by fastforce
  from ripple_fresh [OF run] "1.prems"(1) have len: "length v' = length v"
    and chars: "set v' \<subseteq> {CHR ''0'', CHR ''1''}"
    and val: "digits_lsb v + 1 = digits_lsb v' + (if t' ! length v = 1 then 2 ^ length v else 0)"
    by auto
  have step: "count_up v t l = count_up v' t' (l @ [rev v])"
    using "1.prems"(2) run by (simp add: count_up.simps [of v])
  have first: "[digits_lsb v..<2 ^ length v] = digits_lsb v # [digits_lsb v + 1..<2 ^ length v]"
    using digits_lsb_bound [of v] by (simp add: upt_conv_Cons)
  show ?case
  proof (cases "t' ! length v = 1")
    case True
    then have "digits_lsb v + 1 = 2 ^ length v" using val digits_lsb_bound [of v] by simp
    then have "map (bits_msb (length v)) [digits_lsb v..<2 ^ length v] = [rev v]"
      using bits_msb_digits_lsb [OF "1.prems"(1)] unfolding first by simp
    moreover have "count_up v' t' (l @ [rev v]) = l @ [rev v]"
      using True len by (simp add: count_up.simps [of v'])
    ultimately show ?thesis unfolding step by simp
  next
    case False
    then have "digits_lsb v' = digits_lsb v + 1" using val by simp
    moreover have "count_up v' t' (l @ [rev v])
        = (l @ [rev v]) @ map (bits_msb (length v')) [digits_lsb v'..<2 ^ length v']"
      using "1.IH" [OF "1.prems"(2) run [symmetric] refl] chars False len by simp
    ultimately show ?thesis
      using bits_msb_digits_lsb [OF "1.prems"(1)] unfolding step first by (simp add: len)
  qed
qed

text \<open>
  For a positive width, \<^verbatim>\<open>binary_range\<close> ends and lists the binary numerals of that width
  of 0, 1, 2, ... in order; for width 0 the list is empty.
\<close>

theorem binary_range_counts:
  "binary_range bits = (if bits = 0 then [] else map (bits_msb bits) [0..<2 ^ bits])"
proof (cases "bits = 0")
  case False
  have "digits_lsb (replicate n (CHR ''0'')) = 0" for n by (induction n) auto
  with False show ?thesis
    using count_up_bits [of "replicate bits (CHR ''0'')" "fresh_toggle bits" "[]"]
    by (simp add: binary_range_def set_replicate_conv_if nth_Cons')
qed (simp add: binary_range_def count_up.simps)

section \<open>Rounding to a grid\<close>

text \<open>
  \<^verbatim>\<open>add_one\<close> is assigned only on some paths; the final line fails with an UnboundLocalError on the
  others. The comparison with \<^verbatim>\<open>grid / 2.0\<close> is exact for integers below \<open>2^53\<close>.
\<close>

definition round_grid :: "int \<Rightarrow> int \<Rightarrow> int \<Rightarrow> py_error + int" where
  "round_grid v grid mode =
     (if grid = 0 then Inl ZeroDivisionError
      else
        let off_grid = v mod grid;
            add_one = (if mode = 0 then Some (if 2 * off_grid \<ge> grid then 1 else 0)
                       else if mode = 1 \<and> off_grid \<noteq> 0 then Some 1
                       else if mode = -1 \<and> off_grid \<noteq> 0 then Some 0
                       else None)
        in case add_one of
             None \<Rightarrow> Inl UnboundLocalError
           | Some a \<Rightarrow> Inr ((v div grid + a) * grid))"

text \<open>
  On a positive grid \<^verbatim>\<open>round_grid\<close> returns, by mode, the nearest multiple (halves up), the next
  multiple above or the next below; with mode 1 or -1 it fails on a value that is already on the
  grid.
\<close>

theorem round_grid_correct:
  assumes "0 < grid"
  shows "(\<exists>k. round_grid v grid 0 = Inr (k * grid) \<and> - grid \<le> 2 * (v - k * grid) \<and> 2 * (v - k * grid) < grid)
    \<and> (if grid dvd v then round_grid v grid 1 = Inl UnboundLocalError \<and> round_grid v grid (-1) = Inl UnboundLocalError
       else (\<exists>k. round_grid v grid 1 = Inr (k * grid) \<and> v < k * grid \<and> k * grid < v + grid)
          \<and> (\<exists>k. round_grid v grid (-1) = Inr (k * grid) \<and> v - grid < k * grid \<and> k * grid < v))"
proof -
  let ?q = "v div grid" and ?r = "v mod grid"
  have v: "v = ?q * grid + ?r" and r: "0 \<le> ?r" "?r < grid" using assms by simp_all
  have pos: "\<not> grid dvd v \<longleftrightarrow> 0 < ?r" using r(1) by (auto simp: dvd_eq_mod_eq_0)
  have up: "(?q + 1) * grid = ?q * grid + grid" by (simp add: distrib_right)
  have "\<exists>k. round_grid v grid 0 = Inr (k * grid) \<and> - grid \<le> 2 * (v - k * grid) \<and> 2 * (v - k * grid) < grid"
  proof (cases "2 * ?r \<ge> grid")
    case True
    then have "round_grid v grid 0 = Inr ((?q + 1) * grid)" using assms by (simp add: round_grid_def)
    moreover have "v - (?q + 1) * grid = ?r - grid" using v up by linarith
    ultimately show ?thesis using True r by (intro exI [of _ "?q + 1"]) simp
  next
    case False
    then have "round_grid v grid 0 = Inr (?q * grid)" using assms by (simp add: round_grid_def)
    moreover have "v - ?q * grid = ?r" using v by linarith
    moreover have "- grid \<le> 2 * ?r" using r assms by linarith
    ultimately show ?thesis using False by (intro exI [of _ ?q]) simp
  qed
  moreover have "\<exists>k. round_grid v grid 1 = Inr (k * grid) \<and> v < k * grid \<and> k * grid < v + grid" if "0 < ?r"
  proof -
    have "round_grid v grid 1 = Inr ((?q + 1) * grid)" using assms that by (simp add: round_grid_def)
    moreover have "v < (?q + 1) * grid" "(?q + 1) * grid < v + grid" using v r up that by linarith+
    ultimately show ?thesis by blast
  qed
  moreover have "\<exists>k. round_grid v grid (-1) = Inr (k * grid) \<and> v - grid < k * grid \<and> k * grid < v" if "0 < ?r"
  proof -
    have "round_grid v grid (-1) = Inr (?q * grid)" using assms that by (simp add: round_grid_def)
    moreover have "v - grid < ?q * grid" "?q * grid < v" using v r that by linarith+
    ultimately show ?thesis by blast
  qed
  moreover have "round_grid v grid 1 = Inl UnboundLocalError \<and> round_grid v grid (-1) = Inl UnboundLocalError"
    if "grid dvd v"
    using that assms by (simp add: round_grid_def)
  ultimately show ?thesis by (simp add: pos)
qed

theorem round_grid_correct_witness:
  "round_grid 10 5 1 = Inl UnboundLocalError
   \<and> (\<exists>k. round_grid 8 5 0 = Inr (k * 5) \<and> - 5 \<le> 2 * (8 - k * 5) \<and> 2 * (8 - k * 5) < 5)"
  using round_grid_correct [of 5 10] round_grid_correct [of 5 8] by simp

end
