(* ===== verification/Topsort.thy ===== *)
theory Topsort
  imports Py_Prelude
begin

text \<open>
  Dependency sorting: \<^verbatim>\<open>topsort\<close>, \<^verbatim>\<open>topsort_levels\<close> and \<^verbatim>\<open>topsort_levels_core\<close> of
  \<^verbatim>\<open>simulation/bindings/python/topsort.py\<close>. The module is Python 2, where the order of
  \<^verbatim>\<open>num_parents.keys()\<close> is arbitrary: it is a parameter of the definitions, a function from the
  dictionary to its keys, about which only the law of \<open>key_order\<close> is assumed.
\<close>

section \<open>Definitions\<close>

text \<open>\<^verbatim>\<open>CycleError(answer, num_parents, children)\<close> and the KeyErrors a lookup can raise.\<close>

datatype 'a topsort_error =
    CycleError "'a list" "('a, int) dict" "('a, 'a list) dict"
  | MissingKey 'a

type_synonym 'a counts = "('a, int) dict"
type_synonym 'a successors = "('a, 'a list) dict"

text \<open>The body of the counting loop, which \<^verbatim>\<open>topsort\<close> and \<^verbatim>\<open>topsort_levels\<close> share.\<close>

definition has_key :: "('k, 'v) dict \<Rightarrow> 'k \<Rightarrow> bool" where
  "has_key d k = (dget d k \<noteq> None)"

definition count_pair :: "'a \<times> 'a \<Rightarrow> 'a counts \<times> 'a successors \<Rightarrow> 'a counts \<times> 'a successors" where
  "count_pair pc st =
     (case (pc, st) of ((parent, child), (num_parents, children)) \<Rightarrow>
        let np1 = (if \<not> has_key num_parents parent then dset parent 0 num_parents else num_parents);
            np2 = (if \<not> has_key np1 child then dset child 0 np1 else np1);
            np3 = dset child (the (dget np2 child) + 1) np2;
            cs = (case dget children parent of None \<Rightarrow> [] | Some l \<Rightarrow> l)
        in (np3, dset parent (cs @ [child]) children))"

definition count_pairs :: "('a \<times> 'a) list \<Rightarrow> 'a counts \<times> 'a successors" where
  "count_pairs pairlist = fold count_pair pairlist ([], [])"

text \<open>The inner loop of \<^verbatim>\<open>topsort\<close>: the new counts and the children that are now free, in order.\<close>

fun knock_down :: "'a list \<Rightarrow> 'a counts \<Rightarrow> 'a topsort_error + 'a counts \<times> 'a list" where
  "knock_down [] np = Inr (np, [])"
| "knock_down (child # rest) np =
     (case dget np child of
        None \<Rightarrow> Inl (MissingKey child)
      | Some n \<Rightarrow>
          res_bind (knock_down rest (dset child (n - 1) np)) (\<lambda>(np', free).
            Inr (np', if n - 1 = 0 then child # free else free)))"

lemma knock_down_length: "knock_down cs np = Inr (np', free) \<Longrightarrow> length np' = length np"
  by (induction cs np arbitrary: np' free rule: knock_down.induct)
    (auto simp: res_bind_eq_Inr length_dset_key split: option.splits)

text \<open>The main loop runs over the answer while it grows: \<open>done\<close> has been passed, \<open>todo\<close> has not.\<close>

function topsort_loop ::
  "'a list \<Rightarrow> 'a list \<Rightarrow> 'a counts \<Rightarrow> 'a successors \<Rightarrow> 'a topsort_error + 'a list \<times> 'a counts \<times> 'a successors" where
  "topsort_loop passed [] np ch = Inr (passed, np, ch)"
| "topsort_loop passed (parent # todo) np ch =
     (if \<not> has_key np parent then Inl (MissingKey parent)
      else
        (let np1 = ddel parent np in
         case dget ch parent of
           None \<Rightarrow> topsort_loop (passed @ [parent]) todo np1 ch
         | Some cs \<Rightarrow>
             res_bind (knock_down cs np1) (\<lambda>r.
               topsort_loop (passed @ [parent]) (todo @ snd r) (fst r) (ddel parent ch))))"
  by pat_completeness auto
termination
  by (relation "measure (\<lambda>(p, t, np, ch). length np)")
    (auto simp: has_key_def length_ddel dest!: knock_down_length)

definition topsort :: "('a counts \<Rightarrow> 'a list) \<Rightarrow> ('a \<times> 'a) list \<Rightarrow> 'a topsort_error + 'a list" where
  "topsort keys pairlist =
     (case count_pairs pairlist of (num_parents, children) \<Rightarrow>
        let answer = filter (\<lambda>x. dget num_parents x = Some 0) (keys num_parents)
        in res_bind (topsort_loop [] answer num_parents children) (\<lambda>(answer, np, ch).
             if np \<noteq> [] then Inl (CycleError answer np ch) else Inr answer))"

text \<open>
  The generator \<^verbatim>\<open>topsort_levels_core\<close>: the levels it yields and how it ends, by
  \<^verbatim>\<open>StopIteration\<close> (\<open>Inr ()\<close>) or an error. It changes the dictionaries of its caller.
\<close>

fun lower_children :: "'a list \<Rightarrow> 'a counts \<Rightarrow> 'a topsort_error + 'a counts" where
  "lower_children [] np = Inr np"
| "lower_children (child # rest) np =
     (case dget np child of
        None \<Rightarrow> Inl (MissingKey child)
      | Some n \<Rightarrow> lower_children rest (dset child (n - 1) np))"

fun drop_level ::
  "'a list \<Rightarrow> 'a counts \<Rightarrow> 'a successors \<Rightarrow> 'a topsort_error + 'a counts \<times> 'a successors" where
  "drop_level [] np ch = Inr (np, ch)"
| "drop_level (level_parent # rest) np ch =
     (if \<not> has_key np level_parent then Inl (MissingKey level_parent)
      else
        (let np1 = ddel level_parent np in
         case dget ch level_parent of
           None \<Rightarrow> drop_level rest np1 ch
         | Some cs \<Rightarrow> res_bind (lower_children cs np1) (\<lambda>np2. drop_level rest np2 (ddel level_parent ch))))"

lemma lower_children_length: "lower_children cs np = Inr np' \<Longrightarrow> length np' = length np"
  by (induction cs np rule: lower_children.induct) (auto simp: length_dset_key split: option.splits)

lemma drop_level_length:
  "drop_level ps np ch = Inr (np', ch') \<Longrightarrow> length np' \<le> length np \<and> (ps \<noteq> [] \<longrightarrow> length np' < length np)"
proof (induction ps np ch rule: drop_level.induct)
  case (2 p ps np ch)
  then have key: "dget np p \<noteq> None" by (auto simp: has_key_def split: if_splits)
  have "length np' \<le> length (ddel p np)"
  proof (cases "dget ch p")
    case None
    with 2 key show ?thesis by (auto simp: has_key_def Let_def)
  next
    case (Some cs)
    with "2.prems" key obtain np2 where "lower_children cs (ddel p np) = Inr np2"
      and "drop_level ps np2 (ddel p ch) = Inr (np', ch')"
      by (auto simp: has_key_def Let_def res_bind_eq_Inr)
    with "2.IH"(2) key Some lower_children_length show ?thesis by (fastforce simp: has_key_def)
  qed
  with length_ddel [OF key] show ?case by simp
qed simp

function topsort_levels_core ::
  "('a counts \<Rightarrow> 'a list) \<Rightarrow> 'a counts \<Rightarrow> 'a successors \<Rightarrow> 'a list list \<times> ('a topsort_error + unit)" where
  "topsort_levels_core keys np ch =
     (let level_parents = filter (\<lambda>x. dget np x = Some 0) (keys np)
      in if level_parents = [] then
           ([], if np \<noteq> [] then Inl (CycleError [] np ch) else Inr ())
         else
           (case drop_level level_parents np ch of
              Inl e \<Rightarrow> ([level_parents], Inl e)
            | Inr r \<Rightarrow>
                (case topsort_levels_core keys (fst r) (snd r) of
                   (levels, outcome) \<Rightarrow> (level_parents # levels, outcome))))"
  by pat_completeness auto
termination
  by (relation "measure (\<lambda>(k, np, ch). length np)") (auto dest!: drop_level_length)

declare topsort_levels_core.simps [simp del]

definition topsort_levels :: "('a counts \<Rightarrow> 'a list) \<Rightarrow> ('a \<times> 'a) list \<Rightarrow> 'a list list \<times> ('a topsort_error + unit)" where
  "topsort_levels keys pairlist =
     (case count_pairs pairlist of (num_parents, children) \<Rightarrow> topsort_levels_core keys num_parents children)"

section \<open>The order of the keys of a dictionary\<close>

text \<open>What the code relies on: \<^verbatim>\<open>d.keys()\<close> lists every key once.\<close>

locale key_order =
  fixes keys :: "('a \<times> int) list \<Rightarrow> 'a list"
  assumes set_keys: "set (keys d) = fst ` set d"
    and distinct_keys: "distinct (dkeys d) \<Longrightarrow> distinct (keys d)"

interpretation insertion_order: key_order dkeys
  by unfold_locales simp_all

section \<open>Dependencies\<close>

definition nodes_of :: "('a \<times> 'a) list \<Rightarrow> 'a set" where
  "nodes_of ps = fst ` set ps \<union> snd ` set ps"

text \<open>How many pairs still hold \<open>x\<close> back when the nodes of \<open>D\<close> are removed, and who is free.\<close>

definition pending :: "('a \<times> 'a) list \<Rightarrow> 'a set \<Rightarrow> 'a \<Rightarrow> nat" where
  "pending ps D x = length (filter (\<lambda>(p, c). c = x \<and> p \<notin> D) ps)"

definition succs :: "('a \<times> 'a) list \<Rightarrow> 'a \<Rightarrow> 'a list" where
  "succs ps p = map snd (filter (\<lambda>(q, c). q = p) ps)"

definition ready :: "('a \<times> 'a) list \<Rightarrow> 'a set \<Rightarrow> 'a set" where
  "ready ps D = {x \<in> nodes_of ps - D. \<forall>(p, c) \<in> set ps. c = x \<longrightarrow> p \<in> D}"

definition pred_closed :: "('a \<times> 'a) list \<Rightarrow> 'a set \<Rightarrow> bool" where
  "pred_closed ps D \<longleftrightarrow> (\<forall>(p, c) \<in> set ps. c \<in> D \<longrightarrow> p \<in> D)"

definition state_ok :: "('a \<times> 'a) list \<Rightarrow> 'a set \<Rightarrow> 'a counts \<Rightarrow> 'a successors \<Rightarrow> bool" where
  "state_ok ps D np ch \<longleftrightarrow>
     distinct (dkeys np) \<and> pred_closed ps D \<and>
     dget np = (\<lambda>x. if x \<in> nodes_of ps - D then Some (int (pending ps D x)) else None) \<and>
     dget ch = (\<lambda>p. if p \<in> fst ` set ps - D then Some (succs ps p) else None)"

lemma pending_0_iff: "pending ps D x = 0 \<longleftrightarrow> (\<forall>(p, c) \<in> set ps. c = x \<longrightarrow> p \<in> D)"
  by (auto simp: pending_def filter_empty_conv)

lemma ready_iff: "x \<in> ready ps D \<longleftrightarrow> x \<in> nodes_of ps - D \<and> pending ps D x = 0"
  by (auto simp: ready_def pending_0_iff)

lemma pending_insert: "p \<notin> D \<Longrightarrow> pending ps D x = pending ps (insert p D) x + count_list (succs ps p) x"
  by (induction ps) (auto simp: pending_def succs_def)

lemma pending_mono: "D \<subseteq> D' \<Longrightarrow> pending ps D x = 0 \<Longrightarrow> pending ps D' x = 0"
  by (auto simp: pending_0_iff)

lemma succs_ready:
  assumes "p \<in> ready ps D" and "pred_closed ps D" and "c \<in> set (succs ps p)"
  shows "c \<in> nodes_of ps" and "c \<notin> insert p D"
  using assms by (auto simp: ready_def succs_def nodes_of_def pred_closed_def)

lemma pred_closed_insert: "p \<in> ready ps D \<Longrightarrow> pred_closed ps D \<Longrightarrow> pred_closed ps (insert p D)"
  by (auto simp: pred_closed_def ready_def)

text \<open>What the counting loop builds.\<close>

lemma nodes_snoc: "nodes_of (ps @ [(p, c)]) = nodes_of ps \<union> {p, c}"
  by (auto simp: nodes_of_def)

lemma pending_snoc: "pending (ps @ [(p, c)]) {} x = pending ps {} x + (if x = c then 1 else 0)"
  by (simp add: pending_def)

lemma pending_outside: "x \<notin> nodes_of ps \<Longrightarrow> pending ps D x = 0"
  by (force simp: pending_0_iff nodes_of_def)

lemma count_pairs_snoc: "count_pairs (ps @ [pc]) = count_pair pc (count_pairs ps)"
  by (simp add: count_pairs_def)

lemma count_pairs_ok: "count_pairs ps = (np, ch) \<Longrightarrow> state_ok ps {} np ch"
proof (induction ps arbitrary: np ch rule: rev_induct)
  case Nil
  then show ?case by (simp add: count_pairs_def state_ok_def nodes_of_def pred_closed_def fun_eq_iff)
next
  case (snoc pc ps)
  obtain p c where pc: "pc = (p, c)" by fastforce
  obtain np0 ch0 where old: "count_pairs ps = (np0, ch0)" by fastforce
  note ok = snoc.IH [OF old, unfolded state_ok_def]
  let ?np1 = "if \<not> has_key np0 p then dset p 0 np0 else np0"
  let ?np2 = "if \<not> has_key ?np1 c then dset c 0 ?np1 else ?np1"
  have np: "np = dset c (the (dget ?np2 c) + 1) ?np2"
    and ch: "ch = dset p ((case dget ch0 p of None \<Rightarrow> [] | Some l \<Rightarrow> l) @ [c]) ch0"
    using snoc.prems unfolding count_pairs_snoc old by (simp_all add: count_pair_def pc Let_def)
  have np2: "dget ?np2 x = (case dget np0 x of Some n \<Rightarrow> Some n | None \<Rightarrow> if x = p \<or> x = c then Some 0 else None)" for x
    by (auto simp: has_key_def split: option.split)
  have counts: "dget np = (\<lambda>x. if x \<in> nodes_of (ps @ [pc]) then Some (int (pending (ps @ [pc]) {} x)) else None)"
  proof
    fix x
    have "dget np x = (if x = c then Some (the (dget ?np2 c) + 1) else dget ?np2 x)"
      unfolding np by simp
    then show "dget np x = (if x \<in> nodes_of (ps @ [pc]) then Some (int (pending (ps @ [pc]) {} x)) else None)"
      using ok unfolding np2 pc nodes_snoc pending_snoc by (auto simp: pending_outside)
  qed
  have children: "dget ch = (\<lambda>q. if q \<in> fst ` set (ps @ [pc]) then Some (succs (ps @ [pc]) q) else None)"
    using ok unfolding ch
    by (auto simp: fun_eq_iff pc succs_def filter_empty_conv image_iff split: if_splits)
  have "distinct (dkeys np)" using ok by (auto simp: np)
  with counts children show ?case by (simp add: state_ok_def pred_closed_def)
qed

section \<open>Removing a node\<close>

text \<open>Both loops over the children lower each count by the number of times the child occurs.\<close>

lemma knock_down_spec:
  assumes "set cs \<subseteq> set (dkeys np)"
  shows "\<exists>np' free. knock_down cs np = Inr (np', free) \<and> lower_children cs np = Inr np'
    \<and> dkeys np' = dkeys np
    \<and> (\<forall>x. dget np' x = map_option (\<lambda>n. n - int (count_list cs x)) (dget np x))"
  using assms
proof (induction cs arbitrary: np)
  case (Cons c cs)
  then obtain n where n: "dget np c = Some n" using dget_key_Some [of c np] by auto
  have keys: "dkeys (dset c (n - 1) np) = dkeys np"
    using n by (auto simp: dkeys_dset dest: dget_Some_key)
  with Cons.prems have "set cs \<subseteq> set (dkeys (dset c (n - 1) np))" by simp
  from Cons.IH [OF this] obtain np' free where
    run: "knock_down cs (dset c (n - 1) np) = Inr (np', free)" "lower_children cs (dset c (n - 1) np) = Inr np'"
    and keys': "dkeys np' = dkeys (dset c (n - 1) np)"
    and get: "\<And>x. dget np' x = map_option (\<lambda>n. n - int (count_list cs x)) (dget (dset c (n - 1) np) x)"
    by blast
  have "dget np' x = map_option (\<lambda>n. n - int (count_list (c # cs) x)) (dget np x)" for x
    using n by (auto simp: get)
  with run keys keys' n show ?case by simp
qed (simp add: option.map_ident)

lemma knock_down_free:
  assumes "knock_down cs np = Inr (np', free)" and "\<And>x n. dget np x = Some n \<Longrightarrow> int (count_list cs x) \<le> n"
  shows "distinct free \<and> (\<forall>x. x \<in> set free \<longleftrightarrow> x \<in> set cs \<and> dget np x = Some (int (count_list cs x)))"
  using assms
proof (induction cs arbitrary: np np' free)
  case (Cons c cs)
  from Cons.prems(1) obtain n free' where n: "dget np c = Some n"
    and run: "knock_down cs (dset c (n - 1) np) = Inr (np', free')"
    and free: "free = (if n - 1 = 0 then c # free' else free')"
    by (auto simp: res_bind_eq_Inr split: option.splits)
  have "int (count_list cs x) \<le> m" if "dget (dset c (n - 1) np) x = Some m" for x m
    using that Cons.prems(2) [of x] n by (auto split: if_splits)
  from Cons.IH [OF run this] have ih: "distinct free'"
    "\<And>x. x \<in> set free' \<longleftrightarrow> x \<in> set cs \<and> dget (dset c (n - 1) np) x = Some (int (count_list cs x))"
    by blast+
  have c: "c \<notin> set free'" if "n = 1"
    using that Cons.prems(2) [OF n] by (auto simp: ih(2) count_list_0_iff)
  have "n = 1 + int (count_list cs c) \<longleftrightarrow> c \<in> set cs \<and> n - 1 = int (count_list cs c) \<or> n = 1"
    if "1 + int (count_list cs c) \<le> n"
    using that by (cases "c \<in> set cs") (auto simp: count_list_0_iff)
  with ih c free n Cons.prems(2) [OF n] show ?case by (auto split: if_splits)
qed simp

text \<open>Removing a free node keeps the state in step; the nodes this sets free are the new free ones.\<close>

lemma ready_insert:
  assumes "p \<in> ready ps D" and "pred_closed ps D"
  shows "ready ps (insert p D) =
     (ready ps D - {p}) \<union> {x \<in> set (succs ps p). pending ps D x = count_list (succs ps p) x}"
proof -
  have pD: "p \<notin> D" using assms(1) by (simp add: ready_def)
  have eq: "pending ps (insert p D) x = 0 \<longleftrightarrow> pending ps D x = count_list (succs ps p) x" for x
    using pending_insert [OF pD, of ps x] by auto
  have "x \<in> ready ps (insert p D) \<longleftrightarrow>
      x \<in> ready ps D - {p} \<or> x \<in> set (succs ps p) \<and> pending ps D x = count_list (succs ps p) x" for x
  proof (cases "x \<in> set (succs ps p)")
    case True
    then have "pending ps D x \<noteq> 0"
      using pending_insert [OF pD, of ps x] by (auto simp: count_list_0_iff)
    with True succs_ready [OF assms True] show ?thesis by (simp add: ready_iff eq)
  next
    case False
    then show ?thesis by (auto simp: ready_iff eq count_list_0_iff)
  qed
  then show ?thesis by blast
qed

lemma remove_ready:
  assumes ok: "state_ok ps D np ch" and p: "p \<in> ready ps D"
  shows "has_key np p"
    and "dget ch p = None \<Longrightarrow> state_ok ps (insert p D) (ddel p np) ch \<and> ready ps (insert p D) = ready ps D - {p}"
    and "dget ch p = Some cs \<Longrightarrow> \<exists>np' free.
      knock_down cs (ddel p np) = Inr (np', free) \<and> lower_children cs (ddel p np) = Inr np'
      \<and> state_ok ps (insert p D) np' (ddel p ch) \<and> distinct free
      \<and> ready ps (insert p D) = (ready ps D - {p}) \<union> set free \<and> set free \<inter> ready ps D = {}"
proof -
  note st = ok [unfolded state_ok_def]
  have pD: "p \<in> nodes_of ps" "p \<notin> D" using p by (auto simp: ready_def)
  show "has_key np p" using st pD by (simp add: has_key_def)
  have closed: "pred_closed ps (insert p D)" using p st by (blast intro: pred_closed_insert)
  have del: "dget (ddel p np) x = (if x \<in> nodes_of ps - insert p D then Some (int (pending ps D x)) else None)" for x
    using st by auto
  {
    assume None: "dget ch p = None"
    then have "p \<notin> fst ` set ps" using st pD by (auto split: if_splits)
    then have leaf: "succs ps p = []" by (force simp: succs_def filter_empty_conv)
    then have same: "pending ps (insert p D) = pending ps D" using pending_insert [OF pD(2), of ps] by auto
    have "dget ch = (\<lambda>q. if q \<in> fst ` set ps - insert p D then Some (succs ps q) else None)"
      using st None by (auto simp: fun_eq_iff split: if_splits)
    then show "state_ok ps (insert p D) (ddel p np) ch \<and> ready ps (insert p D) = ready ps D - {p}"
      using st closed del ready_insert [OF p] leaf by (auto simp: state_ok_def same fun_eq_iff)
  next
    assume Some: "dget ch p = Some cs"
    then have cs: "cs = succs ps p" using st by (auto split: if_splits)
    have keys: "set cs \<subseteq> set (dkeys (ddel p np))"
    proof
      fix c assume "c \<in> set cs"
      then have "dget (ddel p np) c \<noteq> None"
        using succs_ready [OF p _, of c] st cs del [of c] by auto
      then show "c \<in> set (dkeys (ddel p np))" by (metis dget_None_iff)
    qed
    obtain np' free where run: "knock_down cs (ddel p np) = Inr (np', free)" "lower_children cs (ddel p np) = Inr np'"
      and dk: "dkeys np' = dkeys (ddel p np)"
      and get: "\<And>x. dget np' x = map_option (\<lambda>n. n - int (count_list cs x)) (dget (ddel p np) x)"
      using knock_down_spec [OF keys] by blast
    have "int (count_list cs x) \<le> n" if "dget (ddel p np) x = Some n" for x n
      using that del [of x] pending_insert [OF pD(2), of ps x] cs by (auto split: if_splits)
    from knock_down_free [OF run(1) this] have dist: "distinct free"
      and free: "\<And>x. x \<in> set free \<longleftrightarrow> x \<in> set cs \<and> dget (ddel p np) x = Some (int (count_list cs x))"
      by blast+
    have np': "dget np' = (\<lambda>x. if x \<in> nodes_of ps - insert p D then Some (int (pending ps (insert p D) x)) else None)"
      using pending_insert [OF pD(2), of ps] by (auto simp: fun_eq_iff get del cs simp del: dget_ddel)
    have ch': "dget (ddel p ch) = (\<lambda>q. if q \<in> fst ` set ps - insert p D then Some (succs ps q) else None)"
      using st by (auto simp: fun_eq_iff)
    have set_free: "set free = {x \<in> set (succs ps p). pending ps D x = count_list (succs ps p) x}"
      using succs_ready [OF p] st by (auto simp: free del cs simp del: dget_ddel split: if_splits)
    have "distinct (dkeys np')" using st dk by simp
    moreover have "set free \<inter> ready ps D = {}"
      by (auto simp: set_free ready_iff) (metis count_list_0_iff)
    ultimately show "\<exists>np' free.
      knock_down cs (ddel p np) = Inr (np', free) \<and> lower_children cs (ddel p np) = Inr np'
      \<and> state_ok ps (insert p D) np' (ddel p ch) \<and> distinct free
      \<and> ready ps (insert p D) = (ready ps D - {p}) \<union> set free \<and> set free \<inter> ready ps D = {}"
      using run dist np' ch' closed ready_insert [OF p] set_free st
      by (intro exI [of _ np'] exI [of _ free]) (simp add: state_ok_def)
  }
qed

section \<open>Sorting\<close>

text \<open>Parents stand before their children.\<close>

definition dep_sorted :: "('a \<times> 'a) list \<Rightarrow> 'a list \<Rightarrow> bool" where
  "dep_sorted ps xs \<longleftrightarrow>
     (\<forall>(p, c) \<in> set ps. c \<in> set xs \<longrightarrow> (\<exists>i j. i < j \<and> j < length xs \<and> xs ! i = p \<and> xs ! j = c))"

lemma dep_sorted_snoc:
  assumes "dep_sorted ps xs" and "\<forall>(p, c) \<in> set ps. c = x \<longrightarrow> p \<in> set xs"
  shows "dep_sorted ps (xs @ [x])"
  unfolding dep_sorted_def
proof (clarify)
  fix p c assume pc: "(p, c) \<in> set ps" and c: "c \<in> set (xs @ [x])"
  show "\<exists>i j. i < j \<and> j < length (xs @ [x]) \<and> (xs @ [x]) ! i = p \<and> (xs @ [x]) ! j = c"
  proof (cases "c = x")
    case True
    then have "p \<in> set xs" using assms(2) pc by auto
    then obtain i where "i < length xs" "xs ! i = p" by (auto simp: in_set_conv_nth)
    with True show ?thesis by (intro exI [of _ i] exI [of _ "length xs"]) (simp add: nth_append)
  next
    case False
    then obtain i j where "i < j" "j < length xs" "xs ! i = p" "xs ! j = c"
      using assms(1) pc c by (auto simp: dep_sorted_def)
    then show ?thesis by (intro exI [of _ i] exI [of _ j]) (simp add: nth_append)
  qed
qed

definition loop_ok :: "('a \<times> 'a) list \<Rightarrow> 'a list \<Rightarrow> 'a list \<Rightarrow> 'a counts \<Rightarrow> 'a successors \<Rightarrow> bool" where
  "loop_ok ps passed todo np ch \<longleftrightarrow>
     state_ok ps (set passed) np ch \<and> distinct (passed @ todo) \<and> set todo = ready ps (set passed)
     \<and> set passed \<subseteq> nodes_of ps \<and> dep_sorted ps passed"

lemma loop_step:
  assumes "loop_ok ps passed (p # todo) np ch" and "state_ok ps (insert p (set passed)) np' ch'"
    and "distinct free" and "ready ps (insert p (set passed)) = (ready ps (set passed) - {p}) \<union> set free"
    and "set free \<inter> ready ps (set passed) = {}"
  shows "loop_ok ps (passed @ [p]) (todo @ free) np' ch'"
proof -
  have p: "p \<in> ready ps (set passed)" and todo: "insert p (set todo) = ready ps (set passed)"
    using assms(1) by (auto simp: loop_ok_def)
  have "dep_sorted ps (passed @ [p])"
    using assms(1) p by (intro dep_sorted_snoc) (auto simp: loop_ok_def ready_def)
  moreover have "set free \<subseteq> ready ps (insert p (set passed))" using assms(4) by blast
  then have "set free \<inter> insert p (set passed) = {}" by (auto simp: ready_def)
  moreover have todo': "set (todo @ free) = ready ps (insert p (set passed))"
    using assms(1) todo unfolding assms(4) by (auto simp: loop_ok_def)
  moreover have "distinct (passed @ [p] @ todo @ free)"
    using assms(1,3,5) todo \<open>set free \<inter> insert p (set passed) = {}\<close> by (auto simp: loop_ok_def)
  moreover have "p \<in> nodes_of ps" using p by (simp add: ready_def)
  ultimately show ?thesis
    using assms(1,2) by (simp add: loop_ok_def)
qed

lemma topsort_loop_ok:
  "loop_ok ps passed todo np ch \<Longrightarrow>
     \<exists>answer np' ch'. topsort_loop passed todo np ch = Inr (answer, np', ch') \<and> loop_ok ps answer [] np' ch'"
proof (induction passed todo np ch rule: topsort_loop.induct)
  case (2 passed p todo np ch)
  have ok: "state_ok ps (set passed) np ch" and p: "p \<in> ready ps (set passed)"
    using "2.prems" by (auto simp: loop_ok_def)
  note key = remove_ready(1) [OF ok p]
  show ?case
  proof (cases "dget ch p")
    case None
    from remove_ready(2) [OF ok p None] "2.prems"
    have "loop_ok ps (passed @ [p]) (todo @ []) (ddel p np) ch"
      by (intro loop_step) auto
    with "2.IH"(1) key None show ?thesis by simp
  next
    case (Some cs)
    from remove_ready(3) [OF ok p Some] obtain np' free where run: "knock_down cs (ddel p np) = Inr (np', free)"
      and next_ok: "state_ok ps (insert p (set passed)) np' (ddel p ch)" "distinct free"
        "ready ps (insert p (set passed)) = (ready ps (set passed) - {p}) \<union> set free"
        "set free \<inter> ready ps (set passed) = {}"
      by blast
    have "loop_ok ps (passed @ [p]) (todo @ free) np' (ddel p ch)"
      using "2.prems" next_ok by (rule loop_step)
    with "2.IH"(2) [OF _ refl Some run] key run Some show ?thesis by simp
  qed
qed simp

text \<open>A set of nodes each held back by another of them contains a cycle.\<close>

lemma no_source_cyclic:
  assumes "R \<noteq> {}" and "\<And>x. x \<in> R \<Longrightarrow> \<exists>q \<in> R. (q, x) \<in> set ps"
  shows "\<not> acyclic (set ps)"
proof
  assume "acyclic (set ps)"
  then have "wf (set ps)" by (simp add: finite_acyclic_wf)
  with assms(1) obtain x where "x \<in> R" "\<forall>q. (q, x) \<in> set ps \<longrightarrow> q \<notin> R"
    by (metis wfE_min ex_in_conv)
  with assms(2) show False by blast
qed

lemma blocked_parent:
  assumes "ready ps D = {}" and "x \<in> nodes_of ps - D"
  shows "\<exists>q \<in> nodes_of ps - D. (q, x) \<in> set ps"
proof -
  from assms have "x \<notin> ready ps D" by simp
  with assms(2) obtain q where q: "(q, x) \<in> set ps" "q \<notin> D" by (auto simp: ready_def)
  then have "q \<in> nodes_of ps" by (force simp: nodes_of_def)
  with q show ?thesis by blast
qed

lemma sorted_acyclic:
  assumes "dep_sorted ps xs" and "distinct xs" and "nodes_of ps \<subseteq> set xs"
  shows "acyclic (set ps)"
proof -
  define idx where "idx x = (THE i. i < length xs \<and> xs ! i = x)" for x
  have idx: "idx (xs ! i) = i" if "i < length xs" for i
    unfolding idx_def using that assms(2) by (auto simp: nth_eq_iff_index_eq)
  have "set ps \<subseteq> measure idx"
  proof
    fix e assume e: "e \<in> set ps"
    obtain p c where pc: "e = (p, c)" by fastforce
    have "c \<in> set xs" using e pc assms(3) by (force simp: nodes_of_def)
    with e pc assms(1) obtain i j where "i < j" "j < length xs" "xs ! i = p" "xs ! j = c"
      by (auto simp: dep_sorted_def)
    with idx [of i] idx [of j] show "e \<in> measure idx" by (auto simp: pc)
  qed
  then show ?thesis by (meson acyclic_subset wf_acyclic wf_measure)
qed

lemma free_nodes_ready:
  assumes "key_order keys" and "state_ok ps D np ch"
  shows "distinct (filter (\<lambda>x. dget np x = Some 0) (keys np))
    \<and> set (filter (\<lambda>x. dget np x = Some 0) (keys np)) = ready ps D"
proof -
  have keys: "set (keys np) = fst ` set np" "distinct (keys np)"
    using key_order.set_keys [OF assms(1)] key_order.distinct_keys [OF assms(1)] assms(2)
    by (auto simp: state_ok_def)
  moreover have "x \<in> fst ` set np" if "dget np x = Some 0" for x
    using dget_Some_key [OF that] by simp
  ultimately show ?thesis
    using assms(2) by (auto simp: state_ok_def ready_iff split: if_splits)
qed

lemma remaining_keys: "state_ok ps D np ch \<Longrightarrow> set (dkeys np) = nodes_of ps - D"
proof (rule set_eqI)
  fix x assume "state_ok ps D np ch"
  then show "x \<in> set (dkeys np) \<longleftrightarrow> x \<in> nodes_of ps - D"
    using dget_None_iff [of np x] by (simp add: state_ok_def del: set_map split: if_splits)
qed

lemma topsort_run:
  assumes "key_order keys"
  obtains answer np ch where "loop_ok ps answer [] np ch"
    and "topsort keys ps = (if np \<noteq> [] then Inl (CycleError answer np ch) else Inr answer)"
    and "ready ps (set answer) = {}" and "set (dkeys np) = nodes_of ps - set answer"
proof -
  obtain np ch where start: "count_pairs ps = (np, ch)" by fastforce
  note ok = count_pairs_ok [OF start]
  have "loop_ok ps [] (filter (\<lambda>x. dget np x = Some 0) (keys np)) np ch"
    using free_nodes_ready [OF assms ok] ok by (simp add: loop_ok_def dep_sorted_def)
  from topsort_loop_ok [OF this] obtain answer np' ch' where
    run: "topsort_loop [] (filter (\<lambda>x. dget np x = Some 0) (keys np)) np ch = Inr (answer, np', ch')"
    and fin: "loop_ok ps answer [] np' ch'" by blast
  have "topsort keys ps = (if np' \<noteq> [] then Inl (CycleError answer np' ch') else Inr answer)"
    by (simp add: topsort_def start run Let_def)
  moreover from fin have "state_ok ps (set answer) np' ch'" and "ready ps (set answer) = {}"
    by (auto simp: loop_ok_def)
  ultimately show thesis using fin remaining_keys by (intro that)
qed

lemma topsort_answer:
  assumes "key_order keys" and "topsort keys ps = Inr answer"
  shows "distinct answer" and "set answer = nodes_of ps"
    and "(p, c) \<in> set ps \<Longrightarrow> \<exists>i j. i < j \<and> j < length answer \<and> answer ! i = p \<and> answer ! j = c"
proof -
  obtain answer' np ch where fin: "loop_ok ps answer' [] np ch"
    and result: "topsort keys ps = (if np \<noteq> [] then Inl (CycleError answer' np ch) else Inr answer')"
    and rest: "set (dkeys np) = nodes_of ps - set answer'"
    using assms(1) by (rule topsort_run)
  with assms(2) have run: "answer' = answer" "np = []" by (auto split: if_splits)
  with fin rest show all: "set answer = nodes_of ps" and "distinct answer" by (auto simp: loop_ok_def)
  assume "(p, c) \<in> set ps"
  moreover from this have "c \<in> set answer" unfolding all by (force simp: nodes_of_def)
  ultimately show "\<exists>i j. i < j \<and> j < length answer \<and> answer ! i = p \<and> answer ! j = c"
    using fin run by (auto simp: loop_ok_def dep_sorted_def)
qed

text \<open>
  Claim C14. \<^verbatim>\<open>topsort\<close>, for any order in which the dictionary lists its keys: when it returns, the
  answer lists every element of the pairs exactly once with every parent before its children; when
  it raises, the error is the CycleError, whose remaining elements each have a remaining parent, and
  never a KeyError.
\<close>

theorem topsort_correct:
  assumes "key_order keys"
  shows "(case topsort keys ps of
      Inr answer \<Rightarrow> distinct answer \<and> set answer = nodes_of ps \<and>
        (\<forall>(p, c) \<in> set ps. \<exists>i j. i < j \<and> j < length answer \<and> answer ! i = p \<and> answer ! j = c)
    | Inl (CycleError answer np ch) \<Rightarrow> dkeys np \<noteq> [] \<and> set (dkeys np) = nodes_of ps - set answer \<and>
        (\<forall>x \<in> set (dkeys np). \<exists>q \<in> set (dkeys np). (q, x) \<in> set ps)
    | Inl (MissingKey k) \<Rightarrow> False)"
proof -
  obtain answer np ch where fin: "loop_ok ps answer [] np ch"
    and result: "topsort keys ps = (if np \<noteq> [] then Inl (CycleError answer np ch) else Inr answer)"
    and none: "ready ps (set answer) = {}" and rest: "set (dkeys np) = nodes_of ps - set answer"
    using assms by (rule topsort_run)
  show ?thesis
  proof (cases "np = []")
    case True
    then show ?thesis using topsort_answer [OF assms, of ps answer] by (auto simp: result)
  next
    case False
    have "\<forall>x \<in> set (dkeys np). \<exists>q \<in> set (dkeys np). (q, x) \<in> set ps"
      unfolding rest using blocked_parent [OF none] by blast
    then show ?thesis using False rest by (simp add: result del: set_map)
  qed
qed

theorem topsort_correct_witness:
  "(case topsort dkeys [(1::nat, 2), (2, 3)] of
      Inr answer \<Rightarrow> distinct answer \<and> set answer = nodes_of [(1, 2), (2, 3)]
    | Inl (CycleError answer np ch) \<Rightarrow> dkeys np \<noteq> []
    | Inl (MissingKey k) \<Rightarrow> False)"
  using topsort_correct [OF insertion_order.key_order_axioms, of "[(1::nat, 2), (2, 3)]"]
  by (auto split: sum.splits topsort_error.splits)



section \<open>Levels\<close>

lemma drop_level_ok:
  "state_ok ps D np ch \<Longrightarrow> set level \<subseteq> ready ps D \<Longrightarrow> distinct level \<Longrightarrow>
     \<exists>np' ch'. drop_level level np ch = Inr (np', ch') \<and> state_ok ps (D \<union> set level) np' ch'"
proof (induction level np ch arbitrary: D rule: drop_level.induct)
  case (2 p level np ch)
  then have p: "p \<in> ready ps D" by simp
  note key = remove_ready(1) [OF "2.prems"(1) p]
  have rest: "set level \<subseteq> ready ps (insert p D)"
    using "2.prems"(2,3) pending_mono [of D "insert p D" ps] by (auto simp: ready_iff subset_insertI)
  show ?case
  proof (cases "dget ch p")
    case None
    from remove_ready(2) [OF "2.prems"(1) p None] "2.IH"(1) [of _ "insert p D"] rest "2.prems"(3) key None
    show ?thesis by (simp add: Let_def)
  next
    case (Some cs)
    from remove_ready(3) [OF "2.prems"(1) p Some] obtain np' where
      run: "lower_children cs (ddel p np) = Inr np'" and ok: "state_ok ps (insert p D) np' (ddel p ch)"
      by blast
    from "2.IH"(2) [OF _ refl Some run ok rest] "2.prems"(3) key run Some show ?thesis
      by (simp add: Let_def)
  qed
qed simp

fun levels_ok :: "('a \<times> 'a) list \<Rightarrow> 'a set \<Rightarrow> 'a list list \<Rightarrow> bool" where
  "levels_ok ps D [] \<longleftrightarrow> ready ps D = {}"
| "levels_ok ps D (level # levels) \<longleftrightarrow>
     level \<noteq> [] \<and> distinct level \<and> set level = ready ps D \<and> levels_ok ps (D \<union> set level) levels"

lemma topsort_levels_core_ok:
  "key_order keys \<Longrightarrow> state_ok ps D np ch \<Longrightarrow> topsort_levels_core keys np ch = (levels, outcome) \<Longrightarrow>
     levels_ok ps D levels \<and>
     (outcome = Inr () \<longleftrightarrow> nodes_of ps \<subseteq> D \<union> set (concat levels)) \<and> (\<forall>k. outcome \<noteq> Inl (MissingKey k))"
proof (induction keys np ch arbitrary: D levels outcome rule: topsort_levels_core.induct)
  case (1 keys np ch)
  let ?level = "filter (\<lambda>x. dget np x = Some 0) (keys np)"
  note free = free_nodes_ready [OF "1.prems"(1,2)]
  show ?case
  proof (cases "?level = []")
    case True
    then have "ready ps D = {}" using free by simp
    moreover have "np = [] \<longleftrightarrow> nodes_of ps \<subseteq> D"
      using remaining_keys [OF "1.prems"(2)] by (metis Diff_eq_empty_iff list.map_disc_iff set_empty)
    ultimately show ?thesis
      using "1.prems"(3) True by (auto simp: topsort_levels_core.simps [of keys] split: if_splits)
  next
    case False
    from drop_level_ok [OF "1.prems"(2)] free obtain np' ch' where
      run: "drop_level ?level np ch = Inr (np', ch')" and ok: "state_ok ps (D \<union> set ?level) np' ch'"
      by blast
    obtain ls where rec: "topsort_levels_core keys np' ch' = (ls, outcome)" and levels: "levels = ?level # ls"
      using "1.prems"(3) False run
      by (subst (asm) topsort_levels_core.simps) (auto simp: Let_def split: prod.splits)
    from "1.IH" [OF refl False run "1.prems"(1), of "D \<union> set ?level" ls outcome] ok rec
    have ih: "levels_ok ps (D \<union> set ?level) ls \<and>
      (outcome = Inr () \<longleftrightarrow> nodes_of ps \<subseteq> D \<union> set ?level \<union> set (concat ls)) \<and>
      (\<forall>k. outcome \<noteq> Inl (MissingKey k))"
      by simp
    then show ?thesis using free False unfolding levels by (simp add: Un_assoc del: set_filter filter_empty_conv)
  qed
qed

lemma levels_ok_ConsD:
  assumes "levels_ok ps D (level # levels)"
  shows "level \<noteq> []" "distinct level" "set level = ready ps D" "levels_ok ps (D \<union> set level) levels"
  using assms unfolding levels_ok.simps by blast+

lemma levels_ok_closed: "levels_ok ps D levels \<Longrightarrow> ready ps (D \<union> set (concat levels)) = {}"
proof (induction ps D levels rule: levels_ok.induct)
  case (2 ps D level levels)
  from "2.IH" [OF levels_ok_ConsD(4) [OF "2.prems"]] show ?case
    by (simp only: concat.simps set_append Un_assoc)
qed simp

lemma levels_ok_nonempty: "levels_ok ps D levels \<Longrightarrow> [] \<notin> set levels"
proof (induction ps D levels rule: levels_ok.induct)
  case (2 ps D level levels)
  from "2.IH" [OF levels_ok_ConsD(4) [OF "2.prems"]] levels_ok_ConsD(1) [OF "2.prems"] show ?case by simp
qed simp

lemma levels_ok_distinct:
  "levels_ok ps D levels \<Longrightarrow> distinct (concat levels) \<and> set (concat levels) \<subseteq> nodes_of ps - D"
proof (induction ps D levels rule: levels_ok.induct)
  case (2 ps D level levels)
  note ih = "2.IH" [OF levels_ok_ConsD(4) [OF "2.prems"]]
  have "set level \<subseteq> nodes_of ps - D"
    unfolding levels_ok_ConsD(3) [OF "2.prems"] by (auto simp: ready_def)
  with ih levels_ok_ConsD(2) [OF "2.prems"] show ?case
    by (simp only: concat.simps set_append distinct_append) blast
qed simp

lemma levels_ok_parents:
  "levels_ok ps D levels \<Longrightarrow> i < length levels \<Longrightarrow> x \<in> set (levels ! i) \<Longrightarrow> (p, x) \<in> set ps
     \<Longrightarrow> p \<in> D \<or> (\<exists>j<i. p \<in> set (levels ! j))"
proof (induction ps D levels arbitrary: i rule: levels_ok.induct)
  case (2 ps D level levels)
  show ?case
  proof (cases i)
    case 0
    with "2.prems" show ?thesis by (auto simp: ready_def)
  next
    case (Suc k)
    with "2.IH" [of k] "2.prems" consider "p \<in> D" | "p \<in> set level" | j where "j < k" "p \<in> set (levels ! j)"
      by auto
    then show ?thesis
    proof cases
      case 3
      then show ?thesis by (intro disjI2 exI [of _ "Suc j"]) (simp add: Suc)
    qed (auto simp: Suc)
  qed
qed simp

lemma levels_ok_direct_parent:
  "levels_ok ps D levels \<Longrightarrow> Suc k < length levels \<Longrightarrow> x \<in> set (levels ! Suc k)
     \<Longrightarrow> \<exists>p \<in> set (levels ! k). (p, x) \<in> set ps"
proof (induction ps D levels arbitrary: k rule: levels_ok.induct)
  case (2 ps D level levels)
  show ?case
  proof (cases k)
    case 0
    then obtain next_level rest where levels: "levels = next_level # rest"
      using "2.prems"(2) by (cases levels) auto
    with "2.prems" 0 have x: "x \<in> ready ps (D \<union> set level)" by simp
    then have "x \<in> nodes_of ps - D" "x \<notin> ready ps D" using "2.prems"(1) by (auto simp: ready_def)
    then obtain p where "(p, x) \<in> set ps" "p \<notin> D" by (auto simp: ready_def)
    with x have "p \<in> set level" by (auto simp: ready_def)
    with 0 \<open>(p, x) \<in> set ps\<close> show ?thesis by auto
  next
    case (Suc m)
    with "2.IH" [of m] "2.prems" show ?thesis by auto
  qed
qed simp

lemma levels_ok_avoid:
  "levels_ok ps D levels \<Longrightarrow> R \<inter> D = {} \<Longrightarrow> \<forall>x \<in> R. \<exists>q \<in> R. (q, x) \<in> set ps
     \<Longrightarrow> R \<inter> set (concat levels) = {}"
proof (induction ps D levels rule: levels_ok.induct)
  case (2 ps D level levels)
  have "R \<inter> ready ps D = {}" using "2.prems"(2,3) by (fastforce simp: ready_def)
  then have avoid: "R \<inter> (D \<union> set level) = {}"
    using "2.prems"(2) unfolding levels_ok_ConsD(3) [OF "2.prems"(1)] by blast
  from "2.IH" [OF levels_ok_ConsD(4) [OF "2.prems"(1)] avoid "2.prems"(3)] avoid show ?case
    by (simp only: concat.simps set_append) blast
qed simp

lemma cyclic_blocked:
  assumes "\<not> acyclic (set ps)"
  obtains R where "R \<noteq> {}" and "R \<subseteq> nodes_of ps" and "\<forall>x \<in> R. \<exists>q \<in> R. (q, x) \<in> set ps"
proof
  let ?R = "{x. (x, x) \<in> (set ps)\<^sup>+}"
  show "?R \<noteq> {}" using assms by (auto simp: acyclic_def)
  show "\<forall>x \<in> ?R. \<exists>q \<in> ?R. (q, x) \<in> set ps"
    by (auto dest!: tranclD2 intro: rtrancl_into_trancl2)
  then show "?R \<subseteq> nodes_of ps" by (force simp: nodes_of_def)
qed

text \<open>
  \<^verbatim>\<open>topsort_levels\<close> yields non-empty levels without repetition in which every parent lies in
  an earlier level and every element outside the first level has a parent in the level just before,
  so an element's level is the length of the longest chain of dependencies that leads to it; the
  generator ends normally, with every element yielded, exactly when there is no cycle.
\<close>

theorem topsort_levels_correct:
  assumes "key_order keys" and "topsort_levels keys ps = (levels, outcome)"
  shows "distinct (concat levels) \<and> [] \<notin> set levels
    \<and> (\<forall>i < length levels. \<forall>x \<in> set (levels ! i).
         (\<forall>p. (p, x) \<in> set ps \<longrightarrow> (\<exists>j<i. p \<in> set (levels ! j)))
         \<and> (0 < i \<longrightarrow> (\<exists>p \<in> set (levels ! (i - 1)). (p, x) \<in> set ps)))
    \<and> (outcome = Inr () \<longleftrightarrow> acyclic (set ps))
    \<and> (outcome = Inr () \<longrightarrow> set (concat levels) = nodes_of ps)"
proof -
  obtain np ch where start: "count_pairs ps = (np, ch)" by fastforce
  then have run: "topsort_levels_core keys np ch = (levels, outcome)" using assms(2) by (simp add: topsort_levels_def)
  from topsort_levels_core_ok [OF assms(1) count_pairs_ok [OF start] run]
  have ok: "levels_ok ps {} levels" and out: "outcome = Inr () \<longleftrightarrow> nodes_of ps \<subseteq> set (concat levels)" by auto
  have dist: "distinct (concat levels)" and sub: "set (concat levels) \<subseteq> nodes_of ps"
    using levels_ok_distinct [OF ok] by auto
  have acyc: "outcome = Inr () \<longleftrightarrow> acyclic (set ps)"
  proof
    assume "outcome = Inr ()"
    then have all: "nodes_of ps \<subseteq> set (concat levels)" using out by simp
    show "acyclic (set ps)"
    proof (rule ccontr)
      assume "\<not> acyclic (set ps)"
      then obtain R where "R \<noteq> {}" "R \<subseteq> nodes_of ps" "\<forall>x \<in> R. \<exists>q \<in> R. (q, x) \<in> set ps"
        by (rule cyclic_blocked)
      with levels_ok_avoid [OF ok, of R] all show False by blast
    qed
  next
    assume acyclic: "acyclic (set ps)"
    have none: "ready ps (set (concat levels)) = {}" using levels_ok_closed [OF ok] by simp
    have "nodes_of ps - set (concat levels) = {}"
    proof (rule ccontr)
      assume "nodes_of ps - set (concat levels) \<noteq> {}"
      then have "\<not> acyclic (set ps)" by (rule no_source_cyclic) (rule blocked_parent [OF none])
      with acyclic show False by contradiction
    qed
    then show "outcome = Inr ()" unfolding out by blast
  qed
  show ?thesis
  proof (intro conjI allI ballI impI)
    show "[] \<notin> set levels" using ok by (rule levels_ok_nonempty)
  next
    fix i x p assume "i < length levels" "x \<in> set (levels ! i)" "(p, x) \<in> set ps"
    then show "\<exists>j<i. p \<in> set (levels ! j)" using levels_ok_parents [OF ok] by blast
  next
    fix i x assume "i < length levels" "x \<in> set (levels ! i)" "0 < i"
    then show "\<exists>p \<in> set (levels ! (i - 1)). (p, x) \<in> set ps"
      using levels_ok_direct_parent [OF ok, of "i - 1" x] by simp
  next
    assume "outcome = Inr ()"
    then show "set (concat levels) = nodes_of ps" using out sub by (intro equalityI) simp_all
  qed (rule dist, rule acyc)
qed

theorem topsort_levels_correct_witness:
  "distinct (concat (fst (topsort_levels dkeys [(1::nat, 2), (1, 3), (2, 3)])))"
proof -
  obtain levels outcome where "topsort_levels dkeys [(1::nat, 2), (1, 3), (2, 3)] = (levels, outcome)" by fastforce
  with topsort_levels_correct [OF insertion_order.key_order_axioms this] show ?thesis by simp
qed

end
