(* ===== verification/Cycle_Finder.thy ===== *)
theory Cycle_Finder
  imports Rad_Lists
begin

text \<open>
  Cycle finding: \<^verbatim>\<open>find_cycles\<close> of \<^verbatim>\<open>simulation/bindings/python/topsort.py\<close>, a search over simple
  paths with a stack. The generator's yields are collected in a list, which is the list \<^verbatim>\<open>cycles\<close>
  the code itself keeps. The graph is a dictionary in its order of iteration, which the theorems
  leave arbitrary.
\<close>

section \<open>Definitions\<close>

type_synonym 'a graph = "('a, 'a list) dict"

text \<open>The stack of paths has its top first.\<close>

record 'a search =
  paths :: "'a list list"
  cycles :: "'a list list"
  visited_nodes :: "'a set"

fun is_dup_cycle :: "'a list list \<Rightarrow> 'a list \<Rightarrow> py_error + bool" where
  "is_dup_cycle [] cycle = Inr False"
| "is_dup_cycle (other # rest) cycle =
     res_bind (is_rotated other cycle) (\<lambda>b. if b then Inr True else is_dup_cycle rest cycle)"

fun visit_children :: "'a list \<Rightarrow> 'a list \<Rightarrow> 'a search \<Rightarrow> py_error + 'a search" where
  "visit_children path [] st = Inr st"
| "visit_children path (child # rest) st =
     (if child \<in> set path then
        (let cycle = dropWhile (\<lambda>x. x \<noteq> child) path
         in res_bind (is_dup_cycle (cycles st) cycle) (\<lambda>is_dup.
              visit_children path rest (if \<not> is_dup then st\<lparr>cycles := cycles st @ [cycle]\<rparr> else st)))
      else
        visit_children path rest
          (st\<lparr>paths := (path @ [child]) # paths st, visited_nodes := insert child (visited_nodes st)\<rparr>))"

definition all_children :: "'a graph \<Rightarrow> 'a set" where
  "all_children g = (\<Union>cs \<in> snd ` set g. set cs)"

lemma visit_children_paths:
  "visit_children path cs st = Inr st' \<Longrightarrow>
     paths st' = map (\<lambda>c. path @ [c]) (rev (filter (\<lambda>c. c \<notin> set path) cs)) @ paths st"
  by (induction path cs st rule: visit_children.induct) (auto simp: Let_def res_bind_eq_Inr split: if_splits)

function search_loop :: "'a graph \<Rightarrow> 'a search \<Rightarrow> py_error + 'a search" where
  "search_loop g st =
     (case paths st of
        [] \<Rightarrow> Inr st
      | path # stack \<Rightarrow>
          (let st1 = st\<lparr>paths := stack\<rparr> in
           case dget g (last path) of
             None \<Rightarrow> search_loop g st1
           | Some children \<Rightarrow> res_bind (visit_children path children st1) (\<lambda>st2. search_loop g st2)))"
  by pat_completeness auto
termination
proof (relation "inv_image (mult less_than)
    (\<lambda>(g, st). mset (map (\<lambda>p. card (all_children g - set p)) (paths st)))", goal_cases)
  case (2 g st path stack st1)
  then show ?case
    using one_step_implies_mult [of "{#card (all_children g - set path)#}" "{#}" less_than
        "mset (map (\<lambda>p. card (all_children g - set p)) stack)"] by simp
next
  case (3 g st path stack st1 cs st2)
  let ?m = "\<lambda>p. card (all_children g - set p)"
  let ?new = "map (\<lambda>c. path @ [c]) (rev (filter (\<lambda>c. c \<notin> set path) cs))"
  have sub: "set cs \<subseteq> all_children g" using 3 by (force simp: all_children_def dest: map_of_SomeD)
  have fin: "finite (all_children g)" by (auto simp: all_children_def)
  have "?m (path @ [c]) < ?m path" if "c \<in> set cs" "c \<notin> set path" for c
    using that sub fin by (intro psubset_card_mono) auto
  then obtain new where new: "paths st2 = new @ stack" and less: "\<forall>p \<in> set new. ?m p < ?m path"
    using visit_children_paths [of path cs st1 st2] 3 by fastforce
  from less have "\<forall>k \<in># mset (map ?m new). \<exists>j \<in># {#?m path#}. (k, j) \<in> less_than" by auto
  from one_step_implies_mult [OF _ this, of "mset (map ?m stack)"] show ?case
    using 3 new by (simp add: add.commute)
qed (simp add: wf_mult)

declare search_loop.simps [simp del]

fun roots_loop :: "'a graph \<Rightarrow> 'a list \<Rightarrow> 'a search \<Rightarrow> py_error + 'a search" where
  "roots_loop g [] st = Inr st"
| "roots_loop g (parent # rest) st =
     (if parent \<in> visited_nodes st then roots_loop g rest st
      else res_bind (search_loop g (st\<lparr>paths := [[parent]]\<rparr>)) (\<lambda>st'. roots_loop g rest st'))"

definition find_cycles :: "'a graph \<Rightarrow> py_error + 'a list list" where
  "find_cycles parent_children =
     res_bind (roots_loop parent_children (dkeys parent_children)
                 \<lparr>paths = [], cycles = [], visited_nodes = {}\<rparr>) (\<lambda>st. Inr (cycles st))"

section \<open>Cycles\<close>

definition edge :: "'a graph \<Rightarrow> 'a \<Rightarrow> 'a \<Rightarrow> bool" where
  "edge g a b \<longleftrightarrow> (\<exists>cs. dget g a = Some cs \<and> b \<in> set cs)"

definition simple_path :: "'a graph \<Rightarrow> 'a list \<Rightarrow> bool" where
  "simple_path g p \<longleftrightarrow> p \<noteq> [] \<and> distinct p \<and> successively (edge g) p"

definition is_cycle :: "'a graph \<Rightarrow> 'a list \<Rightarrow> bool" where
  "is_cycle g c \<longleftrightarrow> simple_path g c \<and> edge g (last c) (hd c)"

definition rotation :: "'a list \<Rightarrow> 'a list \<Rightarrow> bool" where
  "rotation a b \<longleftrightarrow> (\<exists>n. b = rotate n a)"

lemma rotation_refl: "rotation a a"
  unfolding rotation_def by (rule exI [of _ 0]) simp

lemma rotation_trans: "rotation a b \<Longrightarrow> rotation b c \<Longrightarrow> rotation a c"
  by (auto simp: rotation_def rotate_rotate)

lemma rotation_sym: "rotation a b \<Longrightarrow> rotation b a"
proof -
  assume "rotation a b"
  then obtain n where b: "b = rotate n a" by (auto simp: rotation_def)
  have "rotate (length a * n - n) b = a" if "a \<noteq> []"
  proof -
    have "n \<le> length a * n" using that by (cases a) auto
    then have "rotate (length a * n - n) b = rotate (length a * n) a" by (simp add: b rotate_rotate)
    then show ?thesis by (simp add: rotate_id)
  qed
  moreover have "b = a" if "a = []" using that b by simp
  ultimately show ?thesis unfolding rotation_def by (metis rotate0 id_apply)
qed

lemma is_cycle_rotate1:
  assumes "is_cycle g c"
  shows "is_cycle g (rotate1 c)"
proof (cases c)
  case (Cons x xs)
  show ?thesis
  proof (cases "xs = []")
    case False
    from assms False have "distinct (x # xs)" "successively (edge g) xs" "edge g x (hd xs)" "edge g (last xs) x"
      by (simp_all add: is_cycle_def simple_path_def Cons successively_Cons)
    then show ?thesis
      using False by (auto simp: is_cycle_def simple_path_def Cons successively_append_iff)
  qed (use assms Cons in simp)
qed (use assms in simp)

lemma is_cycle_rotate: "is_cycle g c \<Longrightarrow> is_cycle g (rotate n c)"
  by (induction n) (simp_all add: is_cycle_rotate1)

lemma is_dup_cycle_spec:
  "cycle \<noteq> [] \<Longrightarrow> is_dup_cycle others cycle = Inr (\<exists>other \<in> set others. rotation other cycle)"
  by (induction others) (auto simp: is_rotated_nonempty rotation_def)

section \<open>Every result is a cycle, once\<close>

definition sound :: "'a graph \<Rightarrow> 'a search \<Rightarrow> bool" where
  "sound g st \<longleftrightarrow>
     (\<forall>p \<in> set (paths st). simple_path g p) \<and> (\<forall>c \<in> set (cycles st). is_cycle g c)
     \<and> sorted_wrt (\<lambda>a b. \<not> rotation a b) (cycles st)"

text \<open>The end of a simple path from a node that its last node points back to is a cycle.\<close>

lemma simple_path_append: "simple_path g (p @ q) \<Longrightarrow> p \<noteq> [] \<Longrightarrow> simple_path g p"
  by (auto simp: simple_path_def successively_append_iff)

lemma path_closes:
  assumes "simple_path g p" and "edge g (last p) b" and "b \<in> set p"
  shows "is_cycle g (dropWhile (\<lambda>x. x \<noteq> b) p)" and "dropWhile (\<lambda>x. x \<noteq> b) p \<noteq> []"
proof -
  let ?c = "dropWhile (\<lambda>x. x \<noteq> b) p"
  show ne: "?c \<noteq> []" using assms(3) by (auto simp: dropWhile_eq_Nil_conv)
  have p: "p = takeWhile (\<lambda>x. x \<noteq> b) p @ ?c" by simp
  have "hd ?c = b" using ne hd_dropWhile by blast
  moreover have "last ?c = last p" using ne p by (metis last_appendR)
  moreover have "simple_path g ?c"
    using assms(1) ne p unfolding simple_path_def
    by (metis distinct_append successively_append_iff)
  ultimately show "is_cycle g ?c" using assms(2) by (simp add: is_cycle_def)
qed

lemma visit_children_ok:
  assumes "sound g st" and "simple_path g path" and "\<forall>c \<in> set cs. edge g (last path) c"
  shows "\<exists>st'. visit_children path cs st = Inr st' \<and> sound g st'
    \<and> set (cycles st) \<subseteq> set (cycles st')
    \<and> visited_nodes st' = visited_nodes st \<union> (set cs - set path)
    \<and> (\<forall>b \<in> set cs. b \<in> set path \<longrightarrow> (\<exists>c' \<in> set (cycles st'). rotation c' (dropWhile (\<lambda>x. x \<noteq> b) path)))"
  using assms(1,3)
proof (induction cs arbitrary: st)
  case (Cons b cs)
  show ?case
  proof (cases "b \<in> set path")
    case True
    let ?c = "dropWhile (\<lambda>x. x \<noteq> b) path"
    let ?dup = "\<exists>other \<in> set (cycles st). rotation other ?c"
    let ?st = "if \<not> ?dup then st\<lparr>cycles := cycles st @ [?c]\<rparr> else st"
    have c: "is_cycle g ?c" "?c \<noteq> []" using path_closes [OF assms(2) _ True] Cons.prems by auto
    have "sound g ?st" using Cons.prems c by (auto simp: sound_def sorted_wrt_append)
    from Cons.IH [OF this] Cons.prems(2) obtain st' where
      run: "visit_children path cs ?st = Inr st'" and st': "sound g st'" "set (cycles ?st) \<subseteq> set (cycles st')"
        "visited_nodes st' = visited_nodes ?st \<union> (set cs - set path)"
        "\<forall>b \<in> set cs. b \<in> set path \<longrightarrow> (\<exists>c' \<in> set (cycles st'). rotation c' (dropWhile (\<lambda>x. x \<noteq> b) path))"
      by auto
    have "visit_children path (b # cs) st = Inr st'"
      using True run is_dup_cycle_spec [OF c(2)] by simp
    moreover have "\<exists>c' \<in> set (cycles st'). rotation c' ?c"
      using st'(2) rotation_refl by (cases ?dup) auto
    moreover have "set (cycles st) \<subseteq> set (cycles st')" using st'(2) by (auto split: if_splits)
    moreover have "visited_nodes st' = visited_nodes st \<union> (set (b # cs) - set path)"
      using st'(3) True by auto
    ultimately show ?thesis using st' by auto
  next
    case False
    let ?st = "st\<lparr>paths := (path @ [b]) # paths st, visited_nodes := insert b (visited_nodes st)\<rparr>"
    have "simple_path g (path @ [b])"
      using assms(2) False Cons.prems by (auto simp: simple_path_def successively_append_iff)
    then have "sound g ?st" using Cons.prems by (auto simp: sound_def)
    from Cons.IH [OF this] Cons.prems(2) False show ?thesis by auto
  qed
qed simp

text \<open>A path is explored when every cycle closed by one of its simple extensions has been found.\<close>

definition found :: "'a search \<Rightarrow> 'a list \<Rightarrow> bool" where
  "found st c \<longleftrightarrow> (\<exists>c' \<in> set (cycles st). rotation c' c)"

definition explored :: "'a graph \<Rightarrow> 'a search \<Rightarrow> 'a list \<Rightarrow> bool" where
  "explored g st p \<longleftrightarrow>
     (\<forall>ext b. simple_path g (p @ ext) \<longrightarrow> edge g (last (p @ ext)) b \<longrightarrow> b \<in> set (p @ ext)
        \<longrightarrow> found st (dropWhile (\<lambda>x. x \<noteq> b) (p @ ext)))"

lemma found_mono: "found st c \<Longrightarrow> set (cycles st) \<subseteq> set (cycles st') \<Longrightarrow> found st' c"
  by (auto simp: found_def)

lemma explored_mono: "explored g st p \<Longrightarrow> set (cycles st) \<subseteq> set (cycles st') \<Longrightarrow> explored g st' p"
  unfolding explored_def using found_mono by blast

lemma explored_children:
  assumes "simple_path g p"
    and "\<And>b. edge g (last p) b \<Longrightarrow> b \<in> set p \<Longrightarrow> found st (dropWhile (\<lambda>x. x \<noteq> b) p)"
    and "\<And>b. edge g (last p) b \<Longrightarrow> b \<notin> set p \<Longrightarrow> explored g st (p @ [b])"
  shows "explored g st p"
  unfolding explored_def
proof (intro allI impI)
  fix ext b
  assume path: "simple_path g (p @ ext)" and close: "edge g (last (p @ ext)) b" "b \<in> set (p @ ext)"
  show "found st (dropWhile (\<lambda>x. x \<noteq> b) (p @ ext))"
  proof (cases ext)
    case Nil
    with close assms(2) show ?thesis by simp
  next
    case (Cons c ext')
    with path assms(1) have "edge g (last p) c" "c \<notin> set p"
      by (auto simp: simple_path_def successively_append_iff)
    then have "explored g st (p @ [c])" by (rule assms(3))
    with path close Cons show ?thesis by (auto simp: explored_def)
  qed
qed

abbreviation reachable :: "'a graph \<Rightarrow> 'a \<Rightarrow> 'a \<Rightarrow> bool" where
  "reachable g \<equiv> (edge g)\<^sup>*\<^sup>*"

lemma search_loop_ok:
  "sound g st \<Longrightarrow> \<exists>st'. search_loop g st = Inr st' \<and> sound g st' \<and> set (cycles st) \<subseteq> set (cycles st')
     \<and> (\<forall>p \<in> set (paths st). explored g st' p)
     \<and> (\<forall>v \<in> visited_nodes st'. v \<in> visited_nodes st \<or> (\<exists>p \<in> set (paths st). reachable g (last p) v))"
proof (induction g st rule: search_loop.induct)
  case (1 g st)
  show ?case
  proof (cases "paths st")
    case Nil
    with "1.prems" show ?thesis by (simp add: search_loop.simps)
  next
    case (Cons path stack)
    let ?st1 = "st\<lparr>paths := stack\<rparr>"
    have ok: "sound g ?st1" and path: "simple_path g path" using "1.prems" Cons by (auto simp: sound_def)
    show ?thesis
    proof (cases "dget g (last path)")
      case None
      then have leaf: "\<not> edge g (last path) b" for b by (simp add: edge_def)
      from "1.IH"(1) [OF Cons refl None ok] obtain st' where
        st': "search_loop g ?st1 = Inr st'" "sound g st'" "set (cycles ?st1) \<subseteq> set (cycles st')"
          "\<forall>p \<in> set (paths ?st1). explored g st' p"
          "\<forall>v \<in> visited_nodes st'. v \<in> visited_nodes ?st1 \<or> (\<exists>p \<in> set (paths ?st1). reachable g (last p) v)"
        by blast
      moreover have "explored g st' path" by (rule explored_children [OF path]) (simp_all add: leaf)
      moreover have "search_loop g st = Inr st'" using Cons None st'(1) by (subst search_loop.simps) simp
      ultimately show ?thesis using Cons by (intro exI [of _ st']) auto
    next
      case (Some cs)
      then have children: "edge g (last path) c \<longleftrightarrow> c \<in> set cs" for c by (auto simp: edge_def)
      from visit_children_ok [OF ok path, of cs] children obtain st2 where
        run: "visit_children path cs ?st1 = Inr st2" and ok2: "sound g st2"
        and mono: "set (cycles st) \<subseteq> set (cycles st2)"
        and vis: "visited_nodes st2 = visited_nodes st \<union> (set cs - set path)"
        and closed: "\<forall>b \<in> set cs. b \<in> set path \<longrightarrow> found st2 (dropWhile (\<lambda>x. x \<noteq> b) path)"
        by (auto simp: found_def)
      have paths2: "set (paths st2) = (\<lambda>c. path @ [c]) ` (set cs - set path) \<union> set stack"
        using visit_children_paths [OF run] by auto
      from "1.IH"(2) [OF Cons refl Some run ok2] obtain st' where
        st': "search_loop g st2 = Inr st'" "sound g st'"
        and mono': "set (cycles st2) \<subseteq> set (cycles st')"
        and expl: "\<forall>p \<in> set (paths st2). explored g st' p"
        and vis': "\<forall>v \<in> visited_nodes st'. v \<in> visited_nodes st2 \<or> (\<exists>p \<in> set (paths st2). reachable g (last p) v)"
        by blast
      have "explored g st' path"
        by (rule explored_children [OF path])
          (use children closed found_mono [OF _ mono'] expl paths2 in auto)
      moreover have "v \<in> visited_nodes st \<or> (\<exists>p \<in> set (paths st). reachable g (last p) v)"
        if "v \<in> visited_nodes st'" for v
      proof -
        from vis' that consider "v \<in> visited_nodes st" | c where "c \<in> set cs" "reachable g c v"
          | p where "p \<in> set stack" "reachable g (last p) v"
          unfolding vis paths2 by fastforce
        then show ?thesis
        proof cases
          case 2
          then have "reachable g (last path) v"
            using children converse_rtranclp_into_rtranclp [of "edge g"] by blast
          then show ?thesis using Cons by auto
        qed (use Cons in auto)
      qed
      moreover have "search_loop g st = Inr st'" using Cons Some run st'(1) by (subst search_loop.simps) simp
      ultimately show ?thesis using st'(2) subset_trans [OF mono mono'] expl Cons unfolding paths2 by auto
    qed
  qed
qed

text \<open>Between roots, every visited node is reachable from an explored one.\<close>

definition covered :: "'a graph \<Rightarrow> 'a search \<Rightarrow> 'a \<Rightarrow> bool" where
  "covered g st v \<longleftrightarrow> (\<exists>r. explored g st [r] \<and> reachable g r v)"

lemma covered_mono: "covered g st v \<Longrightarrow> set (cycles st) \<subseteq> set (cycles st') \<Longrightarrow> covered g st' v"
  unfolding covered_def using explored_mono by blast

lemma roots_loop_ok:
  "sound g st \<Longrightarrow> \<forall>v \<in> visited_nodes st. covered g st v \<Longrightarrow>
     \<exists>st'. roots_loop g roots st = Inr st' \<and> sound g st' \<and> set (cycles st) \<subseteq> set (cycles st')
       \<and> (\<forall>r \<in> set roots. covered g st' r)"
proof (induction g roots st rule: roots_loop.induct)
  case (2 g r roots st)
  show ?case
  proof (cases "r \<in> visited_nodes st")
    case True
    with "2.IH"(1) [OF True "2.prems"] "2.prems"(2) covered_mono show ?thesis by fastforce
  next
    case False
    let ?st = "st\<lparr>paths := [[r]]\<rparr>"
    have "sound g ?st" using "2.prems"(1) by (simp add: sound_def simple_path_def)
    from search_loop_ok [OF this] obtain st1 where run: "search_loop g ?st = Inr st1" and ok: "sound g st1"
      and mono: "set (cycles st) \<subseteq> set (cycles st1)" and expl: "explored g st1 [r]"
      and vis: "\<forall>v \<in> visited_nodes st1. v \<in> visited_nodes st \<or> reachable g r v"
      by auto
    have cov: "\<forall>v \<in> visited_nodes st1. covered g st1 v"
      using vis expl "2.prems"(2) covered_mono [OF _ mono] unfolding covered_def by blast
    have "covered g st1 r" using expl by (auto simp: covered_def)
    moreover from "2.IH"(2) [OF False run ok cov] obtain st2 where "roots_loop g roots st1 = Inr st2"
      and "sound g st2" and mono2: "set (cycles st1) \<subseteq> set (cycles st2)" and "\<forall>r \<in> set roots. covered g st2 r"
      by blast
    ultimately show ?thesis
      using run False covered_mono [OF _ mono2] subset_trans [OF mono mono2] by auto
  qed
qed auto

text \<open>
  Claim C17. \<^verbatim>\<open>find_cycles\<close> ends without an exception, every list it yields is a simple cycle of the
  graph, its last item being a parent of its first, and no two of them are rotations of each other.
\<close>

theorem find_cycles_sound:
  "\<exists>cs. find_cycles g = Inr cs \<and>
     list_all (\<lambda>c. c \<noteq> [] \<and> distinct c \<and> successively (edge g) c \<and> edge g (last c) (hd c)) cs \<and>
     sorted_wrt (\<lambda>a b. \<nexists>n. b = rotate n a) cs"
proof -
  have "sound g \<lparr>paths = [], cycles = [], visited_nodes = {}\<rparr>" by (simp add: sound_def)
  from roots_loop_ok [OF this, of "dkeys g"] show ?thesis
    by (fastforce simp: find_cycles_def sound_def is_cycle_def simple_path_def list_all_iff rotation_def)
qed

section \<open>Every cycle is found\<close>

text \<open>From a node that reaches a cycle, a simple path leads to the first node of the cycle it meets.\<close>

lemma first_touch:
  assumes "reachable g r w" and "w \<in> C"
  shows "\<exists>q v. simple_path g (q @ [v]) \<and> hd (q @ [v]) = r \<and> v \<in> C \<and> set q \<inter> C = {}"
  using assms(1)
proof (induction rule: converse_rtranclp_induct)
  case base
  show ?case using assms(2) by (intro exI [of _ "[]"] exI [of _ w]) (simp add: simple_path_def)
next
  case (step r r')
  then obtain q v where q: "simple_path g (q @ [v])" "hd (q @ [v]) = r'" "v \<in> C" "set q \<inter> C = {}" by blast
  show ?case
  proof (cases "r \<in> C")
    case True
    then show ?thesis by (intro exI [of _ "[]"] exI [of _ r]) (simp add: simple_path_def)
  next
    case False
    show ?thesis
    proof (cases "r \<in> set q")
      case True
      then obtain a b where ab: "q = a @ r # b" by (meson split_list)
      have "simple_path g ((r # b) @ [v])"
        using q(1) by (auto simp: ab simple_path_def successively_append_iff)
      then show ?thesis using q ab by (intro exI [of _ "r # b"] exI [of _ v]) auto
    next
      case notin: False
      have "simple_path g ((r # q) @ [v])"
        using q False notin step(1) by (cases q) (auto simp: simple_path_def)
      then show ?thesis using q False by (intro exI [of _ "r # q"] exI [of _ v]) auto
    qed
  qed
qed

lemma covered_cycle_found:
  assumes "covered g st w" and "is_cycle g c" and "w \<in> set c"
  shows "found st c"
proof -
  from assms(1) obtain r where r: "explored g st [r]" "reachable g r w" by (auto simp: covered_def)
  from first_touch [OF r(2) assms(3)] obtain q v where q: "simple_path g (q @ [v])" "hd (q @ [v]) = r"
    "v \<in> set c" "set q \<inter> set c = {}" by blast
  from q(3) obtain k where k: "k < length c" "c ! k = v" by (auto simp: in_set_conv_nth)
  let ?c = "rotate k c"
  have cyc: "is_cycle g ?c" using assms(2) by (rule is_cycle_rotate)
  have "hd ?c = v" using k hd_rotate_conv_nth [of c k] by fastforce
  then obtain t where t: "?c = v # t" using k by (metis hd_Cons_tl length_0_conv length_rotate not_less0)
  have sub: "set (v # t) = set c" using t by (metis set_rotate)
  have path: "simple_path g (q @ v # t)"
    using q cyc sub unfolding t is_cycle_def
    by (auto simp: simple_path_def successively_append_iff)
  obtain ext where ext: "q @ v # t = [r] @ ext" using q(2) by (cases q) auto
  have "edge g (last (q @ v # t)) v" using cyc unfolding t is_cycle_def by simp
  moreover have "v \<notin> set q" using q by auto
  then have "dropWhile (\<lambda>x. x \<noteq> v) (q @ v # t) = v # t" by (simp add: dropWhile_append)
  ultimately have "found st (v # t)"
    using r(1) path unfolding explored_def ext by (metis ext in_set_conv_decomp)
  then obtain c' where "c' \<in> set (cycles st)" "rotation c' ?c" by (auto simp: found_def t)
  moreover have "rotation ?c c" by (rule rotation_sym) (auto simp: rotation_def)
  ultimately show ?thesis unfolding found_def using rotation_trans by blast
qed

text \<open>
  Claim C16. \<^verbatim>\<open>find_cycles\<close> is complete: every simple cycle of the graph is yielded, in some rotation,
  although nodes that were visited from an earlier root are skipped.
\<close>

theorem find_cycles_complete:
  assumes "c \<noteq> []" and "distinct c" and "successively (edge g) c" and "edge g (last c) (hd c)"
  shows "\<exists>cs n. find_cycles g = Inr cs \<and> rotate n c \<in> set cs"
proof -
  have cyc: "is_cycle g c" using assms by (simp add: is_cycle_def simple_path_def)
  have "sound g \<lparr>paths = [], cycles = [], visited_nodes = {}\<rparr>" by (simp add: sound_def)
  from roots_loop_ok [OF this, of "dkeys g"] obtain st where
    run: "roots_loop g (dkeys g) \<lparr>paths = [], cycles = [], visited_nodes = {}\<rparr> = Inr st"
    and cov: "\<forall>r \<in> set (dkeys g). covered g st r" by auto
  have "last c \<in> set (dkeys g)" using assms(4) by (auto simp: edge_def dest: dget_Some_key simp del: set_map)
  then have "found st c" using cov cyc assms(1) covered_cycle_found by (metis last_in_set)
  then obtain c' where "c' \<in> set (cycles st)" "rotation c' c" by (auto simp: found_def)
  then have "\<exists>n. rotate n c \<in> set (cycles st)" using rotation_sym unfolding rotation_def by metis
  with run show ?thesis by (auto simp: find_cycles_def)
qed

theorem find_cycles_complete_witness:
  "\<exists>cs n. find_cycles [(''A'', [''B'']), (''B'', [''A''])] = Inr cs \<and> rotate n [''A'', ''B''] \<in> set cs"
  by (rule find_cycles_complete) (simp_all add: edge_def)

end
