(* ===== verification/Py_Path.thy ===== *)
theory Py_Path
  imports Py_Prelude
begin

text \<open>
  The parts of Python's standard library the test driver uses on names and paths: \<^verbatim>\<open>os.path.join\<close>,
  \<^verbatim>\<open>basename\<close>, \<^verbatim>\<open>abspath\<close> and \<^verbatim>\<open>relpath\<close> on POSIX, \<^verbatim>\<open>fnmatch.filter\<close>, \<^verbatim>\<open>str.upper\<close> and the
  rendering of a float with three decimals.
\<close>

section \<open>Paths\<close>

definition path_join :: "string \<Rightarrow> string \<Rightarrow> string" where
  "path_join a b =
     (if starts_with b ''/'' then b
      else if a = [] \<or> last a = CHR ''/'' then a @ b
      else a @ ''/'' @ b)"

definition basename :: "string \<Rightarrow> string" where
  "basename p = rev (takeWhile (\<lambda>c. c \<noteq> CHR ''/'') (rev p))"

text \<open>\<^verbatim>\<open>os.path.split\<close>: the head loses its trailing slashes unless it is nothing else.\<close>

definition path_split :: "string \<Rightarrow> string \<times> string" where
  "path_split p =
     (let tail = basename p;
          head = take (length p - length tail) p;
          bare = rev (dropWhile (\<lambda>c. c = CHR ''/'') (rev head))
      in (if bare = '''' then head else bare, tail))"

definition dirname :: "string \<Rightarrow> string" where
  "dirname p = fst (path_split p)"

text \<open>
  \<^verbatim>\<open>normpath\<close>: empty and dot components go, a double dot removes the component before it.
  A path may begin with two slashes but not with more.
\<close>

fun norm_comps :: "bool \<Rightarrow> string list \<Rightarrow> string list \<Rightarrow> string list" where
  "norm_comps absolute acc [] = rev acc"
| "norm_comps absolute acc (c # cs) =
     (if c = '''' \<or> c = ''.'' then norm_comps absolute acc cs
      else if c \<noteq> ''..'' \<or> (\<not> absolute \<and> acc = []) \<or> (acc \<noteq> [] \<and> hd acc = ''..'')
        then norm_comps absolute (c # acc) cs
      else norm_comps absolute (tl acc) cs)"

definition normpath :: "string \<Rightarrow> string" where
  "normpath p =
     (if p = '''' then ''.''
      else
        let absolute = starts_with p ''/'';
            slashes = (if starts_with p ''//'' \<and> \<not> starts_with p ''///'' then ''//''
                       else if absolute then ''/'' else '''');
            path = slashes @ join ''/'' (norm_comps absolute [] (split_char (CHR ''/'') p))
        in if path = '''' then ''.'' else path)"

definition abspath :: "string \<Rightarrow> string \<Rightarrow> string" where
  "abspath cwd p = normpath (if starts_with p ''/'' then p else path_join cwd p)"

definition path_comps :: "string \<Rightarrow> string list" where
  "path_comps p = filter (\<lambda>c. c \<noteq> '''') (split_char (CHR ''/'') p)"

fun common_len :: "'a list \<Rightarrow> 'a list \<Rightarrow> nat" where
  "common_len (x # xs) (y # ys) = (if x = y then Suc (common_len xs ys) else 0)"
| "common_len _ _ = 0"

definition relpath :: "string \<Rightarrow> string \<Rightarrow> string \<Rightarrow> py_error + string" where
  "relpath cwd path start =
     (if path = '''' then Inl ValueError
      else
        let start_list = path_comps (abspath cwd start);
            path_list = path_comps (abspath cwd path);
            i = common_len start_list path_list;
            rel = replicate (length start_list - i) ''..'' @ drop i path_list
        in Inr (if rel = [] then ''.'' else join ''/'' rel))"

section \<open>File name patterns\<close>

text \<open>
  \<^verbatim>\<open>fnmatch\<close>: a star matches any text, a question mark one character, a bracket one character of a
  set (with ranges, and an exclamation mark for the complement; a closing bracket that comes first
  belongs to the set); a bracket that is never closed stands for itself.
\<close>

fun in_class :: "char \<Rightarrow> string \<Rightarrow> bool" where
  "in_class x (a # b # c # rest) =
     (if b = CHR ''-'' then (of_char a \<le> (of_char x :: nat) \<and> (of_char x :: nat) \<le> of_char c) \<or> in_class x rest
      else x = a \<or> in_class x (b # c # rest))"
| "in_class x [a, b] = (x = a \<or> x = b)"
| "in_class x [a] = (x = a)"
| "in_class x [] = False"

definition class_match :: "char \<Rightarrow> string \<Rightarrow> bool" where
  "class_match x stuff =
     (case stuff of
        c # rest \<Rightarrow> if c = CHR ''!'' then \<not> in_class x rest else in_class x stuff
      | [] \<Rightarrow> False)"

text \<open>The characters of the set and the pattern behind the closing bracket, if there is one.\<close>

definition split_class :: "string \<Rightarrow> (string \<times> string) option" where
  "split_class p =
     (let k1 = (if starts_with p ''!'' then 1 else 0);
          k2 = (if starts_with (drop k1 p) '']'' then Suc k1 else k1);
          body = take k2 p @ takeWhile (\<lambda>c. c \<noteq> CHR '']'') (drop k2 p)
      in case dropWhile (\<lambda>c. c \<noteq> CHR '']'') (drop k2 p) of
           [] \<Rightarrow> None
         | _ # rest \<Rightarrow> Some (body, rest))"

lemma split_class_shorter: "split_class p = Some (stuff, rest) \<Longrightarrow> length rest < length p"
proof -
  assume some: "split_class p = Some (stuff, rest)"
  then obtain k c where "dropWhile (\<lambda>c. c \<noteq> CHR '']'') (drop k p) = c # rest"
    by (auto simp: split_class_def Let_def split: list.splits if_splits)
  then have "length (c # rest) \<le> length (drop k p)" by (metis length_dropWhile_le)
  then show ?thesis by simp
qed

function fnmatch :: "string \<Rightarrow> string \<Rightarrow> bool" where
  "fnmatch [] s = (s = [])"
| "fnmatch (p # ps) s =
     (if p = CHR ''*'' then fnmatch ps s \<or> (case s of [] \<Rightarrow> False | _ # cs \<Rightarrow> fnmatch (p # ps) cs)
      else
        (case s of
           [] \<Rightarrow> False
         | c # cs \<Rightarrow>
             if p = CHR ''?'' then fnmatch ps cs
             else if p = CHR ''['' then
               (case split_class ps of
                  None \<Rightarrow> c = CHR ''['' \<and> fnmatch ps cs
                | Some r \<Rightarrow> class_match c (fst r) \<and> fnmatch (snd r) cs)
             else c = p \<and> fnmatch ps cs))"
  by pat_completeness auto
termination
  by (relation "measure (\<lambda>(p, s). length p + length s)") (auto dest: split_class_shorter)

definition fnmatch_filter :: "string list \<Rightarrow> string \<Rightarrow> string list" where
  "fnmatch_filter names pat = filter (fnmatch pat) names"

text \<open>A pattern without special characters matches itself only.\<close>

definition plain_pattern :: "string \<Rightarrow> bool" where
  "plain_pattern p \<longleftrightarrow> (\<forall>c \<in> set p. c \<noteq> CHR ''*'' \<and> c \<noteq> CHR ''?'' \<and> c \<noteq> CHR ''['')"

lemma fnmatch_plain: "plain_pattern p \<Longrightarrow> fnmatch p s \<longleftrightarrow> s = p"
  by (induction p arbitrary: s) (auto simp: plain_pattern_def split: list.split)

lemma fnmatch_star: "fnmatch ''*'' s"
  by (induction s) simp_all

section \<open>Text\<close>

definition upper_char :: "char \<Rightarrow> char" where
  "upper_char c =
     (let n = of_char c :: nat in if 97 \<le> n \<and> n \<le> 122 then char_of (n - 32) else c)"

definition py_upper :: "string \<Rightarrow> string" where
  "py_upper s = map upper_char s"

lemma basename_plain: "CHR ''/'' \<notin> set b \<Longrightarrow> basename b = b"
proof -
  assume "CHR ''/'' \<notin> set b"
  then have "takeWhile (\<lambda>c. c \<noteq> CHR ''/'') (rev b) = rev b" by (subst takeWhile_eq_all_conv) auto
  then show ?thesis unfolding basename_def by (simp only: rev_rev_ident)
qed

lemma basename_slash: "CHR ''/'' \<notin> set b \<Longrightarrow> basename (a @ CHR ''/'' # b) = b"
proof -
  assume "CHR ''/'' \<notin> set b"
  then have "takeWhile (\<lambda>c. c \<noteq> CHR ''/'') (rev b @ CHR ''/'' # rev a) = rev b"
    by (subst takeWhile_append2) auto
  then show ?thesis by (simp add: basename_def)
qed

lemma basename_join:
  assumes "CHR ''/'' \<notin> set b" and "b \<noteq> []"
  shows "basename (path_join a b) = b"
proof -
  have rel: "\<not> starts_with b ''/''" using assms by (cases b) (auto simp: starts_with_def)
  consider "a = []" | a' where "a = a' @ ''/''" | "a \<noteq> []" "last a \<noteq> CHR ''/''"
    by (metis append_butlast_last_id)
  then show ?thesis
    by cases (use rel assms in \<open>simp_all add: path_join_def basename_plain basename_slash\<close>)
qed

end
