(* ===== verification/Test_Config.thy ===== *)
theory Test_Config
  imports Py_Path
begin

text \<open>
  Configuration of the test driver: the three readers of \<^verbatim>\<open>simulation/utils.py\<close>, and
  \<^verbatim>\<open>read_ns3_config\<close>, \<^verbatim>\<open>make_paths\<close> and \<^verbatim>\<open>parse_examples_to_run_file\<close> of \<^verbatim>\<open>simulation/test.py\<close>.

  The file system is a parameter: \<open>read path\<close> is \<open>None\<close> when the path does not exist and otherwise the
  lines of the file with their newlines. Evaluating Python text that is read from a file (\<^verbatim>\<open>eval\<close>,
  \<^verbatim>\<open>exec\<close>) is a parameter too, since that text is input.
\<close>

section \<open>Reading a list or a flag\<close>

type_synonym reader = "string \<Rightarrow> string list option"

definition strip_comment :: "string \<Rightarrow> string" where
  "strip_comment line =
     (if CHR ''#'' \<in> set line then hd (split_once (CHR ''#'') line) else line)"

text \<open>\<^verbatim>\<open>eval(s.split('=', 1)[1].strip())\<close>; without an equals sign the index is out of range.\<close>

definition eval_right_side :: "(string \<Rightarrow> py_error + 'a) \<Rightarrow> string \<Rightarrow> py_error + 'a" where
  "eval_right_side eval s =
     (case split_once (CHR ''='') s of
        _ # rhs # _ \<Rightarrow> eval (py_strip rhs)
      | _ \<Rightarrow> Inl IndexError)"

fun scan_list :: "(string \<Rightarrow> py_error + 'a list) \<Rightarrow> string \<Rightarrow> string list \<Rightarrow> string \<Rightarrow> bool \<Rightarrow> py_error + 'a list" where
  "scan_list eval list_name [] list_string multiline = Inr []"
| "scan_list eval list_name (line # lines) list_string multiline =
     (let line = strip_comment line in
      if py_in list_name line \<or> multiline then
        (let list_string = list_string @ line in
         if CHR '']'' \<notin> set list_string then scan_list eval list_name lines list_string True
         else eval_right_side eval list_string)
      else scan_list eval list_name lines list_string multiline)"

definition get_list_from_file ::
  "reader \<Rightarrow> (string \<Rightarrow> py_error + 'a list) \<Rightarrow> string \<Rightarrow> string \<Rightarrow> py_error + 'a list" where
  "get_list_from_file read eval file_path list_name =
     (case read file_path of
        None \<Rightarrow> Inr []
      | Some lines \<Rightarrow> scan_list eval list_name lines [] False)"

fun scan_bool :: "(string \<Rightarrow> py_error + bool) \<Rightarrow> string \<Rightarrow> string list \<Rightarrow> bool \<Rightarrow> py_error + bool" where
  "scan_bool eval bool_name [] value_if_missing = Inr value_if_missing"
| "scan_bool eval bool_name (line # lines) value_if_missing =
     (let line = strip_comment line in
      if py_in bool_name line then eval_right_side eval line
      else scan_bool eval bool_name lines value_if_missing)"

text \<open>\<^verbatim>\<open>bool_found\<close> is assigned only when the file exists.\<close>

definition get_bool_from_file ::
  "reader \<Rightarrow> (string \<Rightarrow> py_error + bool) \<Rightarrow> string \<Rightarrow> string \<Rightarrow> bool \<Rightarrow> py_error + bool" where
  "get_bool_from_file read eval file_path bool_name value_if_missing =
     (case read file_path of
        None \<Rightarrow> Inl UnboundLocalError
      | Some lines \<Rightarrow> scan_bool eval bool_name lines value_if_missing)"

text \<open>\<open>home\<close> is \<^verbatim>\<open>os.path.expanduser('~/')\<close>.\<close>

definition read_config_file ::
  "reader \<Rightarrow> (string \<Rightarrow> py_error + string list) \<Rightarrow> (string \<Rightarrow> py_error + bool) \<Rightarrow> string
     \<Rightarrow> py_error + bool \<times> string list \<times> bool \<times> bool" where
  "read_config_file read eval_list eval_bool home =
     (let dot_ns3rc_name = ''.ns3rc'';
          dot_ns3rc_path = (if read dot_ns3rc_name = None then home @ dot_ns3rc_name else dot_ns3rc_name)
      in if read dot_ns3rc_name = None \<and> read dot_ns3rc_path = None
         then Inr (False, [''all_modules''], False, False)
         else
           res_bind (get_list_from_file read eval_list dot_ns3rc_path ''modules_enabled'') (\<lambda>ms.
             let modules_enabled = (if ms = [] then [''all_modules''] else ms) in
             res_bind (get_bool_from_file read eval_bool dot_ns3rc_path ''examples_enabled'' False) (\<lambda>ex.
             res_bind (get_bool_from_file read eval_bool dot_ns3rc_path ''tests_enabled'' False) (\<lambda>te.
               Inr (True, modules_enabled, ex, te)))))"

section \<open>The build configuration and the search paths\<close>

definition interesting_config_items :: "string list" where
  "interesting_config_items =
     [''NS3_ENABLED_MODULES'', ''NS3_ENABLED_CONTRIBUTED_MODULES'', ''NS3_MODULE_PATH'', ''ENABLE_REAL_TIME'',
      ''ENABLE_EXAMPLES'', ''ENABLE_TESTS'', ''EXAMPLE_DIRECTORIES'', ''ENABLE_PYTHON_BINDINGS'', ''NSCLICK'',
      ''ENABLE_BRITE'', ''ENABLE_OPENFLOW'', ''APPNAME'', ''BUILD_PROFILE'', ''VERSION'', ''PYTHON'',
      ''VALGRIND_FOUND'']"

text \<open>
  The first loop: the last line that begins with \<^verbatim>\<open>top_dir =\<close> and with \<^verbatim>\<open>out_dir =\<close>. A line with a
  second equals sign does not unpack.
\<close>

definition dir_entry :: "(string \<Rightarrow> py_error + string) \<Rightarrow> string \<Rightarrow> string \<Rightarrow> string option \<Rightarrow> py_error + string option" where
  "dir_entry eval key line old =
     (if starts_with line key then
        (case split_char (CHR ''='') line of
           [_, val] \<Rightarrow> res_bind (eval (py_strip val)) (\<lambda>d. Inr (Some d))
         | _ \<Rightarrow> Inl ValueError)
      else Inr old)"

fun read_dirs ::
  "(string \<Rightarrow> py_error + string) \<Rightarrow> string list \<Rightarrow> string option \<Rightarrow> string option
     \<Rightarrow> py_error + string option \<times> string option" where
  "read_dirs eval [] td od = Inr (td, od)"
| "read_dirs eval (line # lines) td od =
     res_bind (dir_entry eval ''top_dir ='' line td) (\<lambda>td'.
     res_bind (dir_entry eval ''out_dir ='' line od) (\<lambda>od'. read_dirs eval lines td' od'))"

text \<open>The second loop executes a line once for every item it begins with.\<close>

fun exec_items :: "(string \<Rightarrow> 'g \<Rightarrow> py_error + 'g) \<Rightarrow> string \<Rightarrow> string list \<Rightarrow> 'g \<Rightarrow> py_error + 'g" where
  "exec_items exec line [] g = Inr g"
| "exec_items exec line (item # rest) g =
     (if starts_with line item then res_bind (exec line g) (\<lambda>g'. exec_items exec line rest g')
      else exec_items exec line rest g)"

fun exec_lines :: "(string \<Rightarrow> 'g \<Rightarrow> py_error + 'g) \<Rightarrow> string list \<Rightarrow> 'g \<Rightarrow> py_error + 'g" where
  "exec_lines exec [] g = Inr g"
| "exec_lines exec (line # lines) g =
     res_bind (exec_items exec line interesting_config_items g) (\<lambda>g'. exec_lines exec lines g')"

definition lock_file_name :: "string \<Rightarrow> string" where
  "lock_file_name platform = ''.lock-ns3_'' @ platform @ ''_build''"

text \<open>The result: \<^verbatim>\<open>NS3_BASEDIR\<close>, \<^verbatim>\<open>NS3_BUILDDIR\<close> and the other globals.\<close>

definition read_ns3_config ::
  "reader \<Rightarrow> (string \<Rightarrow> py_error + string) \<Rightarrow> (string \<Rightarrow> 'g \<Rightarrow> py_error + 'g) \<Rightarrow> string \<Rightarrow> 'g
     \<Rightarrow> py_error + string \<times> string \<times> 'g" where
  "read_ns3_config read eval exec platform g =
     (case read (lock_file_name platform) of
        None \<Rightarrow> Inl (SystemExit 2)
      | Some lines \<Rightarrow>
          res_bind (read_dirs eval lines None None) (\<lambda>(td, od).
            case td of None \<Rightarrow> Inl UnboundLocalError
            | Some top_dir \<Rightarrow>
                (case od of None \<Rightarrow> Inl UnboundLocalError
                 | Some out_dir \<Rightarrow>
                     res_bind (exec_lines exec lines g) (\<lambda>g'. Inr (top_dir, out_dir, g')))))"

text \<open>\<^verbatim>\<open>make_paths\<close> works on \<^verbatim>\<open>os.environ\<close>. The flags are read before anything is written.\<close>

definition append_paths :: "string \<Rightarrow> string \<Rightarrow> string list \<Rightarrow> (string, string) dict \<Rightarrow> (string, string) dict" where
  "append_paths var sep paths env =
     (let env1 = (if var \<notin> set (dkeys env) then dset var '''' env else env)
      in fold (\<lambda>path e. dset var (the (dget e var) @ sep @ path) e) paths env1)"

definition make_paths ::
  "string \<Rightarrow> string \<Rightarrow> string list \<Rightarrow> (string, string) dict \<Rightarrow> (string, string) dict" where
  "make_paths platform builddir module_path environ =
     (let have_PYTHONPATH = (''PYTHONPATH'' \<in> set (dkeys environ));
          pypath = path_join (path_join builddir ''bindings'') ''python'';
          env1 = dset ''PYTHONPATH'' pypath environ;
          env2 = (if \<not> have_PYTHONPATH then dset ''PYTHONPATH'' pypath env1
                  else dset ''PYTHONPATH'' (the (dget env1 ''PYTHONPATH'') @ '':'' @ pypath) env1)
      in if platform = ''darwin'' then append_paths ''DYLD_LIBRARY_PATH'' '':'' module_path env2
         else if platform = ''win32'' then append_paths ''PATH'' '';'' module_path env2
         else if platform = ''cygwin'' then append_paths ''PATH'' '':'' module_path env2
         else append_paths ''LD_LIBRARY_PATH'' '':'' module_path env2)"

section \<open>The lists of examples\<close>

record examples =
  example_tests :: "(string \<times> string \<times> string \<times> string) list"
  example_names_original :: "string list"
  python_tests :: "(string \<times> string) list"

text \<open>What \<^verbatim>\<open>parse_examples_to_run_file\<close> takes from the environment.\<close>

record example_env =
  ee_read :: reader
  ee_cwd :: string
  ee_builddir :: string
  ee_appname :: string
  ee_version :: string
  ee_suffix :: string

definition path_exists :: "example_env \<Rightarrow> string \<Rightarrow> bool" where
  "path_exists env p = (ee_read env p \<noteq> None)"

definition add_cpp_example ::
  "example_env \<Rightarrow> string \<Rightarrow> string \<times> string \<times> string \<Rightarrow> examples \<Rightarrow> py_error + examples" where
  "add_cpp_example env cpp_executable_dir entry st =
     (case entry of (example_name_original, do_run, do_valgrind_run) \<Rightarrow>
        let parts = split_once (CHR '' '') example_name_original;
            name = hd parts;
            arguments = (if length parts = 1 then '''' else parts ! 1);
            path = path_join cpp_executable_dir
                     (ee_appname env @ ee_version env @ ''-'' @ name @ ee_suffix env)
        in res_bind (relpath (ee_cwd env) cpp_executable_dir (ee_builddir env)) (\<lambda>rel.
             let name = path_join rel name in
             if path_exists env path then
               let path' = (if length parts \<noteq> 1 then path @ '' '' @ arguments else path);
                   name' = (if length parts \<noteq> 1 then name @ '' '' @ arguments else name)
               in Inr (st\<lparr>example_tests := example_tests st @ [(name', path', do_run, do_valgrind_run)],
                          example_names_original := example_names_original st @ [example_name_original]\<rparr>)
             else Inr st))"

definition add_python_example ::
  "example_env \<Rightarrow> string \<Rightarrow> string \<times> string \<Rightarrow> examples \<Rightarrow> examples" where
  "add_python_example env python_script_dir entry st =
     (case entry of (example_name, do_run) \<Rightarrow>
        let parts = split_once (CHR '' '') example_name;
            name = hd parts;
            arguments = (if length parts = 1 then '''' else parts ! 1);
            path = path_join python_script_dir name
        in if path_exists env path then
             let path' = (if length parts \<noteq> 1 then path @ '' '' @ arguments else path)
             in st\<lparr>python_tests := python_tests st @ [(path', do_run)]\<rparr>
           else st)"

definition parse_examples_to_run_file ::
  "example_env \<Rightarrow> (string \<Rightarrow> py_error + (string \<times> string \<times> string) list)
     \<Rightarrow> (string \<Rightarrow> py_error + (string \<times> string) list)
     \<Rightarrow> string \<Rightarrow> string \<Rightarrow> string \<Rightarrow> examples \<Rightarrow> py_error + examples" where
  "parse_examples_to_run_file env eval_cpp eval_python examples_to_run_path cpp_executable_dir python_script_dir st =
     (if path_exists env examples_to_run_path then
        res_bind (get_list_from_file (ee_read env) eval_cpp examples_to_run_path ''cpp_examples'') (\<lambda>cpp_examples.
        res_bind (res_fold (add_cpp_example env cpp_executable_dir) cpp_examples st) (\<lambda>st1.
        res_bind (get_list_from_file (ee_read env) eval_python examples_to_run_path ''python_examples'') (\<lambda>python_examples.
          Inr (fold (add_python_example env python_script_dir) python_examples st1))))
      else Inr st)"

section \<open>What the readers return\<close>

lemma scan_list_multiline:
  "CHR '']'' \<notin> set acc \<Longrightarrow> scan_list eval name lines acc True =
     (case dropWhile (\<lambda>l. CHR '']'' \<notin> set l) (map strip_comment lines) of
        [] \<Rightarrow> Inr []
      | l # _ \<Rightarrow> eval_right_side eval
          (acc @ concat (takeWhile (\<lambda>l. CHR '']'' \<notin> set l) (map strip_comment lines)) @ l))"
  by (induction lines arbitrary: acc) (auto simp: Let_def simp del: dropWhile_eq_Nil_conv split: list.split)

text \<open>
  \<^verbatim>\<open>get_list_from_file\<close> evaluates the text behind the first equals sign of the block that
  runs from the first line that mentions the list, comments removed, to the first line from there
  on that contains a closing bracket; it returns the empty list when the file, the name or the
  bracket is missing.
\<close>

theorem get_list_from_file_block:
  "get_list_from_file read eval path name =
     (case read path of
        None \<Rightarrow> Inr []
      | Some lines \<Rightarrow>
          (let block = dropWhile (\<lambda>l. \<not> py_in name l) (map strip_comment lines)
           in case dropWhile (\<lambda>l. CHR '']'' \<notin> set l) block of
                [] \<Rightarrow> Inr []
              | last_line # _ \<Rightarrow>
                  eval_right_side eval (concat (takeWhile (\<lambda>l. CHR '']'' \<notin> set l) block) @ last_line)))"
proof -
  have "scan_list eval name lines [] False =
      (let block = dropWhile (\<lambda>l. \<not> py_in name l) (map strip_comment lines)
       in case dropWhile (\<lambda>l. CHR '']'' \<notin> set l) block of
            [] \<Rightarrow> Inr []
          | last_line # _ \<Rightarrow>
              eval_right_side eval (concat (takeWhile (\<lambda>l. CHR '']'' \<notin> set l) block) @ last_line))" for lines
    by (induction lines) (auto simp: Let_def scan_list_multiline simp del: dropWhile_eq_Nil_conv split: list.split)
  then show ?thesis by (simp add: get_list_from_file_def split: option.split)
qed

lemma scan_bool_first:
  "scan_bool eval name lines missing =
     (case dropWhile (\<lambda>l. \<not> py_in name l) (map strip_comment lines) of
        [] \<Rightarrow> Inr missing | l # _ \<Rightarrow> eval_right_side eval l)"
  by (induction lines) (simp_all add: Let_def)

text \<open>
  \<^verbatim>\<open>get_bool_from_file\<close> evaluates the first line that mentions the name, comments removed,
  and falls back to the given value when there is none; but when the file does not exist it raises
  an UnboundLocalError, although its documentation promises the given value.
\<close>

theorem get_bool_from_file_first:
  "get_bool_from_file read eval path name missing =
     (case read path of
        None \<Rightarrow> Inl UnboundLocalError
      | Some lines \<Rightarrow>
          (case dropWhile (\<lambda>l. \<not> py_in name l) (map strip_comment lines) of
             [] \<Rightarrow> Inr missing | l # _ \<Rightarrow> eval_right_side eval l))"
  by (simp add: get_bool_from_file_def scan_bool_first split: option.split)

text \<open>
  \<^verbatim>\<open>read_config_file\<close> never meets that error: the file of the working directory is read if
  it exists, otherwise the one of the home directory, otherwise the defaults are returned; the list
  of enabled modules it returns is never empty.
\<close>

theorem read_config_file_source:
  "read_config_file read eval_list eval_bool home =
     (let path = (if read ''.ns3rc'' \<noteq> None then ''.ns3rc'' else home @ ''.ns3rc'') in
      case read path of
        None \<Rightarrow> Inr (False, [''all_modules''], False, False)
      | Some lines \<Rightarrow>
          res_bind (scan_list eval_list ''modules_enabled'' lines [] False) (\<lambda>ms.
          res_bind (scan_bool eval_bool ''examples_enabled'' lines False) (\<lambda>ex.
          res_bind (scan_bool eval_bool ''tests_enabled'' lines False) (\<lambda>te.
            Inr (True, if ms = [] then [''all_modules''] else ms, ex, te)))))"
  by (auto simp: read_config_file_def get_list_from_file_def get_bool_from_file_def Let_def split: option.split)

section \<open>What the paths become\<close>

lemma dget_append_paths:
  "dget (append_paths var sep paths env) k =
     (if k = var then Some ((case dget env var of None \<Rightarrow> [] | Some v \<Rightarrow> v) @ concat (map (\<lambda>p. sep @ p) paths))
      else dget env k)"
proof -
  have "dget (fold (\<lambda>path e. dset var (the (dget e var) @ sep @ path) e) paths e) k =
      (if k = var then Some (v @ concat (map (\<lambda>p. sep @ p) paths)) else dget e k)" if "dget e var = Some v" for e v
    using that by (induction paths arbitrary: e v) auto
  then show ?thesis
    by (cases "dget env var") (auto simp: append_paths_def Let_def dget_None_iff [symmetric] simp del: set_map)
qed

text \<open>
  \<^verbatim>\<open>make_paths\<close> discards the caller's \<^verbatim>\<open>PYTHONPATH\<close>: afterwards it holds the directory of the
  bindings only, twice when it had a value before. The library path of the platform keeps its old
  value and gains the module paths, each after a separator, also when it was empty; every other
  variable is untouched.
\<close>

theorem make_paths_effect:
  assumes "platform \<notin> {''darwin'', ''win32'', ''cygwin''}"
    and "pypath = path_join (path_join builddir ''bindings'') ''python''"
  shows "dget (make_paths platform builddir module_path env) k =
    (if k = ''LD_LIBRARY_PATH'' then
       Some ((case dget env k of None \<Rightarrow> [] | Some v \<Rightarrow> v) @ concat (map (\<lambda>p. '':'' @ p) module_path))
     else if k = ''PYTHONPATH'' then
       Some (if dget env k = None then pypath else pypath @ '':'' @ pypath)
     else dget env k)"
proof -
  have sep: "(@) '':'' = (#) (CHR '':'')" by auto
  show ?thesis
    using assms dget_None_iff [of env "''PYTHONPATH''"]
    by (simp add: make_paths_def Let_def dget_append_paths sep del: set_map split: option.split)
qed

theorem make_paths_effect_witness:
  "dget (make_paths ''linux'' ''/b'' [] [(''PYTHONPATH'', ''/mine'')]) ''PYTHONPATH''
     = Some ''/b/bindings/python:/b/bindings/python''"
proof -
  have "path_join (path_join ''/b'' ''bindings'') ''python'' = ''/b/bindings/python''" by code_simp
  with make_paths_effect [of "''linux''" _ "''/b''" "[]" "[(''PYTHONPATH'', ''/mine'')]" "''PYTHONPATH''", OF _ refl]
  show ?thesis by simp
qed

section \<open>Which examples are taken\<close>

text \<open>An entry is a program name and, behind the first blank, its arguments.\<close>

definition entry_program :: "string \<Rightarrow> string" where
  "entry_program s = takeWhile (\<lambda>c. c \<noteq> CHR '' '') s"

definition entry_arguments :: "string \<Rightarrow> string" where
  "entry_arguments s = dropWhile (\<lambda>c. c \<noteq> CHR '' '') s"

definition executable :: "example_env \<Rightarrow> string \<Rightarrow> string \<Rightarrow> string" where
  "executable env dir s =
     path_join dir (ee_appname env @ ee_version env @ ''-'' @ entry_program s @ ee_suffix env)"

lemma split_once_entry:
  obtains "entry_arguments s = []" and "split_once (CHR '' '') s = [entry_program s]"
  | r where "entry_arguments s = CHR '' '' # r" and "split_once (CHR '' '') s = [entry_program s, r]"
proof (cases "dropWhile (\<lambda>c. c \<noteq> CHR '' '') s")
  case Nil
  then have "takeWhile (\<lambda>c. c \<noteq> CHR '' '') s = s" by (simp add: takeWhile_eq_all_conv)
  with Nil that(1) show thesis
    by (simp add: split_once_def entry_arguments_def entry_program_def del: dropWhile_eq_Nil_conv)
next
  case (Cons c r)
  then have "c = CHR '' ''" using hd_dropWhile [of "\<lambda>c. c \<noteq> CHR '' ''" s] by auto
  with Cons that(2) show thesis
    by (simp add: split_once_def entry_arguments_def entry_program_def)
qed

lemma add_cpp_example_step:
  assumes "relpath (ee_cwd env) dir (ee_builddir env) = Inr rel"
  shows "add_cpp_example env dir (s, do_run, do_valgrind) st = Inr
    (if path_exists env (executable env dir s) then
       st\<lparr>example_tests := example_tests st
            @ [(path_join rel (entry_program s) @ entry_arguments s, executable env dir s @ entry_arguments s,
                do_run, do_valgrind)],
          example_names_original := example_names_original st @ [s]\<rparr>
     else st)"
  by (cases s rule: split_once_entry) (simp_all add: assms add_cpp_example_def Let_def executable_def)

text \<open>
  Of the C++ examples listed for a directory exactly those whose executable exists are
  taken, in order, each once, with its arguments kept behind the program, and the lists of tests
  and of original names grow together.
\<close>

theorem parse_cpp_examples:
  assumes "relpath (ee_cwd env) dir (ee_builddir env) = Inr rel"
  shows "res_fold (add_cpp_example env dir) entries st = Inr
    (let taken = filter (\<lambda>(s, _). path_exists env (executable env dir s)) entries
     in st\<lparr>example_tests := example_tests st
             @ map (\<lambda>(s, do_run, do_valgrind). (path_join rel (entry_program s) @ entry_arguments s,
                      executable env dir s @ entry_arguments s, do_run, do_valgrind)) taken,
          example_names_original := example_names_original st @ map fst taken\<rparr>)"
proof (induction entries arbitrary: st)
  case (Cons e entries)
  obtain s r v where e: "e = (s, r, v)" by (cases e)
  show ?case
    by (simp add: e add_cpp_example_step [OF assms] Cons.IH Let_def)
qed (simp add: Let_def)

definition example_env_1 :: example_env where
  "example_env_1 =
     \<lparr>ee_read = (\<lambda>p. if p = ''/b/examples/ns3-hello-debug'' then Some [] else None), ee_cwd = ''/w'',
      ee_builddir = ''/b'', ee_appname = ''ns'', ee_version = ''3'', ee_suffix = ''-debug''\<rparr>"

theorem parse_cpp_examples_witness:
  "\<exists>st. res_fold (add_cpp_example example_env_1 ''/b/examples'') [(''hello -n 3'', ''True'', ''True''), (''gone'', ''True'', ''True'')]
       \<lparr>example_tests = [], example_names_original = [], python_tests = []\<rparr> = Inr st
     \<and> example_names_original st = [''hello -n 3'']"
proof -
  have "relpath (ee_cwd example_env_1) ''/b/examples'' (ee_builddir example_env_1) = Inr ''examples''"
    by code_simp
  moreover have "path_exists example_env_1 (executable example_env_1 ''/b/examples'' ''hello -n 3'')"
    "\<not> path_exists example_env_1 (executable example_env_1 ''/b/examples'' ''gone'')"
    by code_simp+
  ultimately show ?thesis
    using parse_cpp_examples [of example_env_1 "''/b/examples''" "''examples''"
        "[(''hello -n 3'', ''True'', ''True''), (''gone'', ''True'', ''True'')]"]
    by (simp add: Let_def)
qed

end
