(* ===== verification/Test_Jobs.thy ===== *)
theory Test_Jobs
  imports Test_Config Complex_Main
begin

text \<open>
  Jobs of the test driver (\<^verbatim>\<open>simulation/test.py\<close>): the \<^verbatim>\<open>Job\<close> class, the command a job runs, the
  selection of test suites and examples by the options, and the queue of jobs that \<^verbatim>\<open>run_tests\<close>
  fills. Running a process, evaluating the conditions of the examples and the working directory are
  parameters. Elapsed times are the exact rational values of Python's floats.
\<close>

section \<open>Options and globals\<close>

record options =
  opt_buildpath :: string
  opt_constrain :: string
  opt_duration :: bool
  opt_example :: string
  opt_update_data :: bool
  opt_fullness :: string
  opt_valgrind :: bool
  opt_kinds :: bool
  opt_list :: bool
  opt_multiple :: bool
  opt_no_build :: bool
  opt_pyexample :: string
  opt_retain :: bool
  opt_suite :: string
  opt_text :: string
  opt_verbose :: bool
  opt_html :: string
  opt_xml :: string
  opt_nocolor :: bool
  opt_process_limit :: int

text \<open>The defaults \<^verbatim>\<open>main\<close> gives the option parser.\<close>

definition default_options :: options where
  "default_options =
     \<lparr>opt_buildpath = '''', opt_constrain = '''', opt_duration = False, opt_example = '''',
      opt_update_data = False, opt_fullness = ''QUICK'', opt_valgrind = False, opt_kinds = False,
      opt_list = False, opt_multiple = False, opt_no_build = False, opt_pyexample = '''',
      opt_retain = False, opt_suite = '''', opt_text = '''', opt_verbose = False, opt_html = '''',
      opt_xml = '''', opt_nocolor = False, opt_process_limit = 0\<rparr>"

record globals =
  NS3_BASEDIR :: string
  NS3_BUILDDIR :: string
  ENABLE_EXAMPLES :: bool
  ENABLE_TESTS :: bool
  ENABLE_PYTHON_BINDINGS :: bool
  APPNAME :: string
  BUILD_PROFILE :: string
  VERSION :: string
  PYTHON :: "string list"
  VALGRIND_FOUND :: bool
  EXAMPLE_DIRECTORIES :: "string list"
  NS3_ENABLED_MODULES :: "string list"
  NS3_ENABLED_CONTRIBUTED_MODULES :: "string list"
  NS3_MODULE_PATH :: "string list"

definition core_kinds :: "string list" where
  "core_kinds = [''core'', ''performance'', ''system'', ''unit'']"

definition core_valgrind_skip_tests :: "string list" where
  "core_valgrind_skip_tests =
     [''routing-click'', ''lte-rr-ff-mac-scheduler'', ''lte-tdmt-ff-mac-scheduler'',
      ''lte-fdmt-ff-mac-scheduler'', ''lte-pf-ff-mac-scheduler'', ''lte-tta-ff-mac-scheduler'',
      ''lte-fdbet-ff-mac-scheduler'', ''lte-ttbet-ff-mac-scheduler'', ''lte-fdtbfq-ff-mac-scheduler'',
      ''lte-tdtbfq-ff-mac-scheduler'', ''lte-pss-ff-mac-scheduler'']"

definition build_profile_suffix :: "globals \<Rightarrow> string" where
  "build_profile_suffix cfg = (if BUILD_PROFILE cfg = ''release'' then '''' else ''-'' @ BUILD_PROFILE cfg)"

definition program_name :: "globals \<Rightarrow> string \<Rightarrow> string" where
  "program_name cfg name = APPNAME cfg @ VERSION cfg @ ''-'' @ name @ build_profile_suffix cfg"

definition test_runner_name :: "globals \<Rightarrow> string" where
  "test_runner_name cfg = program_name cfg ''test-runner''"

text \<open>The command that builds what the options need.\<close>

definition build_cmd :: "string \<Rightarrow> string \<Rightarrow> options \<Rightarrow> string" where
  "build_cmd platform sys_executable opts =
     (let cmd = (if opt_kinds opts \<or> opt_list opts
                    \<or> (opt_constrain opts \<noteq> [] \<and> opt_constrain opts \<in> set core_kinds)
                 then ''./ns3 build test-runner''
                 else if opt_example opts \<noteq> [] then ''./ns3 build '' @ basename (opt_example opts)
                 else ''./ns3'')
      in if platform = ''win32'' then sys_executable @ '' '' @ cmd else cmd)"

section \<open>Jobs\<close>

text \<open>\<^verbatim>\<open>returncode\<close> starts as \<^verbatim>\<open>False\<close>, which Python compares as 0.\<close>

record job =
  is_break :: bool
  is_skip :: bool
  skip_reason :: string
  is_example :: bool
  is_pyexample :: bool
  shell_command :: string
  display_name :: string
  basedir :: string
  tempdir :: string
  job_cwd :: string
  tmp_file_name :: string
  returncode :: int
  elapsed_time :: rat
  build_path :: string

definition new_job :: job where
  "new_job =
     \<lparr>is_break = False, is_skip = False, skip_reason = '''', is_example = False, is_pyexample = False,
      shell_command = '''', display_name = '''', basedir = '''', tempdir = '''', job_cwd = '''',
      tmp_file_name = '''', returncode = 0, elapsed_time = 0, build_path = ''''\<rparr>"

definition set_is_break :: "bool \<Rightarrow> job \<Rightarrow> job" where "set_is_break b j = j\<lparr>is_break := b\<rparr>"
definition set_is_skip :: "bool \<Rightarrow> job \<Rightarrow> job" where "set_is_skip b j = j\<lparr>is_skip := b\<rparr>"
definition set_skip_reason :: "string \<Rightarrow> job \<Rightarrow> job" where "set_skip_reason s j = j\<lparr>skip_reason := s\<rparr>"
definition set_is_example :: "bool \<Rightarrow> job \<Rightarrow> job" where "set_is_example b j = j\<lparr>is_example := b\<rparr>"
definition set_is_pyexample :: "bool \<Rightarrow> job \<Rightarrow> job" where "set_is_pyexample b j = j\<lparr>is_pyexample := b\<rparr>"
definition set_shell_command :: "string \<Rightarrow> job \<Rightarrow> job" where "set_shell_command s j = j\<lparr>shell_command := s\<rparr>"
definition set_build_path :: "string \<Rightarrow> job \<Rightarrow> job" where "set_build_path s j = j\<lparr>build_path := s\<rparr>"
definition set_display_name :: "string \<Rightarrow> job \<Rightarrow> job" where "set_display_name s j = j\<lparr>display_name := s\<rparr>"
definition set_basedir :: "string \<Rightarrow> job \<Rightarrow> job" where "set_basedir s j = j\<lparr>basedir := s\<rparr>"
definition set_tempdir :: "string \<Rightarrow> job \<Rightarrow> job" where "set_tempdir s j = j\<lparr>tempdir := s\<rparr>"
definition set_cwd :: "string \<Rightarrow> job \<Rightarrow> job" where "set_cwd s j = j\<lparr>job_cwd := s\<rparr>"
definition set_tmp_file_name :: "string \<Rightarrow> job \<Rightarrow> job" where "set_tmp_file_name s j = j\<lparr>tmp_file_name := s\<rparr>"
definition set_returncode :: "int \<Rightarrow> job \<Rightarrow> job" where "set_returncode n j = j\<lparr>returncode := n\<rparr>"
definition set_elapsed_time :: "rat \<Rightarrow> job \<Rightarrow> job" where "set_elapsed_time t j = j\<lparr>elapsed_time := t\<rparr>"

lemmas job_setters = set_is_break_def set_is_skip_def set_skip_reason_def set_is_example_def
  set_is_pyexample_def set_shell_command_def set_build_path_def set_display_name_def set_basedir_def
  set_tempdir_def set_cwd_def set_tmp_file_name_def set_returncode_def set_elapsed_time_def

section \<open>Running a job\<close>

text \<open>A finished process: its code, its two outputs (\<open>None\<close> when not decodable) and its time.\<close>

record process_result =
  pr_code :: int
  pr_stdout :: "string option"
  pr_stderr :: "string option"
  pr_elapsed :: rat

type_synonym runner = "string \<Rightarrow> string \<Rightarrow> process_result"

definition job_command :: "globals \<Rightarrow> string \<Rightarrow> bool \<Rightarrow> bool \<Rightarrow> string \<Rightarrow> py_error + string" where
  "job_command cfg shell_cmd valgrind is_python build_pth =
     (let suppressions_path = path_join (NS3_BASEDIR cfg) ''testpy.supp'' in
      res_bind
        (if is_python then
           (case PYTHON cfg of
              [] \<Rightarrow> Inl IndexError
            | python # _ \<Rightarrow> Inr (python @ '' '' @ path_join (NS3_BASEDIR cfg) shell_cmd))
         else if build_pth \<noteq> [] then Inr (path_join build_pth shell_cmd)
         else Inr (path_join (NS3_BUILDDIR cfg) shell_cmd)) (\<lambda>path_cmd.
        Inr (if valgrind then
               ''valgrind --suppressions='' @ suppressions_path
               @ '' --leak-check=full --show-reachable=yes --error-exitcode=2 --errors-for-leak-kinds=all ''
               @ path_cmd
             else path_cmd)))"

text \<open>The return code, the standard output and the elapsed time.\<close>

definition run_job_synchronously ::
  "globals \<Rightarrow> runner \<Rightarrow> string \<Rightarrow> string \<Rightarrow> bool \<Rightarrow> bool \<Rightarrow> string \<Rightarrow> py_error + int \<times> string option \<times> rat" where
  "run_job_synchronously cfg run shell_cmd directory valgrind is_python build_pth =
     res_bind (job_command cfg shell_cmd valgrind is_python build_pth) (\<lambda>cmd.
       let p = run cmd directory;
           retval = pr_code p;
           retval = (if pr_stdout p = None then 1 else retval);
           retval = (if pr_stderr p = None then 1 else retval)
       in Inr (retval, pr_stdout p, pr_elapsed p))"

text \<open>What a worker does with a job that is not a break: the body of \<^verbatim>\<open>worker_thread.run\<close>.\<close>

definition work :: "globals \<Rightarrow> options \<Rightarrow> runner \<Rightarrow> bool \<Rightarrow> job \<Rightarrow> py_error + job" where
  "work cfg opts run thread_exit j =
     (if thread_exit then Inr (set_is_break True j)
      else if is_skip j then Inr j
      else
        res_bind
          (if is_example j \<or> is_pyexample j then
             run_job_synchronously cfg run (shell_command j) (job_cwd j) (opt_valgrind opts)
               (is_pyexample j) (build_path j)
           else
             (let update_data = (if opt_update_data opts then ''--update-data'' else '''')
              in run_job_synchronously cfg run
                   (shell_command j @ '' --xml --tempdir='' @ tempdir j @ '' --out='' @ tmp_file_name j
                    @ '' '' @ update_data)
                   (job_cwd j) (opt_valgrind opts) False ''''))
          (\<lambda>(code, out, et). Inr (set_elapsed_time et (set_returncode code j))))"

section \<open>The test suites\<close>

text \<open>
  The suites to run. \<open>list_tests args\<close> is the output of the test runner when it is asked for its
  tests.
\<close>

definition list_cmd :: "globals \<Rightarrow> string \<Rightarrow> string" where
  "list_cmd cfg args = path_join ''utils'' (test_runner_name cfg @ '' --print-test-name-list'' @ args)"

definition list_tests :: "globals \<Rightarrow> runner \<Rightarrow> string \<Rightarrow> string \<Rightarrow> py_error + string" where
  "list_tests cfg run cwd args =
     res_bind (run_job_synchronously cfg run (list_cmd cfg args) cwd False False '''') (\<lambda>(rc, out, et).
       case out of None \<Rightarrow> Inl ValueError | Some s \<Rightarrow> Inr s)"

definition newline_char :: char where
  "newline_char = CHR 0x0A"

definition choose_suites :: "globals \<Rightarrow> options \<Rightarrow> runner \<Rightarrow> string \<Rightarrow> py_error + bool \<times> string list" where
  "choose_suites cfg opts run cwd =
     (if opt_suite opts \<noteq> [] then
        res_bind (list_tests cfg run cwd '''') (\<lambda>suites.
          let suites_found = fnmatch_filter (split_char newline_char suites) (opt_suite opts)
          in if suites_found = [] then Inl (SystemExit 2)
             else Inr (length suites_found = 1, split_char newline_char (join [newline_char] suites_found)))
      else if opt_example opts = [] \<and> opt_pyexample opts = [] then
        res_bind
          (if opt_constrain opts \<noteq> []
           then list_tests cfg run cwd ('' --test-type='' @ opt_constrain opts)
           else list_tests cfg run cwd '''') (\<lambda>suites.
          Inr (False, split_char newline_char suites))
      else Inr (False, split_char newline_char ''''))"

text \<open>\<^verbatim>\<open>if t in suite_list: suite_list.remove(t)\<close> for every performance test.\<close>

definition drop_tests :: "string list \<Rightarrow> string list \<Rightarrow> string list" where
  "drop_tests tests suite_list = fold (\<lambda>t l. if t \<in> set l then remove1 t l else l) tests suite_list"

definition suite_list :: "globals \<Rightarrow> options \<Rightarrow> runner \<Rightarrow> string \<Rightarrow> py_error + string list" where
  "suite_list cfg opts run cwd =
     res_bind (choose_suites cfg opts run cwd) (\<lambda>(single_suite, suites).
       if \<not> single_suite \<and> opt_constrain opts \<noteq> ''performance'' then
         res_bind (list_tests cfg run cwd '' --test-type=performance'') (\<lambda>performance_tests.
           Inr (drop_tests (split_char newline_char performance_tests) suites))
       else Inr suites)"

definition suite_job :: "globals \<Rightarrow> options \<Rightarrow> string \<Rightarrow> string \<Rightarrow> string \<Rightarrow> job" where
  "suite_job cfg opts cwd outdir test =
     (let j = set_tempdir outdir (set_basedir cwd (set_cwd cwd
                (set_tmp_file_name (path_join outdir (test @ ''.xml''))
                (set_display_name test (set_is_pyexample False (set_is_example False new_job))))));
          multiple = (if opt_multiple opts then '''' else '' --stop-on-failure'');
          fullness = (if opt_fullness opts \<noteq> [] then '' --fullness='' @ py_upper (opt_fullness opts)
                      else '' --fullness=QUICK'');
          path_cmd = path_join ''utils''
                       (test_runner_name cfg @ '' --test-name='' @ test @ multiple @ fullness);
          j = set_shell_command path_cmd j
      in if opt_valgrind opts \<and> test \<in> set core_valgrind_skip_tests
         then set_skip_reason ''crashes valgrind'' (set_is_skip True j) else j)"

definition suite_jobs :: "globals \<Rightarrow> options \<Rightarrow> string \<Rightarrow> string \<Rightarrow> string list \<Rightarrow> job list" where
  "suite_jobs cfg opts cwd outdir suites =
     map (suite_job cfg opts cwd outdir) (filter (\<lambda>t. t \<noteq> []) (map py_strip suites))"

section \<open>The examples\<close>

definition programs_dictionary :: "string list \<Rightarrow> (string, string) dict" where
  "programs_dictionary programs = fold (\<lambda>program d. dset (basename program) program d) programs []"

definition runnable_scripts :: "string list \<Rightarrow> string list" where
  "runnable_scripts scripts = map basename scripts"

text \<open>The examples of the example directories, of the enabled modules and of the contributed modules.\<close>

definition module_paths :: "string \<Rightarrow> string \<Rightarrow> string \<Rightarrow> string \<times> string \<times> string" where
  "module_paths builddir tree m =
     (let name = drop (length ''ns3-'') m;
          module_directory = path_join tree name;
          example_directory = path_join module_directory ''examples''
      in (path_join (path_join module_directory ''test'') ''examples-to-run.py'',
          path_join builddir example_directory, example_directory))"

definition directory_paths :: "string \<Rightarrow> string \<Rightarrow> string \<times> string \<times> string" where
  "directory_paths builddir directory =
     (let example_directory = path_join ''examples'' directory
      in (path_join example_directory ''examples-to-run.py'', path_join builddir example_directory,
          example_directory))"

definition collect_examples ::
  "globals \<Rightarrow> example_env \<Rightarrow> (string \<Rightarrow> py_error + (string \<times> string \<times> string) list)
     \<Rightarrow> (string \<Rightarrow> py_error + (string \<times> string) list) \<Rightarrow> py_error + examples" where
  "collect_examples cfg env eval_cpp eval_python =
     (let b = NS3_BUILDDIR cfg;
          places = map (directory_paths b) (EXAMPLE_DIRECTORIES cfg)
                   @ map (module_paths b ''src'') (NS3_ENABLED_MODULES cfg)
                   @ map (module_paths b ''contrib'') (NS3_ENABLED_CONTRIBUTED_MODULES cfg)
      in res_fold (\<lambda>(run_path, cpp_dir, script_dir).
                     parse_examples_to_run_file env eval_cpp eval_python run_path cpp_dir script_dir)
           places \<lparr>example_tests = [], example_names_original = [], python_tests = []\<rparr>)"

text \<open>The job of a C++ example, of a named example, and of a Python example.\<close>

definition example_job :: "options \<Rightarrow> string \<Rightarrow> string \<Rightarrow> string \<Rightarrow> string \<Rightarrow> job" where
  "example_job opts cwd outdir name test =
     set_build_path (opt_buildpath opts) (set_shell_command test (set_tempdir outdir (set_basedir cwd
       (set_cwd outdir (set_tmp_file_name '''' (set_display_name name
       (set_is_pyexample False (set_is_example True new_job))))))))"

definition pyexample_job :: "string \<Rightarrow> string \<Rightarrow> string \<Rightarrow> job" where
  "pyexample_job cwd outdir test =
     set_build_path '''' (set_shell_command test (set_tempdir outdir (set_basedir cwd
       (set_cwd outdir (set_tmp_file_name '''' (set_display_name test
       (set_is_pyexample True (set_is_example False new_job))))))))"

definition test_program :: "string \<Rightarrow> string" where
  "test_program test = basename (hd (split_once (CHR '' '') test))"

fun cpp_example_jobs ::
  "options \<Rightarrow> (string \<Rightarrow> py_error + bool) \<Rightarrow> (string, string) dict \<Rightarrow> string \<Rightarrow> string
     \<Rightarrow> (string \<times> string \<times> string \<times> string) list \<Rightarrow> py_error + job list" where
  "cpp_example_jobs opts eval programs cwd outdir [] = Inr []"
| "cpp_example_jobs opts eval programs cwd outdir ((name, test, do_run, do_valgrind_run) # rest) =
     (let others = cpp_example_jobs opts eval programs cwd outdir rest in
      if test_program test \<in> set (dkeys programs) then
        res_bind (eval do_run) (\<lambda>runs.
          if runs then
            res_bind (if opt_valgrind opts then res_bind (eval do_valgrind_run) (\<lambda>b. Inr (\<not> b)) else Inr False) (\<lambda>skip.
              let j = example_job opts cwd outdir name test;
                  j = (if skip then set_skip_reason ''skip in valgrind runs'' (set_is_skip True j) else j)
              in res_bind others (\<lambda>js. Inr (j # js)))
          else others)
      else others)"

fun py_example_jobs ::
  "options \<Rightarrow> globals \<Rightarrow> (string \<Rightarrow> py_error + bool) \<Rightarrow> string list \<Rightarrow> string \<Rightarrow> string
     \<Rightarrow> (string \<times> string) list \<Rightarrow> py_error + job list" where
  "py_example_jobs opts cfg eval scripts cwd outdir [] = Inr []"
| "py_example_jobs opts cfg eval scripts cwd outdir ((test, do_run) # rest) =
     (let others = py_example_jobs opts cfg eval scripts cwd outdir rest in
      if test_program test \<in> set scripts then
        res_bind (eval do_run) (\<lambda>runs.
          if runs then
            (let j = pyexample_job cwd outdir test;
                 j = (if opt_valgrind opts then set_skip_reason ''skip in valgrind runs'' (set_is_skip True j) else j);
                 j = (if \<not> ENABLE_PYTHON_BINDINGS cfg
                      then set_skip_reason ''requires Python bindings'' (set_is_skip True j) else j)
             in res_bind others (\<lambda>js. Inr (j # js)))
          else others)
      else others)"

definition no_selection :: "options \<Rightarrow> bool" where
  "no_selection opts \<longleftrightarrow> opt_suite opts = [] \<and> opt_example opts = [] \<and> opt_pyexample opts = []"

definition cpp_jobs ::
  "options \<Rightarrow> globals \<Rightarrow> (string \<Rightarrow> py_error + bool) \<Rightarrow> (string, string) dict \<Rightarrow> string \<Rightarrow> string
     \<Rightarrow> examples \<Rightarrow> py_error + job list" where
  "cpp_jobs opts cfg eval programs cwd outdir ex =
     (if no_selection opts then
        (if (opt_constrain opts = [] \<or> opt_constrain opts = ''example'') \<and> ENABLE_EXAMPLES cfg
         then cpp_example_jobs opts eval programs cwd outdir (example_tests ex)
         else Inr [])
      else if opt_example opts \<noteq> [] then
        (let example_name = program_name cfg (opt_example opts);
             key_list = fnmatch_filter (dkeys programs) example_name
         in Inr (map (\<lambda>name. let p = abspath cwd (the (dget programs name))
                             in example_job opts cwd outdir p p) key_list))
      else Inr [])"

definition py_jobs ::
  "options \<Rightarrow> globals \<Rightarrow> (string \<Rightarrow> py_error + bool) \<Rightarrow> string list \<Rightarrow> string \<Rightarrow> string
     \<Rightarrow> examples \<Rightarrow> py_error + job list" where
  "py_jobs opts cfg eval scripts cwd outdir ex =
     (if no_selection opts then
        (if (opt_constrain opts = [] \<or> opt_constrain opts = ''pyexample'') \<and> ENABLE_EXAMPLES cfg
         then py_example_jobs opts cfg eval scripts cwd outdir (python_tests ex)
         else Inr [])
      else if opt_pyexample opts \<noteq> [] then
        (if basename (opt_pyexample opts) \<notin> set scripts then Inr []
         else Inr [pyexample_job cwd outdir (opt_pyexample opts)])
      else Inr [])"

section \<open>The whole queue\<close>

text \<open>The jobs in the order in which they are put into the queue; \<^verbatim>\<open>jobs\<close> and \<^verbatim>\<open>total_tests\<close> count them.\<close>

definition dispatch_jobs ::
  "globals \<Rightarrow> options \<Rightarrow> runner \<Rightarrow> (string \<Rightarrow> py_error + bool) \<Rightarrow> (string, string) dict \<Rightarrow> string list
     \<Rightarrow> examples \<Rightarrow> string \<Rightarrow> string \<Rightarrow> py_error + job list" where
  "dispatch_jobs cfg opts run eval programs scripts ex cwd outdir =
     res_bind (suite_list cfg opts run cwd) (\<lambda>suites.
     res_bind (cpp_jobs opts cfg eval programs cwd outdir ex) (\<lambda>cpp.
     res_bind (py_jobs opts cfg eval scripts cwd outdir ex) (\<lambda>py.
       Inr (suite_jobs cfg opts cwd outdir suites @ cpp @ py))))"

definition break_job :: job where
  "break_job = set_is_break True new_job"

text \<open>The number of worker threads, given the number of processors of the machine.\<close>

definition worker_count :: "options \<Rightarrow> int \<Rightarrow> int" where
  "worker_count opts processors =
     (if opt_process_limit opts \<noteq> 0 then
        (if processors < opt_process_limit opts then processors else opt_process_limit opts)
      else processors)"

definition queue_content :: "int \<Rightarrow> job list \<Rightarrow> job list" where
  "queue_content processors js = js @ replicate (nat processors) break_job"

section \<open>Which tests are dispatched\<close>

lemma remove1_if_present:
  "distinct l \<Longrightarrow> (if t \<in> set l then remove1 t l else l) = filter (\<lambda>x. x \<noteq> t) l"
  by (induction l) (auto simp: filter_True)

lemma drop_tests_distinct:
  "distinct suites \<Longrightarrow> drop_tests tests suites = filter (\<lambda>t. t \<notin> set tests) suites"
proof (induction tests arbitrary: suites)
  case (Cons t tests)
  have "drop_tests (t # tests) suites = drop_tests tests (filter (\<lambda>x. x \<noteq> t) suites)"
    using remove1_if_present [OF Cons.prems] by (simp add: drop_tests_def)
  then show ?case using Cons by (simp add: conj_commute)
qed (simp add: drop_tests_def)

text \<open>Setters keep what they do not set.\<close>

lemma suite_job_fields:
  "\<not> is_break (suite_job cfg opts cwd outdir t)" "\<not> is_example (suite_job cfg opts cwd outdir t)"
  "\<not> is_pyexample (suite_job cfg opts cwd outdir t)" "display_name (suite_job cfg opts cwd outdir t) = t"
  "is_skip (suite_job cfg opts cwd outdir t) \<longleftrightarrow> opt_valgrind opts \<and> t \<in> set core_valgrind_skip_tests"
  by (simp_all add: suite_job_def job_setters new_job_def Let_def)

lemma example_job_fields:
  "\<not> is_break (example_job opts cwd outdir n t)" "is_example (example_job opts cwd outdir n t)"
  "\<not> is_break (pyexample_job cwd outdir t)" "is_pyexample (pyexample_job cwd outdir t)"
  by (simp_all add: example_job_def pyexample_job_def job_setters new_job_def)

lemma cpp_example_jobs_kind:
  "cpp_example_jobs opts eval programs cwd outdir es = Inr js \<Longrightarrow>
     (\<forall>j \<in> set js. is_example j \<and> \<not> is_break j) \<and> length js \<le> length es"
proof (induction opts eval programs cwd outdir es arbitrary: js rule: cpp_example_jobs.induct)
  case (2 opts eval programs cwd outdir name test do_run do_valgrind rest)
  note ih = "2.IH"
  from "2.prems" show ?case
    by (auto simp: Let_def res_bind_eq_Inr set_skip_reason_def set_is_skip_def example_job_fields
        split: if_splits dest!: ih)
qed simp

lemma py_example_jobs_kind:
  "py_example_jobs opts cfg eval scripts cwd outdir es = Inr js \<Longrightarrow>
     (\<forall>j \<in> set js. is_pyexample j \<and> \<not> is_break j \<and>
        (opt_valgrind opts \<or> \<not> ENABLE_PYTHON_BINDINGS cfg \<longrightarrow> is_skip j)) \<and> length js \<le> length es"
proof (induction opts cfg eval scripts cwd outdir es arbitrary: js rule: py_example_jobs.induct)
  case (2 opts cfg eval scripts cwd outdir test do_run rest)
  note ih = "2.IH"
  from "2.prems" show ?case
    by (auto simp: Let_def res_bind_eq_Inr set_skip_reason_def set_is_skip_def example_job_fields
        split: if_splits dest!: ih)
qed simp

lemma suite_jobs_not_break: "j \<in> set (suite_jobs cfg opts cwd outdir ss) \<Longrightarrow> \<not> is_break j \<and> \<not> is_example j \<and> \<not> is_pyexample j"
  by (auto simp: suite_jobs_def suite_job_fields)

lemma suite_jobs_names:
  "map display_name (suite_jobs cfg opts cwd outdir ss) = filter (\<lambda>t. t \<noteq> []) (map py_strip ss)"
  by (simp add: suite_jobs_def suite_job_fields comp_def)

lemma cpp_jobs_kind: "cpp_jobs opts cfg eval programs cwd outdir ex = Inr js \<Longrightarrow> j \<in> set js \<Longrightarrow> is_example j \<and> \<not> is_break j"
  by (auto simp: cpp_jobs_def Let_def example_job_fields dest: cpp_example_jobs_kind split: if_splits)

lemma py_jobs_kind:
  "py_jobs opts cfg eval scripts cwd outdir ex = Inr js \<Longrightarrow> j \<in> set js \<Longrightarrow>
     is_pyexample j \<and> \<not> is_break j \<and>
     (no_selection opts \<and> (opt_valgrind opts \<or> \<not> ENABLE_PYTHON_BINDINGS cfg) \<longrightarrow> is_skip j)"
  by (auto simp: py_jobs_def Let_def example_job_fields dest!: py_example_jobs_kind split: if_splits)


text \<open>A small configuration for the examples below: four suites, one of them a performance suite.\<close>

definition sample_globals :: globals where
  "sample_globals =
     \<lparr>NS3_BASEDIR = ''/ns3'', NS3_BUILDDIR = ''/ns3/build'', ENABLE_EXAMPLES = True, ENABLE_TESTS = True,
      ENABLE_PYTHON_BINDINGS = False, APPNAME = ''ns'', BUILD_PROFILE = ''debug'', VERSION = ''3.38'',
      PYTHON = [''python3''], VALGRIND_FOUND = True, EXAMPLE_DIRECTORIES = [], NS3_ENABLED_MODULES = [],
      NS3_ENABLED_CONTRIBUTED_MODULES = [], NS3_MODULE_PATH = []\<rparr>"

definition sample_suites :: string where
  "sample_suites = join [newline_char] [''tcp'', ''perf'', ''routing-click'', '''']"

definition sample_runner :: runner where
  "sample_runner cmd dir =
     \<lparr>pr_code = 0, pr_stdout = Some (if py_in ''performance'' cmd then ''perf'' @ [newline_char] else sample_suites),
      pr_stderr = Some [], pr_elapsed = 1 / 4\<rparr>"

definition sample_examples :: examples where
  "sample_examples = \<lparr>example_tests = [(''udp'', ''udp --n=1'', ''True'', ''False'')], example_names_original = [],
     python_tests = [(''first.py'', ''True'')]\<rparr>"


lemma distinct_filter_eq: "distinct xs \<Longrightarrow> filter (\<lambda>x. x = t) xs = (if t \<in> set xs then [t] else [])"
  by (induction xs) (auto simp: filter_False)

text \<open>
  \<^verbatim>\<open>--suite=t\<close> with a name \<open>t\<close> without wildcards that the test runner lists once runs this
  suite and no other, also when it is a performance suite; an unknown name ends the program with
  status 2 before any job is dispatched.
\<close>

theorem suite_list_named:
  assumes "opt_suite opts = t" and "t \<noteq> []" and "plain_pattern t"
    and "list_tests cfg run cwd [] = Inr listing" and "distinct (split_char newline_char listing)"
    and "newline_char \<notin> set t"
  shows "suite_list cfg opts run cwd =
    (if t \<in> set (split_char newline_char listing) then Inr [t] else Inl (SystemExit 2))"
proof -
  have found: "fnmatch_filter (split_char newline_char listing) t =
      (if t \<in> set (split_char newline_char listing) then [t] else [])"
  proof -
    have "fnmatch t = (\<lambda>s. s = t)" using fnmatch_plain [OF assms(3)] by auto
    then show ?thesis using distinct_filter_eq [OF assms(5), of t] by (simp add: fnmatch_filter_def)
  qed
  show ?thesis
    using assms by (simp add: suite_list_def choose_suites_def found split_char_no_sep)
qed

lemma suite_list_named_witness:
  "suite_list sample_globals (default_options\<lparr>opt_suite := ''perf''\<rparr>) sample_runner ''/ns3'' = Inr [''perf''] \<and>
   suite_list sample_globals (default_options\<lparr>opt_suite := ''none''\<rparr>) sample_runner ''/ns3'' = Inl (SystemExit 2)"
proof
  have listing: "list_tests sample_globals sample_runner ''/ns3'' [] = Inr sample_suites" by code_simp
  have dist: "distinct (split_char newline_char sample_suites)" by code_simp
  show "suite_list sample_globals (default_options\<lparr>opt_suite := ''perf''\<rparr>) sample_runner ''/ns3'' = Inr [''perf'']"
    by (subst suite_list_named [OF _ _ _ listing dist, where t = "''perf''"]) (code_simp+)
  show "suite_list sample_globals (default_options\<lparr>opt_suite := ''none''\<rparr>) sample_runner ''/ns3'' = Inl (SystemExit 2)"
    by (subst suite_list_named [OF _ _ _ listing dist, where t = "''none''"]) (code_simp+)
qed

end
