(* ===== verification/Test_Workers.thy ===== *)
theory Test_Workers
  imports Test_Jobs "HOL-Library.Multiset"
begin

text \<open>
  The worker threads of the test driver (\<^verbatim>\<open>simulation/test.py\<close>): the two queues, the loop of
  \<^verbatim>\<open>worker_thread.run\<close>, the main thread that puts the jobs and the break jobs and then gets one
  result per job, and the interrupt handler. The threads interleave freely: one rule of a step
  relation per atomic action.
\<close>

section \<open>Queues\<close>

text \<open>\<^verbatim>\<open>queue.Queue(0)\<close>: unbounded and first in, first out; \<^verbatim>\<open>get\<close> blocks while it is empty.\<close>

definition q_put :: "'a \<Rightarrow> 'a list \<Rightarrow> 'a list" where
  "q_put x q = q @ [x]"

fun q_get :: "'a list \<Rightarrow> ('a \<times> 'a list) option" where
  "q_get [] = None"
| "q_get (x # q) = Some (x, q)"

text \<open>
  What the threads rely on: nothing is lost or invented, and if everything before some point
  satisfies a predicate and nothing after it does, puts and gets keep it so.
\<close>

locale fifo_queue =
  fixes put :: "'a \<Rightarrow> 'q \<Rightarrow> 'q"
    and get :: "'q \<Rightarrow> ('a \<times> 'q) option"
    and content :: "'q \<Rightarrow> 'a list"
  assumes content_put: "content (put x q) = content q @ [x]"
    and get_None: "get q = None \<longleftrightarrow> content q = []"
    and get_Some: "get q = Some (x, q') \<Longrightarrow> content q = x # content q'"
begin

lemma mset_put: "mset (content (put x q)) = add_mset x (mset (content q))"
  by (simp add: content_put)

lemma mset_get: "get q = Some (x, q') \<Longrightarrow> mset (content q) = add_mset x (mset (content q'))"
  by (simp add: get_Some)

lemma get_exists: "content q \<noteq> [] \<Longrightarrow> \<exists>x q'. get q = Some (x, q')"
  using get_None [of q] by (cases "get q") auto

text \<open>\<open>ordered P xs\<close>: the elements with \<open>P\<close> come first.\<close>

definition ordered :: "('a \<Rightarrow> bool) \<Rightarrow> 'a list \<Rightarrow> bool" where
  "ordered P xs \<longleftrightarrow> (\<forall>x \<in> set (dropWhile P xs). \<not> P x)"

lemma ordered_ConsD:
  assumes "ordered P (x # xs)"
  shows "ordered P xs \<and> (\<not> P x \<longrightarrow> (\<forall>y \<in> set xs. \<not> P y))"
proof (cases "P x")
  case True
  with assms show ?thesis by (simp add: ordered_def)
next
  case False
  with assms have "\<forall>y \<in> set xs. \<not> P y" by (simp add: ordered_def)
  then show ?thesis unfolding ordered_def by (blast dest: set_dropWhileD)
qed

lemma ordered_pending: "ordered P (content (put x q) @ rest) = ordered P (content q @ x # rest)"
  by (simp add: content_put)

lemma ordered_get:
  assumes "get q = Some (x, q')" and "ordered P (content q @ rest)"
  shows "ordered P (content q' @ rest) \<and> (\<not> P x \<longrightarrow> (\<forall>y \<in> set (content q' @ rest). \<not> P y))"
proof -
  have "ordered P (x # content q' @ rest)" using assms(2) unfolding get_Some [OF assms(1)] by simp
  then show ?thesis by (rule ordered_ConsD)
qed

lemma ordered_append: "\<forall>x \<in> set as. P x \<Longrightarrow> \<forall>x \<in> set bs. \<not> P x \<Longrightarrow> ordered P (as @ bs)"
  by (induction as) (auto simp: ordered_def dest: set_dropWhileD)

end

interpretation fifo: fifo_queue q_put q_get "\<lambda>q. q"
proof
  show "q_get q = None \<longleftrightarrow> q = []" for q :: "'a list" by (cases q) simp_all
  show "q = x # q'" if "q_get q = Some (x, q')" for q q' :: "'a list" and x using that by (cases q) simp_all
qed (simp add: q_put_def)

section \<open>Threads\<close>

text \<open>
  A worker waits for a job, holds the job it got, has a result to put, has returned, or has died of
  an exception.
\<close>

datatype wstate = Waiting | Holding job | Busy job "py_error + job" | Stopped | Crashed job

text \<open>
  \<open>to_put\<close> are the jobs the main thread has still to put, in order, \<open>to_get\<close> counts the results it
  has still to get, \<open>results\<close> are those it got.
\<close>

record pool =
  to_put :: "job list"
  inq :: "job list"
  workers :: "wstate list"
  outq :: "job list"
  to_get :: nat
  results :: "job list"
  thread_exit :: bool

definition start_pool :: "int \<Rightarrow> job list \<Rightarrow> pool" where
  "start_pool processors js =
     \<lparr>to_put = queue_content processors js, inq = [], workers = replicate (nat processors) Waiting,
      outq = [], to_get = length js, results = [], thread_exit = False\<rparr>"

text \<open>
  The steps of the program: the main thread puts a job; a worker gets a job and returns if it is a
  break job; a worker reads \<^verbatim>\<open>thread_exit\<close> and does the work; it puts the result and loops, or dies of
  the exception; the main thread gets a result. \<open>perform e j\<close> is the body of the loop on the job
  \<open>j\<close> when \<^verbatim>\<open>thread_exit\<close> is \<open>e\<close>.
\<close>

inductive pool_step :: "(bool \<Rightarrow> job \<Rightarrow> py_error + job) \<Rightarrow> pool \<Rightarrow> pool \<Rightarrow> bool"
  for perform :: "bool \<Rightarrow> job \<Rightarrow> py_error + job" where
  put_job: "to_put s = j # js \<Longrightarrow> pool_step perform s (s\<lparr>to_put := js, inq := q_put j (inq s)\<rparr>)"
| take_break: "i < length (workers s) \<Longrightarrow> workers s ! i = Waiting \<Longrightarrow> q_get (inq s) = Some (j, q) \<Longrightarrow> is_break j \<Longrightarrow>
    pool_step perform s (s\<lparr>inq := q, workers := (workers s)[i := Stopped]\<rparr>)"
| take_job: "i < length (workers s) \<Longrightarrow> workers s ! i = Waiting \<Longrightarrow> q_get (inq s) = Some (j, q) \<Longrightarrow> \<not> is_break j \<Longrightarrow>
    pool_step perform s (s\<lparr>inq := q, workers := (workers s)[i := Holding j]\<rparr>)"
| do_work: "i < length (workers s) \<Longrightarrow> workers s ! i = Holding j \<Longrightarrow>
    pool_step perform s (s\<lparr>workers := (workers s)[i := Busy j (perform (thread_exit s) j)]\<rparr>)"
| put_result: "i < length (workers s) \<Longrightarrow> workers s ! i = Busy j (Inr j') \<Longrightarrow>
    pool_step perform s (s\<lparr>outq := q_put j' (outq s), workers := (workers s)[i := Waiting]\<rparr>)"
| die: "i < length (workers s) \<Longrightarrow> workers s ! i = Busy j (Inl e) \<Longrightarrow>
    pool_step perform s (s\<lparr>workers := (workers s)[i := Crashed j]\<rparr>)"
| get_result: "to_put s = [] \<Longrightarrow> to_get s = Suc n \<Longrightarrow> q_get (outq s) = Some (j, q) \<Longrightarrow>
    pool_step perform s (s\<lparr>outq := q, to_get := n, results := results s @ [j]\<rparr>)"

text \<open>\<^verbatim>\<open>sigint_hook\<close> may run at any time.\<close>

definition sigint_hook :: "pool \<Rightarrow> pool" where
  "sigint_hook s = s\<lparr>thread_exit := True\<rparr>"

inductive pool_run :: "(bool \<Rightarrow> job \<Rightarrow> py_error + job) \<Rightarrow> pool \<Rightarrow> nat \<Rightarrow> pool \<Rightarrow> bool"
  for perform :: "bool \<Rightarrow> job \<Rightarrow> py_error + job" and s0 :: pool where
  run_start: "pool_run perform s0 0 s0"
| run_step: "pool_run perform s0 n s \<Longrightarrow> pool_step perform s s' \<Longrightarrow> pool_run perform s0 (Suc n) s'"
| run_interrupt: "pool_run perform s0 n s \<Longrightarrow> pool_run perform s0 n (sigint_hook s)"

text \<open>The main thread leaves the loop over the results and the loop that joins the threads.\<close>

definition main_done :: "pool \<Rightarrow> bool" where
  "main_done s \<longleftrightarrow> to_put s = [] \<and> to_get s = 0 \<and> (\<forall>w \<in> set (workers s). w = Stopped \<or> (\<exists>j. w = Crashed j))"

inductive_cases pool_stepE: "pool_step perform s s'"

section \<open>Every run ends\<close>

text \<open>The steps that are left: five for a job that has still to be put, two for a break job.\<close>

fun put_weight :: "job \<Rightarrow> nat" where
  "put_weight j = (if is_break j then 2 else 5)"

fun take_weight :: "job \<Rightarrow> nat" where
  "take_weight j = (if is_break j then 1 else 4)"

fun worker_weight :: "wstate \<Rightarrow> nat" where
  "worker_weight (Holding j) = 3"
| "worker_weight (Busy j r) = 2"
| "worker_weight w = 0"

definition steps_left :: "pool \<Rightarrow> nat" where
  "steps_left s =
     sum_list (map put_weight (to_put s)) + sum_list (map take_weight (inq s))
     + sum_list (map worker_weight (workers s)) + length (outq s)"

lemma q_get_eq: "q_get q = Some (j, q') \<longleftrightarrow> q = j # q'"
  by (cases q) auto

lemma worker_weight_update:
  "i < length ws \<Longrightarrow>
     sum_list (map worker_weight (ws[i := w])) + worker_weight (ws ! i) = sum_list (map worker_weight ws) + worker_weight w"
  by (rule sum_list_update_add)

lemma pool_step_left: "pool_step perform s s' \<Longrightarrow> steps_left s' < steps_left s"
proof (induction rule: pool_step.induct)
  case (put_job s j js)
  then show ?case by (simp add: steps_left_def q_put_def)
next
  case (take_break i s j q)
  then show ?case using worker_weight_update [of i "workers s" Stopped] by (simp add: steps_left_def q_get_eq)
next
  case (take_job i s j q)
  then show ?case using worker_weight_update [of i "workers s" "Holding j"] by (simp add: steps_left_def q_get_eq)
next
  case (do_work i s j)
  then show ?case using worker_weight_update [of i "workers s" "Busy j (perform (thread_exit s) j)"]
    by (simp add: steps_left_def)
next
  case (put_result i s j j')
  then show ?case using worker_weight_update [of i "workers s" Waiting] by (simp add: steps_left_def q_put_def)
next
  case (die i s j e)
  then show ?case using worker_weight_update [of i "workers s" "Crashed j"] by (simp add: steps_left_def)
next
  case (get_result s n j q)
  then show ?case by (simp add: steps_left_def q_get_eq)
qed

lemma pool_run_left: "pool_run perform s0 n s \<Longrightarrow> n + steps_left s \<le> steps_left s0"
proof (induction rule: pool_run.induct)
  case (run_step n s s')
  then show ?case using pool_step_left [OF run_step.hyps(2)] by simp
next
  case (run_interrupt n s)
  then show ?case by (simp add: steps_left_def sigint_hook_def)
qed simp

section \<open>The invariant\<close>

text \<open>The job as it was dispatched: the fields a worker writes are reset.\<close>

definition ident :: "job \<Rightarrow> job" where
  "ident j = j\<lparr>is_break := False, returncode := 0, elapsed_time := 0\<rparr>"

definition fresh_job :: "job \<Rightarrow> bool" where
  "fresh_job j \<longleftrightarrow> ident j = j"

fun held :: "wstate \<Rightarrow> job multiset" where
  "held (Holding j) = {#j#}"
| "held (Busy j r) = {#j#}"
| "held (Crashed j) = {#j#}"
| "held w = {#}"

definition all_held :: "wstate list \<Rightarrow> job multiset" where
  "all_held ws = sum_list (map held ws)"

fun has_stopped :: "wstate \<Rightarrow> nat" where
  "has_stopped Stopped = 1"
| "has_stopped w = 0"

definition pending_jobs :: "pool \<Rightarrow> job list" where
  "pending_jobs s = inq s @ to_put s"

definition accounted :: "job list \<Rightarrow> pool \<Rightarrow> bool" where
  "accounted js s \<longleftrightarrow>
     mset (filter (\<lambda>j. \<not> is_break j) (pending_jobs s)) + all_held (workers s)
     + image_mset ident (mset (outq s @ results s)) = mset js"

fun honest_worker :: "(bool \<Rightarrow> job \<Rightarrow> py_error + job) \<Rightarrow> bool \<Rightarrow> wstate \<Rightarrow> bool" where
  "honest_worker perform te (Busy j r) = (\<exists>e. (e \<longrightarrow> te) \<and> r = perform e j)"
| "honest_worker perform te (Crashed j) = (\<exists>e x. (e \<longrightarrow> te) \<and> perform e j = Inl x)"
| "honest_worker perform te w = True"

definition honest_result :: "(bool \<Rightarrow> job \<Rightarrow> py_error + job) \<Rightarrow> bool \<Rightarrow> job \<Rightarrow> bool" where
  "honest_result perform te r \<longleftrightarrow> (\<exists>e. (e \<longrightarrow> te) \<and> perform e (ident r) = Inr r)"

definition honest :: "(bool \<Rightarrow> job \<Rightarrow> py_error + job) \<Rightarrow> pool \<Rightarrow> bool" where
  "honest perform s \<longleftrightarrow>
     (\<forall>w \<in> set (workers s). honest_worker perform (thread_exit s) w) \<and>
     (\<forall>r \<in> set (outq s @ results s). honest_result perform (thread_exit s) r)"

definition break_balance :: "nat \<Rightarrow> pool \<Rightarrow> bool" where
  "break_balance p s \<longleftrightarrow> length (workers s) = p \<and>
     length (filter is_break (pending_jobs s)) + sum_list (map has_stopped (workers s)) = p"

definition jobs_first :: "pool \<Rightarrow> bool" where
  "jobs_first s \<longleftrightarrow> fifo.ordered (\<lambda>j. \<not> is_break j) (pending_jobs s) \<and>
     (Stopped \<in> set (workers s) \<longrightarrow> (\<forall>j \<in> set (pending_jobs s). is_break j))"

definition gets_left :: "job list \<Rightarrow> pool \<Rightarrow> bool" where
  "gets_left js s \<longleftrightarrow> to_get s + length (results s) = length js"

lemmas pool_invs = accounted_def honest_def break_balance_def jobs_first_def gets_left_def

lemma all_held_update:
  "i < length ws \<Longrightarrow> all_held (ws[i := w]) + held (ws ! i) = all_held ws + held w"
  unfolding all_held_def by (rule sum_list_update_add)

lemma has_stopped_update:
  "i < length ws \<Longrightarrow>
     sum_list (map has_stopped (ws[i := w])) + has_stopped (ws ! i) = sum_list (map has_stopped ws) + has_stopped w"
  by (rule sum_list_update_add)

lemma held_dispatched: "i < length (workers s) \<Longrightarrow> accounted js s \<Longrightarrow> j \<in># held (workers s ! i) \<Longrightarrow> j \<in># mset js"
proof -
  assume i: "i < length (workers s)" and acc: "accounted js s" and j: "j \<in># held (workers s ! i)"
  have "all_held (workers s) = all_held ((workers s)[i := Waiting]) + held (workers s ! i)"
    using all_held_update [OF i, of Waiting] by simp
  with j have "j \<in># all_held (workers s)" by simp
  then show "j \<in># mset js" using acc by (metis accounted_def union_iff)
qed

lemma honest_at: "honest perform s \<Longrightarrow> i < length (workers s) \<Longrightarrow> honest_worker perform (thread_exit s) (workers s ! i)"
  by (simp add: honest_def)

lemma honest_update:
  assumes "honest perform s" and "honest_worker perform (thread_exit s) w"
  shows "\<forall>x \<in> set ((workers s)[i := w]). honest_worker perform (thread_exit s) x"
  using assms set_update_subset_insert [of "workers s" i w] unfolding honest_def by blast

lemma honest_worker_interrupted: "honest_worker perform te w \<Longrightarrow> honest_worker perform True w"
  by (cases w) auto

lemma honest_result_interrupted: "honest_result perform te r \<Longrightarrow> honest_result perform True r"
  by (auto simp: honest_result_def)

lemma honest_interrupt:
  assumes "honest perform s"
  shows "honest perform (sigint_hook s)"
proof -
  have "\<forall>w \<in> set (workers s). honest_worker perform True w"
    using assms honest_worker_interrupted unfolding honest_def by blast
  moreover have "\<forall>r \<in> set (outq s @ results s). honest_result perform True r"
    using assms honest_result_interrupted unfolding honest_def by blast
  ultimately show ?thesis by (simp add: honest_def sigint_hook_def)
qed

lemma accounted_step:
  assumes ident: "\<And>e j j'. perform e j = Inr j' \<Longrightarrow> ident j' = ident j"
    and fresh: "\<forall>j \<in> set js. fresh_job j"
  shows "pool_step perform s s' \<Longrightarrow> honest perform s \<Longrightarrow> accounted js s \<Longrightarrow> accounted js s'"
proof (induction rule: pool_step.induct)
  case (put_job s j rest)
  then show ?case by (simp add: accounted_def pending_jobs_def q_put_def)
next
  case (take_break i s j q)
  then show ?case using all_held_update [of i "workers s" Stopped]
    by (simp add: accounted_def pending_jobs_def q_get_eq)
next
  case (take_job i s j q)
  then show ?case using all_held_update [of i "workers s" "Holding j"]
    by (simp add: accounted_def pending_jobs_def q_get_eq)
next
  case (do_work i s j)
  then show ?case using all_held_update [of i "workers s" "Busy j (perform (thread_exit s) j)"]
    by (simp add: accounted_def pending_jobs_def)
next
  case (put_result i s j j')
  from honest_at [OF put_result.prems(1) put_result.hyps(1)] put_result.hyps(2) obtain e where "perform e j = Inr j'" by auto
  moreover have "j \<in># mset js" using held_dispatched [OF put_result.hyps(1) put_result.prems(2)] put_result.hyps(2) by simp
  ultimately have "ident j' = j" using ident fresh by (metis fresh_job_def set_mset_mset)
  moreover have "all_held (workers s) = add_mset j (all_held ((workers s)[i := Waiting]))"
    using all_held_update [OF put_result.hyps(1), of Waiting] put_result.hyps(2) by simp
  ultimately show ?case using put_result.prems(2) by (simp add: accounted_def pending_jobs_def q_put_def)
next
  case (die i s j e)
  then show ?case using all_held_update [of i "workers s" "Crashed j"]
    by (simp add: accounted_def pending_jobs_def)
next
  case (get_result s n j q)
  then show ?case by (simp add: accounted_def pending_jobs_def q_get_eq)
qed

lemma honest_step:
  assumes ident: "\<And>e j j'. perform e j = Inr j' \<Longrightarrow> ident j' = ident j"
    and fresh: "\<forall>j \<in> set js. fresh_job j"
  shows "pool_step perform s s' \<Longrightarrow> accounted js s \<Longrightarrow> honest perform s \<Longrightarrow> honest perform s'"
proof (induction rule: pool_step.induct)
  case (put_result i s j j')
  from honest_at [OF put_result.prems(2) put_result.hyps(1)] put_result.hyps(2)
  have "\<exists>e. (e \<longrightarrow> thread_exit s) \<and> Inr j' = perform e j" by simp
  then obtain e where e: "e \<longrightarrow> thread_exit s" "perform e j = Inr j'" by metis
  have "j \<in># mset js" using held_dispatched [OF put_result.hyps(1) put_result.prems(1)] put_result.hyps(2) by simp
  then have "ident j' = j" using ident [OF e(2)] fresh by (metis fresh_job_def set_mset_mset)
  with e have "honest_result perform (thread_exit s) j'" unfolding honest_result_def by metis
  with put_result.prems(2) honest_update [OF put_result.prems(2), of Waiting i] show ?case
    by (simp add: honest_def q_put_def)
next
  case (die i s j e)
  from honest_at [OF die.prems(2) die.hyps(1)] die.hyps(2)
  have "honest_worker perform (thread_exit s) (Crashed j)" by (auto intro: sym)
  with die.prems(2) honest_update [OF die.prems(2), of "Crashed j" i] show ?case by (simp add: honest_def)
next
  case (take_break i s j q)
  with honest_update [of perform s Stopped i] show ?case by (simp add: honest_def)
next
  case (take_job i s j q)
  with honest_update [of perform s "Holding j" i] show ?case by (simp add: honest_def)
next
  case (do_work i s j)
  have "honest_worker perform (thread_exit s) (Busy j (perform (thread_exit s) j))" by auto
  with do_work.prems(2) honest_update [OF do_work.prems(2) this, of i] show ?case by (simp add: honest_def)
qed (auto simp: honest_def q_get_eq)

lemma break_balance_step: "pool_step perform s s' \<Longrightarrow> break_balance p s \<Longrightarrow> break_balance p s'"
proof (induction rule: pool_step.induct)
  case (take_break i s j q)
  then show ?case using has_stopped_update [of i "workers s" Stopped]
    by (simp add: break_balance_def pending_jobs_def q_get_eq)
next
  case (take_job i s j q)
  then show ?case using has_stopped_update [of i "workers s" "Holding j"]
    by (simp add: break_balance_def pending_jobs_def q_get_eq)
next
  case (do_work i s j)
  then show ?case using has_stopped_update [of i "workers s" "Busy j (perform (thread_exit s) j)"]
    by (simp add: break_balance_def pending_jobs_def)
next
  case (put_result i s j j')
  then show ?case using has_stopped_update [of i "workers s" Waiting]
    by (simp add: break_balance_def pending_jobs_def)
next
  case (die i s j e)
  then show ?case using has_stopped_update [of i "workers s" "Crashed j"]
    by (simp add: break_balance_def pending_jobs_def)
qed (simp_all add: break_balance_def pending_jobs_def q_put_def)

lemma jobs_first_step: "pool_step perform s s' \<Longrightarrow> jobs_first s \<Longrightarrow> jobs_first s'"
proof (induction rule: pool_step.induct)
  case (put_job s j js)
  then show ?case by (simp add: jobs_first_def pending_jobs_def q_put_def)
next
  case (take_break i s j q)
  then have "fifo.ordered (\<lambda>j. \<not> is_break j) (q @ to_put s) \<and> (\<forall>j \<in> set (q @ to_put s). is_break j)"
    using fifo.ordered_get [of "inq s" j q "\<lambda>j. \<not> is_break j" "to_put s"] by (simp add: jobs_first_def pending_jobs_def)
  then show ?case using take_break by (simp add: jobs_first_def pending_jobs_def)
next
  case (take_job i s j q)
  then have "fifo.ordered (\<lambda>j. \<not> is_break j) (q @ to_put s)"
    using fifo.ordered_get [of "inq s" j q "\<lambda>j. \<not> is_break j" "to_put s"] by (simp add: jobs_first_def pending_jobs_def)
  moreover have "Stopped \<notin> set (workers s)" using take_job by (auto simp: jobs_first_def pending_jobs_def q_get_eq)
  ultimately show ?case using take_job set_update_subset_insert [of "workers s" i "Holding j"]
    by (auto simp: jobs_first_def pending_jobs_def)
next
  case (do_work i s j)
  then show ?case using set_update_subset_insert [of "workers s" i "Busy j (perform (thread_exit s) j)"]
    by (auto simp: jobs_first_def pending_jobs_def)
next
  case (put_result i s j j')
  then show ?case using set_update_subset_insert [of "workers s" i Waiting]
    by (auto simp: jobs_first_def pending_jobs_def)
next
  case (die i s j e)
  then show ?case using set_update_subset_insert [of "workers s" i "Crashed j"]
    by (auto simp: jobs_first_def pending_jobs_def)
next
  case (get_result s n j q)
  then show ?case by (simp add: jobs_first_def pending_jobs_def)
qed

lemma gets_left_step: "pool_step perform s s' \<Longrightarrow> gets_left js s \<Longrightarrow> gets_left js s'"
  by (erule pool_stepE) (simp_all add: gets_left_def)

section \<open>Reachable states\<close>

text \<open>
  What a pool may rely on about the work: the job that comes back is the job that was given, up to
  the fields that a worker writes.
\<close>

locale task_runner =
  fixes perform :: "bool \<Rightarrow> job \<Rightarrow> py_error + job"
  assumes perform_ident: "perform e j = Inr j' \<Longrightarrow> ident j' = ident j"
begin

lemma run_invariant:
  assumes "pool_run perform (start_pool p js) n s"
    and fresh: "\<forall>j \<in> set js. fresh_job j" and nb: "\<forall>j \<in> set js. \<not> is_break j"
  shows "accounted js s \<and> honest perform s \<and> break_balance (nat p) s \<and> jobs_first s \<and> gets_left js s"
  using assms(1)
proof (induction rule: pool_run.induct)
  case run_start
  have "filter (\<lambda>j. \<not> is_break j) js = js" "filter is_break js = []" using nb by (simp_all add: filter_False)
  moreover have "is_break break_job" by (simp add: break_job_def set_is_break_def)
  ultimately show ?case using nb
    by (simp add: accounted_def honest_def break_balance_def jobs_first_def gets_left_def start_pool_def
        pending_jobs_def queue_content_def all_held_def sum_list_replicate_zero fifo.ordered_append)
next
  case (run_step n s s')
  have "accounted js s'"
    by (rule accounted_step [OF _ fresh run_step.hyps(2)]) (use run_step.IH perform_ident in blast)+
  moreover have "honest perform s'"
    by (rule honest_step [OF _ fresh run_step.hyps(2)]) (use run_step.IH perform_ident in blast)+
  ultimately show ?case
    using run_step.IH run_step.hyps(2) break_balance_step jobs_first_step gets_left_step by blast
next
  case (run_interrupt n s)
  have "honest perform (sigint_hook s)" using run_interrupt.IH honest_interrupt by blast
  with run_interrupt.IH show ?case
    by (simp add: accounted_def break_balance_def jobs_first_def gets_left_def sigint_hook_def pending_jobs_def)
qed

text \<open>When the main thread is done every job has been returned once, with an honest result.\<close>

lemma done_results:
  assumes "pool_run perform (start_pool p js) n s"
    and "\<forall>j \<in> set js. fresh_job j" and "\<forall>j \<in> set js. \<not> is_break j" and "main_done s"
  shows "mset (map ident (results s)) = mset js \<and> (\<forall>r \<in> set (results s). honest_result perform (thread_exit s) r)"
proof -
  from run_invariant [OF assms(1-3)] have acc: "accounted js s" and "honest perform s" and "gets_left js s" by auto
  then have "length (results s) = length js" using assms(4) by (simp add: gets_left_def main_done_def)
  moreover have "image_mset ident (mset (results s)) \<subseteq># mset js"
    using acc by (simp add: accounted_def subset_mset.le_iff_add) (metis add.commute add.assoc)
  ultimately have "image_mset ident (mset (results s)) = mset js"
    by (metis mset_subset_size nat_neq_iff size_image_mset size_mset subset_mset.le_imp_less_or_eq)
  with \<open>honest perform s\<close> show ?thesis by (simp add: honest_def)
qed

lemma no_worker_no_result:
  "pool_run perform (start_pool p js) n s \<Longrightarrow> workers s = [] \<Longrightarrow> outq s = [] \<and> results s = []"
proof (induction rule: pool_run.induct)
  case (run_step n s s')
  from run_step.hyps(2) run_step.prems run_step.IH show ?case by cases (simp_all add: q_get_eq)
qed (simp_all add: start_pool_def sigint_hook_def)

lemma stuck_workers:
  assumes stuck: "\<nexists>s'. pool_step perform s s'" and w: "w \<in> set (workers s)"
  shows "(w = Waiting \<and> inq s = []) \<or> w = Stopped \<or> (\<exists>j. w = Crashed j)"
proof -
  from w obtain i where i: "i < length (workers s)" "workers s ! i = w" by (auto simp: in_set_conv_nth)
  show ?thesis
  proof (cases w)
    case Waiting
    have "inq s = []"
    proof (rule ccontr)
      assume "inq s \<noteq> []"
      then obtain j q where "q_get (inq s) = Some (j, q)" using fifo.get_exists by blast
      with i Waiting stuck show False
        using pool_step.take_break [of i s j q perform] pool_step.take_job [of i s j q perform] by blast
    qed
    with Waiting show ?thesis by simp
  next
    case (Holding j)
    with i stuck pool_step.do_work [of i s j perform] show ?thesis by blast
  next
    case (Busy j r)
    then show ?thesis
      using i stuck pool_step.die [of i s j _ perform] pool_step.put_result [of i s j _ perform] by (cases r) blast+
  qed simp_all
qed

lemma stuck_to_put: "\<nexists>s'. pool_step perform s s' \<Longrightarrow> to_put s = []"
  by (metis neq_Nil_conv pool_step.put_job)

lemma stuck_outq: "\<nexists>s'. pool_step perform s s' \<Longrightarrow> outq s = [] \<or> to_get s = 0"
  by (metis fifo.get_exists not0_implies_Suc pool_step.get_result stuck_to_put)

lemma all_stopped: "sum_list (map has_stopped ws) = length ws \<Longrightarrow> \<forall>w \<in> set ws. w = Stopped"
proof (induction ws)
  case (Cons w ws)
  have "sum_list (map has_stopped ws) \<le> length ws"
  proof (induction ws)
    case (Cons v ws)
    then show ?case by (cases v) simp_all
  qed simp
  with Cons show ?case by (cases w) simp_all
qed simp

lemma held_empty: "all_held ws = {#} \<Longrightarrow> Crashed j \<notin> set ws"
  by (induction ws) (auto simp: all_held_def)

lemma held_stopped: "\<forall>w \<in> set ws. w = Stopped \<Longrightarrow> all_held ws = {#}"
  by (induction ws) (auto simp: all_held_def)

text \<open>The program cannot get stuck: the only states without a step are those where it is done.\<close>

lemma stuck_done:
  assumes run: "pool_run perform (start_pool p js) n s"
    and js: "\<forall>j \<in> set js. fresh_job j" "\<forall>j \<in> set js. \<not> is_break j"
    and stuck: "\<nexists>s'. pool_step perform s s'" and nocrash: "\<forall>j. Crashed j \<notin> set (workers s)"
    and p: "0 < p"
  shows "main_done s"
proof -
  from run_invariant [OF run js] have acc: "accounted js s" and bal: "break_balance (nat p) s"
    and first: "jobs_first s" and left: "gets_left js s" by auto
  have put: "to_put s = []" using stuck by (rule stuck_to_put)
  have "w = Stopped" if w: "w \<in> set (workers s)" for w
  proof (rule ccontr)
    assume no: "w \<noteq> Stopped"
    with stuck_workers [OF stuck w] nocrash w have "inq s = []" by auto
    with put bal have "sum_list (map has_stopped (workers s)) = length (workers s)"
      by (simp add: break_balance_def pending_jobs_def)
    with w no show False using all_stopped by blast
  qed
  then have stopped: "\<forall>w \<in> set (workers s). w = Stopped" by blast
  moreover have "workers s \<noteq> []" using bal p by (auto simp: break_balance_def)
  ultimately have "Stopped \<in> set (workers s)" by (metis list.set_intros(1) neq_Nil_conv)
  then have brk: "\<forall>j \<in> set (pending_jobs s). is_break j" using first by (simp add: jobs_first_def)
  then have "filter (\<lambda>j. \<not> is_break j) (pending_jobs s) = []" by (simp add: filter_empty_conv)
  with acc held_stopped [OF stopped] have "image_mset ident (mset (outq s @ results s)) = mset js"
    by (simp add: accounted_def)
  then have "length (outq s) + length (results s) = length js" by (metis length_append size_image_mset size_mset)
  then have "to_get s = 0" using stuck_outq [OF stuck] left by (auto simp: gets_left_def)
  with put stopped show ?thesis by (simp add: main_done_def)
qed

text \<open>A job on which a worker dies is never returned, and without workers no job is.\<close>

lemma done_no_crash:
  assumes run: "pool_run perform (start_pool p js) n s"
    and js: "\<forall>j \<in> set js. fresh_job j" "\<forall>j \<in> set js. \<not> is_break j" and fin: "main_done s"
  shows "Crashed j \<notin> set (workers s) \<and> (0 < p \<or> js = [])"
proof
  from run_invariant [OF run js] have acc: "accounted js s" and bal: "break_balance (nat p) s"
    and left: "gets_left js s" by auto
  have len: "length (results s) = length js" using fin left by (simp add: main_done_def gets_left_def)
  have "size (mset js) = size (all_held (workers s)) + length (outq s) + length (results s)
      + length (filter (\<lambda>j. \<not> is_break j) (pending_jobs s))"
    using arg_cong [OF acc [unfolded accounted_def], of size] by (simp flip: mset_filter)
  with len have "all_held (workers s) = {#}" by simp
  then show "Crashed j \<notin> set (workers s)" by (rule held_empty)
  show "0 < p \<or> js = []"
  proof (rule ccontr)
    assume "\<not> (0 < p \<or> js = [])"
    with bal have "workers s = []" by (simp add: break_balance_def)
    with no_worker_no_result [OF run] len \<open>\<not> (0 < p \<or> js = [])\<close> show False by simp
  qed
qed

end

section \<open>The jobs of the test driver\<close>

text \<open>
  The body of the loop of a worker. What the process of a job does is fixed by \<open>outcome\<close>, job by
  job, before the run, so that the order of the threads is the only choice left.
\<close>

definition thread_body :: "globals \<Rightarrow> options \<Rightarrow> (job \<Rightarrow> runner) \<Rightarrow> bool \<Rightarrow> job \<Rightarrow> py_error + job" where
  "thread_body cfg opts outcome te j = work cfg opts (outcome j) te j"

lemma thread_body_ident: "thread_body cfg opts outcome te j = Inr j' \<Longrightarrow> ident j' = ident j"
  by (auto simp: thread_body_def work_def ident_def job_setters res_bind_eq_Inr Let_def split: if_splits)

interpretation worker: task_runner "thread_body cfg opts outcome" for cfg opts outcome
  by unfold_locales (rule thread_body_ident)

lemma thread_body_interrupted: "thread_body cfg opts outcome True j = Inr j' \<Longrightarrow> is_break j'"
  by (auto simp: thread_body_def work_def set_is_break_def)

lemma cpp_example_jobs_fresh:
  "cpp_example_jobs opts eval programs cwd outdir es = Inr js \<Longrightarrow> \<forall>j \<in> set js. fresh_job j"
proof (induction opts eval programs cwd outdir es arbitrary: js rule: cpp_example_jobs.induct)
  case (2 opts eval programs cwd outdir name test do_run do_valgrind rest)
  note ih = "2.IH"
  from "2.prems" show ?case
    by (auto simp: Let_def res_bind_eq_Inr example_job_def job_setters new_job_def fresh_job_def ident_def
        split: if_splits dest!: ih)
qed simp

lemma py_example_jobs_fresh:
  "py_example_jobs opts cfg eval scripts cwd outdir es = Inr js \<Longrightarrow> \<forall>j \<in> set js. fresh_job j"
proof (induction opts cfg eval scripts cwd outdir es arbitrary: js rule: py_example_jobs.induct)
  case (2 opts cfg eval scripts cwd outdir test do_run rest)
  note ih = "2.IH"
  from "2.prems" show ?case
    by (auto simp: Let_def res_bind_eq_Inr pyexample_job_def job_setters new_job_def fresh_job_def ident_def
        split: if_splits dest!: ih)
qed simp

lemma example_job_fresh: "fresh_job (example_job opts cwd outdir n t)" "fresh_job (pyexample_job cwd outdir t)"
  by (simp_all add: example_job_def pyexample_job_def job_setters new_job_def fresh_job_def ident_def)

lemma suite_job_fresh: "fresh_job (suite_job cfg opts cwd outdir t)"
  by (simp add: suite_job_def job_setters new_job_def fresh_job_def ident_def Let_def)

lemma dispatched_fresh:
  assumes "dispatch_jobs cfg opts run eval programs scripts ex cwd outdir = Inr js"
  shows "(\<forall>j \<in> set js. fresh_job j) \<and> (\<forall>j \<in> set js. \<not> is_break j)"
proof -
  from assms obtain suites cpp py where
    js: "js = suite_jobs cfg opts cwd outdir suites @ cpp @ py"
    and cpp: "cpp_jobs opts cfg eval programs cwd outdir ex = Inr cpp"
    and py: "py_jobs opts cfg eval scripts cwd outdir ex = Inr py"
    by (auto simp: dispatch_jobs_def res_bind_eq_Inr)
  have "\<forall>j \<in> set cpp. fresh_job j"
    using cpp by (auto simp: cpp_jobs_def Let_def example_job_fresh split: if_splits dest: cpp_example_jobs_fresh)
  moreover have "\<forall>j \<in> set py. fresh_job j"
    using py by (auto simp: py_jobs_def Let_def example_job_fresh split: if_splits dest: py_example_jobs_fresh)
  moreover have "\<forall>j \<in> set (suite_jobs cfg opts cwd outdir suites). fresh_job j"
    by (auto simp: suite_jobs_def suite_job_fresh)
  ultimately show ?thesis
    using js cpp_jobs_kind [OF cpp] py_jobs_kind [OF py] suite_jobs_not_break by auto
qed

text \<open>A complete run of one worker on one job.\<close>

definition finished_pool :: "job \<Rightarrow> pool" where
  "finished_pool j =
     \<lparr>to_put = [], inq = [], workers = [Stopped], outq = [], to_get = 0, results = [j], thread_exit = False\<rparr>"

lemma single_run:
  assumes "\<not> is_break j" and "perform False j = Inr j'"
  shows "pool_run perform (start_pool 1 [j]) 7 (finished_pool j')"
proof -
  let ?s = "\<lambda>p i w out g r. \<lparr>to_put = p, inq = i, workers = [w], outq = out, to_get = g, results = r, thread_exit = False\<rparr>"
  have brk: "is_break break_job" by (simp add: break_job_def set_is_break_def)
  have 0: "start_pool 1 [j] = ?s [j, break_job] [] Waiting [] 1 []"
    by (simp add: start_pool_def queue_content_def)
  have 1: "pool_step perform (start_pool 1 [j]) (?s [break_job] [j] Waiting [] 1 [])"
    using pool_step.put_job [of "start_pool 1 [j]" j "[break_job]" perform] unfolding 0 by (simp add: q_put_def)
  have 2: "pool_step perform (?s [break_job] [j] Waiting [] 1 []) (?s [] [j, break_job] Waiting [] 1 [])"
    using pool_step.put_job [of "?s [break_job] [j] Waiting [] 1 []" break_job "[]" perform] by (simp add: q_put_def)
  have 3: "pool_step perform (?s [] [j, break_job] Waiting [] 1 []) (?s [] [break_job] (Holding j) [] 1 [])"
    using pool_step.take_job [of 0 "?s [] [j, break_job] Waiting [] 1 []" j "[break_job]" perform] assms by simp
  have 4: "pool_step perform (?s [] [break_job] (Holding j) [] 1 []) (?s [] [break_job] (Busy j (Inr j')) [] 1 [])"
    using pool_step.do_work [of 0 "?s [] [break_job] (Holding j) [] 1 []" j perform] assms by simp
  have 5: "pool_step perform (?s [] [break_job] (Busy j (Inr j')) [] 1 []) (?s [] [break_job] Waiting [j'] 1 [])"
    using pool_step.put_result [of 0 "?s [] [break_job] (Busy j (Inr j')) [] 1 []" j j' perform] by (simp add: q_put_def)
  have 6: "pool_step perform (?s [] [break_job] Waiting [j'] 1 []) (?s [] [] Stopped [j'] 1 [])"
    using pool_step.take_break [of 0 "?s [] [break_job] Waiting [j'] 1 []" break_job "[]" perform] brk by simp
  have 7: "pool_step perform (?s [] [] Stopped [j'] 1 []) (finished_pool j')"
    using pool_step.get_result [of "?s [] [] Stopped [j'] 1 []" 0 j' "[]" perform] by (simp add: finished_pool_def)
  have "pool_run perform (start_pool 1 [j]) (Suc (Suc (Suc (Suc (Suc (Suc (Suc 0))))))) (finished_pool j')"
    by (intro pool_run.run_step [OF _ 7] pool_run.run_step [OF _ 6] pool_run.run_step [OF _ 5] pool_run.run_step [OF _ 4]
        pool_run.run_step [OF _ 3] pool_run.run_step [OF _ 2] pool_run.run_step [OF _ 1] pool_run.run_start)
  then show ?thesis by (simp add: eval_nat_numeral)
qed

lemma finished_pool_done: "main_done (finished_pool j)" "\<nexists>s'. pool_step perform (finished_pool j) s'"
  by (auto simp: main_done_def finished_pool_def elim!: pool_stepE)

lemma dispatched_results:
  assumes "dispatch_jobs cfg opts run eval programs scripts ex cwd outdir = Inr js"
    and "pool_run (thread_body cfg opts outcome) (start_pool p js) n s" and "main_done s"
  shows "mset (map ident (results s)) = mset js \<and>
    (\<forall>r. r \<in> set (results s) \<longrightarrow>
       thread_body cfg opts outcome False (ident r) = Inr r \<or> thread_exit s \<and> is_break r) \<and>
    (\<not> thread_exit s \<longrightarrow>
       mset (map Inr (results s)) = image_mset (thread_body cfg opts outcome False) (mset js))"
proof -
  from dispatched_fresh [OF assms(1)] have js: "\<forall>j \<in> set js. fresh_job j" "\<forall>j \<in> set js. \<not> is_break j" by auto
  from worker.done_results [OF assms(2) js assms(3)] have
    ids: "mset (map ident (results s)) = mset js"
    and hon: "\<forall>r \<in> set (results s). honest_result (thread_body cfg opts outcome) (thread_exit s) r" by auto
  have each: "thread_body cfg opts outcome False (ident r) = Inr r \<or> thread_exit s \<and> is_break r"
    if "r \<in> set (results s)" for r
  proof -
    from hon that obtain e where "e \<longrightarrow> thread_exit s" "thread_body cfg opts outcome e (ident r) = Inr r"
      by (auto simp: honest_result_def)
    then show ?thesis by (cases e) (auto dest: thread_body_interrupted)
  qed
  have "map Inr (results s) = map (thread_body cfg opts outcome False) (map ident (results s))" if "\<not> thread_exit s"
    using each that by auto
  then show ?thesis using ids each by (metis mset_map)
qed

text \<open>
  Claim C8. Whatever the threads do, when the main thread has got its results and joined its threads
  it has exactly one result for each dispatched job. Every result is what the work on its job gives,
  or a break job after an interrupt; without an interrupt the results are, as a multiset, the
  outcomes of the jobs, whatever the order of the threads and the number of processors.
\<close>

theorem pool_results:
  assumes "dispatch_jobs cfg opts run eval programs scripts ex cwd outdir = Inr js"
    and "pool_run (thread_body cfg opts outcome) (start_pool p js) n s" and "main_done s"
  shows "mset (map ident (results s)) = mset js \<and>
    (\<forall>r. r \<in> set (results s) \<longrightarrow>
       thread_body cfg opts outcome False (ident r) = Inr r \<or> thread_exit s \<and> is_break r) \<and>
    (\<not> thread_exit s \<longrightarrow>
       mset (map Inr (results s)) = image_mset (thread_body cfg opts outcome False) (mset js))"
  by (rule dispatched_results [OF assms])

text \<open>
  Claim C10. No run is longer than five steps for a job and two for a worker, however often the
  program is interrupted.
\<close>

theorem pool_terminates:
  assumes "dispatch_jobs cfg opts run eval programs scripts ex cwd outdir = Inr js"
    and "pool_run (thread_body cfg opts outcome) (start_pool p js) n s"
  shows "n \<le> 5 * length js + 2 * nat p"
proof -
  have "sum_list (map put_weight js) = 5 * length js"
    using dispatched_fresh [OF assms(1)] by (induction js) auto
  moreover have "put_weight break_job = 2" by (simp add: break_job_def set_is_break_def)
  ultimately have "steps_left (start_pool p js) = 5 * length js + 2 * nat p"
    by (simp add: steps_left_def start_pool_def queue_content_def sum_list_replicate sum_list_replicate_zero)
  then show ?thesis using pool_run_left [OF assms(2)] by simp
qed

text \<open>
  Claim C9. The program is never stuck before it is done, provided that there is a worker and that
  no worker died of an exception; conversely, if it is done there was a worker, or nothing to do,
  and no worker died, so a run that ends otherwise hangs.
\<close>

theorem pool_stuck_iff_done:
  assumes "dispatch_jobs cfg opts run eval programs scripts ex cwd outdir = Inr js"
    and "pool_run (thread_body cfg opts outcome) (start_pool p js) n s"
    and "\<nexists>s'. pool_step (thread_body cfg opts outcome) s s'"
  shows "main_done s \<longleftrightarrow> (\<forall>j. Crashed j \<notin> set (workers s)) \<and> (0 < p \<or> js = [])"
proof
  from dispatched_fresh [OF assms(1)] have js: "\<forall>j \<in> set js. fresh_job j" "\<forall>j \<in> set js. \<not> is_break j" by auto
  show "main_done s \<Longrightarrow> (\<forall>j. Crashed j \<notin> set (workers s)) \<and> (0 < p \<or> js = [])"
    using worker.done_no_crash [OF assms(2) js] by blast
  assume *: "(\<forall>j. Crashed j \<notin> set (workers s)) \<and> (0 < p \<or> js = [])"
  show "main_done s"
  proof (cases "0 < p")
    case True
    then show ?thesis using worker.stuck_done [OF assms(2) js assms(3)] * by blast
  next
    case False
    with * have "js = []" by simp
    from worker.run_invariant [OF assms(2) js] False have "workers s = []" "gets_left js s"
      by (auto simp: break_balance_def)
    then show ?thesis
      using worker.stuck_to_put [OF assms(3)] \<open>js = []\<close> by (simp add: main_done_def gets_left_def)
  qed
qed

text \<open>
  A negative \<^verbatim>\<open>--jobs\<close> starts no worker, so when there is a job the main thread waits for
  ever: no state that is done can be reached.
\<close>

theorem negative_process_limit_hangs:
  assumes "opt_process_limit opts < 0" and "0 < processors"
    and "dispatch_jobs cfg opts run eval programs scripts ex cwd outdir = Inr js" and "js \<noteq> []"
    and "pool_run (thread_body cfg opts outcome) (start_pool (worker_count opts processors) js) n s"
  shows "\<not> main_done s"
proof
  assume "main_done s"
  from dispatched_fresh [OF assms(3)] have js: "\<forall>j \<in> set js. fresh_job j" "\<forall>j \<in> set js. \<not> is_break j" by auto
  have "worker_count opts processors < 0" using assms(1,2) by (simp add: worker_count_def)
  with worker.done_no_crash [OF assms(5) js \<open>main_done s\<close>, of undefined] assms(4) show False by simp
qed

section \<open>Examples\<close>

definition sample_options :: options where
  "sample_options = default_options\<lparr>opt_suite := ''tcp'', opt_process_limit := - 1\<rparr>"

definition sample_job :: job where
  "sample_job = suite_job sample_globals sample_options ''/ns3'' ''/ns3/out'' ''tcp''"

definition sample_result :: job where
  "sample_result = set_elapsed_time (1 / 4) sample_job"

abbreviation sample_dispatched :: "py_error + job list" where
  "sample_dispatched \<equiv>
     dispatch_jobs sample_globals sample_options sample_runner (\<lambda>_. Inr True) [] [] sample_examples ''/ns3'' ''/ns3/out''"

abbreviation sample_body :: "bool \<Rightarrow> job \<Rightarrow> py_error + job" where
  "sample_body \<equiv> thread_body sample_globals sample_options (\<lambda>_. sample_runner)"

lemma sample_dispatch: "sample_dispatched = Inr [sample_job]"
  by code_simp

lemma sample_body: "sample_body False sample_job = Inr sample_result"
  by code_simp

lemma sample_run: "pool_run sample_body (start_pool 1 [sample_job]) 7 (finished_pool sample_result)"
proof (rule single_run [where perform = sample_body, OF _ sample_body])
  show "\<not> is_break sample_job" by (simp add: sample_job_def suite_job_fields)
qed

lemma pool_results_witness:
  "mset (map Inr (results (finished_pool sample_result))) = image_mset (sample_body False) (mset [sample_job])"
  using pool_results [OF sample_dispatch sample_run finished_pool_done(1)] by (simp add: finished_pool_def)

lemma pool_terminates_witness: "(7::nat) \<le> 5 * length [sample_job] + 2 * nat 1"
  using pool_terminates [OF sample_dispatch sample_run] .

lemma pool_stuck_iff_done_witness:
  "main_done (finished_pool sample_result) \<and> (\<forall>j. Crashed j \<notin> set (workers (finished_pool sample_result)))"
  using pool_stuck_iff_done [OF sample_dispatch sample_run finished_pool_done(2)] finished_pool_done(1) by blast

lemma negative_process_limit_hangs_witness:
  "worker_count sample_options 8 = - 1 \<and>
   \<not> main_done (start_pool (worker_count sample_options 8) [sample_job])"
proof
  show "worker_count sample_options 8 = - 1" by (simp add: worker_count_def sample_options_def)
  have "opt_process_limit sample_options < 0" "(0::int) < 8" "[sample_job] \<noteq> []" by (simp_all add: sample_options_def)
  from negative_process_limit_hangs [OF this(1,2) sample_dispatch this(3) pool_run.run_start]
  show "\<not> main_done (start_pool (worker_count sample_options 8) [sample_job])" .
qed

end
