(* ===== verification/Py_Float.thy ===== *)
theory Py_Float
  imports Py_Prelude Complex_Main
begin

text \<open>
  Numbers as text: Python's \<^verbatim>\<open>int\<close> and \<^verbatim>\<open>float\<close> on strings, and the \<^verbatim>\<open>%.kf\<close> format. A float is its
  exact rational value; rounding to 53 bits, infinities, NaN and the underscore of numerals are left
  out.
\<close>

section \<open>Reading\<close>

definition split_sign :: "string \<Rightarrow> bool \<times> string" where
  "split_sign s =
     (case s of
        c # cs \<Rightarrow> if c = CHR ''-'' then (True, cs) else if c = CHR ''+'' then (False, cs) else (False, s)
      | [] \<Rightarrow> (False, []))"

definition signed :: "bool \<Rightarrow> 'a::uminus \<Rightarrow> 'a" where
  "signed neg x = (if neg then - x else x)"

text \<open>\<^verbatim>\<open>int(s)\<close>: surrounding whitespace and a sign are accepted.\<close>

definition parse_int :: "string \<Rightarrow> py_error + int" where
  "parse_int s =
     (case split_sign (py_strip s) of (neg, ds) \<Rightarrow> res_bind (py_int ds) (\<lambda>n. Inr (signed neg n)))"

text \<open>Digits, possibly none, as a number together with how many there are.\<close>

definition digits_of :: "string \<Rightarrow> (nat \<times> nat) option" where
  "digits_of s = (case digits_val 0 s of None \<Rightarrow> None | Some n \<Rightarrow> Some (n, length s))"

definition pow10 :: "int \<Rightarrow> rat" where
  "pow10 z = (if z < 0 then 1 / 10 ^ nat (- z) else 10 ^ nat z)"

text \<open>The part before the exponent: at least one digit on either side of the point.\<close>

definition parse_mantissa :: "string \<Rightarrow> rat option" where
  "parse_mantissa s =
     (case split_once (CHR ''.'') s of
        [a] \<Rightarrow> (case digits_of a of Some (n, Suc _) \<Rightarrow> Some (of_nat n) | _ \<Rightarrow> None)
      | [a, b] \<Rightarrow>
          (case (digits_of a, digits_of b) of
             (Some (n, la), Some (m, lb)) \<Rightarrow>
               if la + lb = 0 then None else Some (of_nat n + of_nat m / 10 ^ lb)
           | _ \<Rightarrow> None)
      | _ \<Rightarrow> None)"

definition parse_exponent :: "string \<Rightarrow> int option" where
  "parse_exponent s =
     (case split_sign s of (neg, ds) \<Rightarrow>
        case py_int ds of Inl _ \<Rightarrow> None | Inr n \<Rightarrow> Some (signed neg n))"

definition lower_e :: "string \<Rightarrow> string" where
  "lower_e s = map (\<lambda>c. if c = CHR ''E'' then CHR ''e'' else c) s"

definition parse_float :: "string \<Rightarrow> py_error + rat" where
  "parse_float s =
     (case split_sign (py_strip s) of (neg, t) \<Rightarrow>
        case split_once (CHR ''e'') (lower_e t) of
          [m] \<Rightarrow> (case parse_mantissa m of None \<Rightarrow> Inl ValueError | Some x \<Rightarrow> Inr (signed neg x))
        | [m, e] \<Rightarrow>
            (case (parse_mantissa m, parse_exponent e) of
               (Some x, Some z) \<Rightarrow> Inr (signed neg (x * pow10 z))
             | _ \<Rightarrow> Inl ValueError)
        | _ \<Rightarrow> Inl ValueError)"

section \<open>Writing\<close>

text \<open>\<^verbatim>\<open>%.kf\<close>: the value rounded to \<open>k\<close> digits after the point, ties to even.\<close>

definition round_even :: "rat \<Rightarrow> int" where
  "round_even x =
     (let f = \<lfloor>x\<rfloor>; r = x - of_int f
      in if r < 1 / 2 then f else if r > 1 / 2 then f + 1 else if even f then f else f + 1)"

definition pad_left :: "nat \<Rightarrow> string \<Rightarrow> string" where
  "pad_left k s = replicate (k - length s) (CHR ''0'') @ s"

definition fmt_fixed :: "nat \<Rightarrow> rat \<Rightarrow> string" where
  "fmt_fixed k x =
     (let n = nat (round_even (\<bar>x\<bar> * 10 ^ k))
      in (if x < 0 then ''-'' else '''') @ str_nat (n div 10 ^ k) @ ''.'' @ pad_left k (str_nat (n mod 10 ^ k)))"

lemma round_even_close: "\<bar>of_int (round_even x) - x\<bar> \<le> 1 / 2"
proof -
  have "of_int \<lfloor>x\<rfloor> \<le> x" "x < of_int \<lfloor>x\<rfloor> + 1" by linarith+
  then show ?thesis by (auto simp: round_even_def Let_def abs_le_iff)
qed

text \<open>What is written is read back as the rounded value.\<close>

lemma digits_of_str_nat: "digits_of (str_nat n) = Some (n, length (str_nat n))"
  by (simp add: digits_of_def digits_val_str_nat)

lemma digits_val_zeros: "digits_val 0 (replicate k (CHR ''0'') @ s) = digits_val 0 s"
  by (induction k) (simp_all add: digit_val_def)

lemma length_str_nat_bound: "n < 10 ^ k \<Longrightarrow> 0 < k \<Longrightarrow> length (str_nat n) \<le> k"
proof (induction n arbitrary: k rule: str_nat.induct)
  case (1 n)
  show ?case
  proof (cases "n < 10")
    case True
    then show ?thesis using "1.prems" by (simp add: str_nat.simps [of n])
  next
    case False
    obtain k' where k: "k = Suc k'" using "1.prems"(2) by (cases k) auto
    moreover have "0 < k'" using False "1.prems" k by (cases k') auto
    ultimately have k: "k = Suc k'" "0 < k'" by simp_all
    then have "n div 10 < 10 ^ k'" using "1.prems" by (simp add: less_mult_imp_div_less mult.commute)
    with "1.IH" [OF False] k show ?thesis using False by (simp add: str_nat.simps [of n])
  qed
qed

lemma parse_mantissa_fixed:
  assumes "0 < k"
  shows "parse_mantissa (str_nat (n div 10 ^ k) @ ''.'' @ pad_left k (str_nat (n mod 10 ^ k))) = Some (of_nat n / 10 ^ k)"
proof -
  let ?b = "pad_left k (str_nat (n mod 10 ^ k))"
  have len: "length ?b = k"
    using length_str_nat_bound [of "n mod 10 ^ k" k] assms by (simp add: pad_left_def)
  have "digits_of ?b = Some (n mod 10 ^ k, k)"
    using len by (simp add: digits_of_def pad_left_def digits_val_zeros digits_val_str_nat)
  moreover have "CHR ''.'' \<notin> set (str_nat (n div 10 ^ k))" by (rule str_nat_no_char) simp
  moreover have "(of_nat (n div 10 ^ k) :: rat) + of_nat (n mod 10 ^ k) / 10 ^ k = of_nat n / 10 ^ k"
  proof -
    have "(of_nat n :: rat) = of_nat (n div 10 ^ k * 10 ^ k + n mod 10 ^ k)" by (metis div_mult_mod_eq)
    also have "\<dots> = of_nat (n div 10 ^ k) * 10 ^ k + of_nat (n mod 10 ^ k)"
      unfolding of_nat_add of_nat_mult of_nat_power of_nat_numeral ..
    finally show ?thesis by (metis add_divide_distrib nonzero_mult_div_cancel_right power_not_zero zero_neq_numeral)
  qed
  ultimately show ?thesis
    using assms by (simp add: parse_mantissa_def split_once_append digits_of_str_nat)
qed

end
