(* ===== verification/Test_Results.thy ===== *)
theory Test_Results
  imports Test_Workers Py_Float "HOL-Library.Char_ord" "HOL-Library.List_Lexorder"
begin

text \<open>
  The results of the test driver (\<^verbatim>\<open>simulation/test.py\<close>, the second half of \<^verbatim>\<open>run_tests\<close>): the loop
  over the jobs that come back, the progress lines, the XML results file, the summary and the exit
  status. Files are read through a parameter; what is printed is kept as text.
\<close>

section \<open>Text\<close>

definition newline :: string where
  "newline = [newline_char]"

definition escape :: "string \<Rightarrow> string" where
  "escape s = CHR 0x1B # ''['' @ s @ ''m''"

definition colors_lst :: "(string, string) dict" where
  "colors_lst =
     [(''BOLD'', escape ''01;1''), (''RED'', escape ''01;31''), (''GREEN'', escape ''32''),
      (''YELLOW'', escape ''33''), (''PINK'', escape ''35''), (''BLUE'', escape ''01;34''),
      (''CYAN'', escape ''36''), (''GREY'', escape ''37''), (''NORMAL'', escape ''0''),
      (''cursor_on'', CHR 0x1B # ''[?25h''), (''cursor_off'', CHR 0x1B # ''[?25l'')]"

text \<open>\<open>use\<close> is \<^verbatim>\<open>colors_lst['USE']\<close>, which \<^verbatim>\<open>main\<close> sets from \<^verbatim>\<open>--nocolor\<close> and \<^verbatim>\<open>NOCOLOR\<close>.\<close>

definition use_color :: "options \<Rightarrow> (string, string) dict \<Rightarrow> bool" where
  "use_color opts env \<longleftrightarrow> \<not> opt_nocolor opts \<and> (dget env ''NOCOLOR'' = None \<or> dget env ''NOCOLOR'' = Some [])"

definition get_color :: "bool \<Rightarrow> string \<Rightarrow> string" where
  "get_color use cl = (if use then case dget colors_lst cl of None \<Rightarrow> '''' | Some c \<Rightarrow> c else '''')"

text \<open>\<^verbatim>\<open>%.3f\<close>.\<close>

definition fmt3 :: "rat \<Rightarrow> string" where
  "fmt3 = fmt_fixed 3"

section \<open>One result\<close>

record summary =
  passed_tests :: nat
  failed_tests :: nat
  failed_testnames :: "string list"
  skipped_tests :: nat
  skipped_testnames :: "string list"
  crashed_tests :: nat
  crashed_testnames :: "string list"
  valgrind_errors :: nat
  valgrind_testnames :: "string list"
  xml_results :: string
  printed :: string

definition xml_start :: string where
  "xml_start = ''<?xml version=\"1.0\"?>'' @ newline @ ''<Results>'' @ newline"

definition start_summary :: summary where
  "start_summary =
     \<lparr>passed_tests = 0, failed_tests = 0, failed_testnames = [], skipped_tests = 0, skipped_testnames = [],
      crashed_tests = 0, crashed_testnames = [], valgrind_errors = 0, valgrind_testnames = [],
      xml_results = xml_start, printed = ''''\<rparr>"

definition job_kind :: "job \<Rightarrow> string" where
  "job_kind j = (if is_example j \<or> is_pyexample j then ''Example'' else ''TestSuite'')"

definition job_status :: "job \<Rightarrow> string" where
  "job_status j =
     (if is_skip j then ''SKIP'' else if returncode j = 0 then ''PASS'' else if returncode j = 1 then ''FAIL''
      else if returncode j = 2 then ''VALGR'' else ''CRASH'')"

definition status_color :: "string \<Rightarrow> string" where
  "status_color st =
     (if st = ''SKIP'' then ''GREY'' else if st = ''PASS'' then ''GREEN'' else if st = ''FAIL'' then ''RED''
      else if st = ''VALGR'' then ''CYAN'' else ''PINK'')"

definition count_result :: "job \<Rightarrow> summary \<Rightarrow> summary" where
  "count_result j st =
     (if is_skip j then
        st\<lparr>skipped_tests := skipped_tests st + 1,
           skipped_testnames := skipped_testnames st @ [display_name j @ '' ('' @ skip_reason j @ '')'']\<rparr>
      else if returncode j = 0 then st\<lparr>passed_tests := passed_tests st + 1\<rparr>
      else if returncode j = 1 then
        st\<lparr>failed_tests := failed_tests st + 1, failed_testnames := failed_testnames st @ [display_name j]\<rparr>
      else if returncode j = 2 then
        st\<lparr>valgrind_errors := valgrind_errors st + 1, valgrind_testnames := valgrind_testnames st @ [display_name j]\<rparr>
      else
        st\<lparr>crashed_tests := crashed_tests st + 1, crashed_testnames := crashed_testnames st @ [display_name j]\<rparr>)"

text \<open>The progress line, printed after the counters have changed.\<close>

definition progress_count :: "summary \<Rightarrow> nat" where
  "progress_count st = passed_tests st + failed_tests st + skipped_tests st + crashed_tests st"

definition progress_line :: "options \<Rightarrow> bool \<Rightarrow> nat \<Rightarrow> job \<Rightarrow> summary \<Rightarrow> string" where
  "progress_line opts use total_tests j st =
     (let status = job_status j;
          status_print = get_color use (status_color status) @ status @ get_color use ''NORMAL''
      in ''['' @ str_nat (progress_count st) @ ''/'' @ str_nat total_tests @ ''] '' @ status_print
         @ (if opt_duration opts \<or> opt_constrain opts = ''performance''
            then '' ('' @ fmt3 (elapsed_time j) @ '')'' else '''')
         @ '': '' @ job_kind j @ '' '' @ display_name j @ newline)"

definition example_xml :: "job \<Rightarrow> string" where
  "example_xml j =
     ''<Example>'' @ newline @ ''  <Name>'' @ display_name j @ ''</Name>'' @ newline
     @ ''  <Result>'' @ job_status j @ ''</Result>'' @ newline
     @ ''  <Time real=\"'' @ fmt3 (elapsed_time j) @ ''\"/>'' @ newline @ ''</Example>'' @ newline"

text \<open>A suite that was not skipped and did not crash has left its results in a file.\<close>

definition suite_xml :: "(string \<Rightarrow> string option) \<Rightarrow> job \<Rightarrow> py_error + string" where
  "suite_xml read j =
     (if is_skip j then
        Inr (''<Test>'' @ newline @ ''  <Name>'' @ display_name j @ ''</Name>'' @ newline
             @ ''  <Result>SKIP</Result>'' @ newline @ ''  <Reason>'' @ skip_reason j @ ''</Reason>'' @ newline
             @ ''</Test>'' @ newline)
      else if returncode j = 0 \<or> returncode j = 1 \<or> returncode j = 2 then
        (case read (tmp_file_name j) of None \<Rightarrow> Inl FileNotFoundError | Some text \<Rightarrow> Inr text)
      else
        Inr (''<Test>'' @ newline @ ''  <Name>'' @ display_name j @ ''</Name>'' @ newline
             @ ''  <Result>CRASH</Result>'' @ newline @ ''</Test>'' @ newline))"

definition job_xml :: "(string \<Rightarrow> string option) \<Rightarrow> job \<Rightarrow> py_error + string" where
  "job_xml read j = (if is_example j \<or> is_pyexample j then Inr (example_xml j) else suite_xml read j)"

definition handle_result ::
  "options \<Rightarrow> bool \<Rightarrow> nat \<Rightarrow> (string \<Rightarrow> string option) \<Rightarrow> job \<Rightarrow> summary \<Rightarrow> py_error + summary" where
  "handle_result opts use total_tests read j st =
     (if is_break j then Inr st
      else
        (let st = count_result j st;
             st = st\<lparr>printed := printed st @ progress_line opts use total_tests j st\<rparr>
         in res_bind (job_xml read j) (\<lambda>text. Inr (st\<lparr>xml_results := xml_results st @ text\<rparr>))))"

definition collect_results ::
  "options \<Rightarrow> bool \<Rightarrow> nat \<Rightarrow> (string \<Rightarrow> string option) \<Rightarrow> job list \<Rightarrow> py_error + summary" where
  "collect_results opts use total_tests read js = res_fold (handle_result opts use total_tests read) js start_summary"

section \<open>The end of the run\<close>

definition name_list :: "string \<Rightarrow> string list \<Rightarrow> string" where
  "name_list title names =
     (if names = [] then ''''
      else title @ '':'' @ newline @ ''    '' @ join (newline @ ''    '') (sort names) @ newline)"

definition summary_text :: "nat \<Rightarrow> summary \<Rightarrow> string" where
  "summary_text total_tests st =
     str_nat (passed_tests st) @ '' of '' @ str_nat total_tests @ '' tests passed ('' @ str_nat (passed_tests st)
     @ '' passed, '' @ str_nat (skipped_tests st) @ '' skipped, '' @ str_nat (failed_tests st) @ '' failed, ''
     @ str_nat (crashed_tests st) @ '' crashed, '' @ str_nat (valgrind_errors st) @ '' valgrind errors)'' @ newline
     @ name_list ''List of SKIPped tests'' (skipped_testnames st)
     @ name_list ''List of FAILed tests'' (failed_testnames st)
     @ name_list ''List of CRASHed tests'' (crashed_testnames st)
     @ name_list ''List of VALGR failures'' (valgrind_testnames st)"

definition notes_text :: "options \<Rightarrow> globals \<Rightarrow> string" where
  "notes_text opts cfg =
     (if \<not> ENABLE_TESTS cfg \<or> \<not> ENABLE_EXAMPLES cfg then
        newline
        @ (if \<not> ENABLE_TESTS cfg then
             ''***  Note: ns-3 tests are currently disabled. Enable them by adding'' @ newline
             @ ''***  \"--enable-tests\" to ./ns3 configure or modifying your .ns3rc file.'' @ newline @ newline
           else '''')
        @ (if \<not> ENABLE_EXAMPLES cfg then
             ''***  Note: ns-3 examples are currently disabled. Enable them by adding'' @ newline
             @ ''***  \"--enable-examples\" to ./ns3 configure or modifying your .ns3rc file.'' @ newline @ newline
           else '''')
      else '''')
     @ (if opt_valgrind opts \<and> \<not> VALGRIND_FOUND cfg then
          newline @ ''***  Note: you are trying to use valgrind, but valgrind could not be found'' @ newline
          @ ''***  on your machine.  All tests and examples will crash or be skipped.'' @ newline @ newline
        else '''')"

definition exit_code :: "nat \<Rightarrow> summary \<Rightarrow> int" where
  "exit_code total_tests st = (if passed_tests st + skipped_tests st = total_tests then 0 else 1)"

definition xml_document :: "summary \<Rightarrow> string" where
  "xml_document st = xml_results st @ ''</Results>'' @ newline"

section \<open>What the loop computes\<close>

definition with_status :: "string \<Rightarrow> job list \<Rightarrow> job list" where
  "with_status status js = filter (\<lambda>j. \<not> is_break j \<and> job_status j = status) js"

definition skipped_name :: "job \<Rightarrow> string" where
  "skipped_name j = display_name j @ '' ('' @ skip_reason j @ '')''"

text \<open>The state after the results \<open>js\<close>, whatever was printed.\<close>

definition tallies :: "job list \<Rightarrow> summary \<Rightarrow> summary \<Rightarrow> bool" where
  "tallies js st st' \<longleftrightarrow>
     passed_tests st' = passed_tests st + length (with_status ''PASS'' js) \<and>
     failed_tests st' = failed_tests st + length (with_status ''FAIL'' js) \<and>
     skipped_tests st' = skipped_tests st + length (with_status ''SKIP'' js) \<and>
     crashed_tests st' = crashed_tests st + length (with_status ''CRASH'' js) \<and>
     valgrind_errors st' = valgrind_errors st + length (with_status ''VALGR'' js) \<and>
     failed_testnames st' = failed_testnames st @ map display_name (with_status ''FAIL'' js) \<and>
     skipped_testnames st' = skipped_testnames st @ map skipped_name (with_status ''SKIP'' js) \<and>
     crashed_testnames st' = crashed_testnames st @ map display_name (with_status ''CRASH'' js) \<and>
     valgrind_testnames st' = valgrind_testnames st @ map display_name (with_status ''VALGR'' js)"

definition xml_of :: "(string \<Rightarrow> string option) \<Rightarrow> job list \<Rightarrow> string" where
  "xml_of read js = concat (map (\<lambda>j. projr (job_xml read j)) (filter (\<lambda>j. \<not> is_break j) js))"

lemma job_status_cases:
  "job_status j = ''SKIP'' \<and> is_skip j \<or> job_status j = ''PASS'' \<and> \<not> is_skip j \<and> returncode j = 0
   \<or> job_status j = ''FAIL'' \<and> \<not> is_skip j \<and> returncode j = 1
   \<or> job_status j = ''VALGR'' \<and> \<not> is_skip j \<and> returncode j = 2
   \<or> job_status j = ''CRASH'' \<and> \<not> is_skip j \<and> returncode j \<notin> {0, 1, 2}"
  by (simp add: job_status_def)

lemma count_result_tallies:
  assumes "\<not> is_break j"
  shows "tallies [j] st (count_result j st)"
  using job_status_cases [of j] assms
  by (elim disjE conjE) (simp_all add: tallies_def with_status_def count_result_def skipped_name_def)

lemma tallies_append: "tallies js st st' \<Longrightarrow> tallies js' st' st'' \<Longrightarrow> tallies (js @ js') st st''"
  by (simp add: tallies_def with_status_def)

lemma tallies_cong:
  "tallies js st st' \<Longrightarrow> tallies js st (st'\<lparr>printed := t\<rparr>)" "tallies js st st' \<Longrightarrow> tallies js st (st'\<lparr>xml_results := t\<rparr>)"
  by (simp_all add: tallies_def)

lemma handle_result_tallies:
  assumes "handle_result opts use n read j st = Inr st'"
  shows "tallies [j] st st' \<and> xml_results st' = xml_results st @ xml_of read [j]"
proof (cases "is_break j")
  case True
  with assms show ?thesis by (simp add: handle_result_def tallies_def with_status_def xml_of_def)
next
  case False
  have "xml_results (count_result j st) = xml_results st" by (simp add: count_result_def)
  with False assms count_result_tallies [OF False, of st] show ?thesis
    by (auto simp: handle_result_def Let_def res_bind_eq_Inr xml_of_def intro: tallies_cong)
qed

lemma fold_results_tallies:
  "res_fold (handle_result opts use n read) js st = Inr st' \<Longrightarrow>
     tallies js st st' \<and> xml_results st' = xml_results st @ xml_of read js"
proof (induction js arbitrary: st)
  case Nil
  then show ?case by (simp add: tallies_def with_status_def xml_of_def)
next
  case (Cons j js)
  then obtain st1 where 1: "handle_result opts use n read j st = Inr st1"
    and 2: "res_fold (handle_result opts use n read) js st1 = Inr st'" by (auto simp: res_bind_eq_Inr)
  from handle_result_tallies [OF 1] Cons.IH [OF 2] tallies_append [of "[j]" st st1 js st'] show ?case
    by (simp add: xml_of_def)
qed

lemma fold_results_ok:
  "is_ok (res_fold (handle_result opts use n read) js st) \<longleftrightarrow> (\<forall>j \<in> set js. is_break j \<or> is_ok (job_xml read j))"
proof (induction js arbitrary: st)
  case (Cons j js)
  show ?case
  proof (cases "is_break j")
    case True
    then show ?thesis using Cons.IH by (simp add: handle_result_def)
  next
    case False
    then show ?thesis using Cons.IH by (cases "job_xml read j") (simp_all add: handle_result_def Let_def)
  qed
qed simp

lemma job_xml_ok:
  "is_ok (job_xml read j) \<longleftrightarrow>
     is_example j \<or> is_pyexample j \<or> is_skip j \<or> returncode j \<notin> {0, 1, 2} \<or> read (tmp_file_name j) \<noteq> None"
  by (auto simp: job_xml_def suite_xml_def split: option.split)

text \<open>
  The loop over the results counts every job that is not a break job under exactly one of
  the five states and keeps the names in the order of arrival; the results file is the header
  followed by one piece for each such job, in that order. It fails exactly when a suite that
  returned 0, 1 or 2 left no results file.
\<close>

theorem collect_results_tally:
  "(\<forall>st. collect_results opts use n read js = Inr st \<longrightarrow>
      tallies js start_summary st \<and> xml_results st = xml_start @ xml_of read js) \<and>
   (is_ok (collect_results opts use n read js) \<longleftrightarrow>
      (\<forall>j \<in> set js. is_break j \<or> is_example j \<or> is_pyexample j \<or> is_skip j \<or> returncode j \<notin> {0, 1, 2}
         \<or> read (tmp_file_name j) \<noteq> None))"
  using fold_results_tallies [of opts use n read js start_summary]
  by (simp add: collect_results_def fold_results_ok job_xml_ok start_summary_def)

lemma tallies_start:
  "tallies js start_summary st \<Longrightarrow>
     passed_tests st = length (with_status ''PASS'' js) \<and> skipped_tests st = length (with_status ''SKIP'' js)"
  by (simp add: tallies_def start_summary_def)

lemma passed_or_skipped:
  "length (with_status ''PASS'' js) + length (with_status ''SKIP'' js) =
     length (filter (\<lambda>j. \<not> is_break j \<and> (is_skip j \<or> returncode j = 0)) js)"
proof (induction js)
  case (Cons j js)
  then show ?case using job_status_cases [of j] by (auto simp: with_status_def)
qed (simp add: with_status_def)

lemma filter_all_iff: "length (filter Q xs) = length xs \<longleftrightarrow> (\<forall>x \<in> set xs. Q x)"
  by (metis filter_True length_filter_less nat_neq_iff)

lemma exit_code_zero:
  assumes "collect_results opts use n read js = Inr st" and "length js = n"
  shows "exit_code n st \<in> {0, 1} \<and>
    (exit_code n st = 0 \<longleftrightarrow> (\<forall>j \<in> set js. \<not> is_break j \<and> (is_skip j \<or> returncode j = 0)))"
proof -
  from assms(1) have "tallies js start_summary st"
    unfolding collect_results_def by (rule fold_results_tallies [THEN conjunct1])
  from tallies_start [OF this] show ?thesis
    using assms(2) passed_or_skipped [of js] filter_all_iff [of _ js] by (simp add: exit_code_def)
qed

text \<open>
  The exit status is 0 exactly when every job came back and each of them was skipped or
  returned 0; a failure, a crash, a valgrind error or an interrupted job gives 1.
\<close>

theorem exit_code_zero_iff:
  assumes "collect_results opts use n read js = Inr st" and "length js = n"
  shows "exit_code n st \<in> {0, 1} \<and>
    (exit_code n st = 0 \<longleftrightarrow> (\<forall>j \<in> set js. \<not> is_break j \<and> (is_skip j \<or> returncode j = 0)))"
  by (rule exit_code_zero [OF assms])

lemma mset_with_status: "mset js = mset js' \<Longrightarrow> mset (with_status status js) = mset (with_status status js')"
  by (simp add: with_status_def)

lemma sort_map_mset: "mset xs = mset ys \<Longrightarrow> sort (map f xs) = sort (map (f :: 'a \<Rightarrow> string) ys)"
  by (metis mset_map mset_sort properties_for_sort sorted_sort)

lemma name_list_mset: "mset xs = mset ys \<Longrightarrow> name_list title (map f xs) = name_list title (map f ys)"
  using sort_map_mset [of xs ys f] by (auto simp: name_list_def)

lemma summary_of_mset:
  assumes "collect_results opts use n read js = Inr st" and "collect_results opts use n read js' = Inr st'"
    and "mset js = mset js'"
  shows "summary_text n st = summary_text n st' \<and> exit_code n st = exit_code n st'"
proof -
  have t: "tallies js start_summary st" "tallies js' start_summary st'"
    using assms(1,2) unfolding collect_results_def by (blast dest: fold_results_tallies)+
  note m = mset_with_status [OF assms(3)]
  have "length (with_status status js) = length (with_status status js')" for status
    using m [of status] by (metis size_mset)
  moreover have "name_list title (map f (with_status status js)) = name_list title (map f (with_status status js'))"
    for title f status using name_list_mset [OF m] .
  ultimately show ?thesis
    using t by (simp add: summary_text_def exit_code_def tallies_def start_summary_def)
qed

text \<open>
  The summary and the exit status depend on the results alone, not on the order in which
  the workers deliver them.
\<close>

theorem summary_order_independent:
  assumes "collect_results opts use n read js = Inr st" and "collect_results opts use n read js' = Inr st'"
    and "mset js = mset js'"
  shows "summary_text n st = summary_text n st' \<and> exit_code n st = exit_code n st'"
  by (rule summary_of_mset [OF assms])

section \<open>Examples\<close>

text \<open>A failed suite, a passed example and a valgrind error, in two orders of arrival.\<close>

definition failed_suite :: job where
  "failed_suite = set_returncode 1 (set_tmp_file_name ''t.xml'' (set_display_name ''tcp'' new_job))"

definition passed_example :: job where
  "passed_example = set_elapsed_time (1 / 8) (set_is_example True (set_display_name ''udp'' new_job))"

definition leaking_suite :: job where
  "leaking_suite = set_returncode 2 (set_tmp_file_name ''w.xml'' (set_display_name ''wifi'' new_job))"

definition sample_files :: "string \<Rightarrow> string option" where
  "sample_files path = (if path \<in> {''t.xml'', ''w.xml''} then Some (''<Test/>'' @ newline) else None)"

abbreviation sample_collect :: "job list \<Rightarrow> py_error + summary" where
  "sample_collect \<equiv> collect_results default_options False 3 sample_files"

lemma sample_collect_ok:
  "is_ok (sample_collect [failed_suite, passed_example, leaking_suite])"
  "is_ok (sample_collect [leaking_suite, failed_suite, passed_example])"
  by code_simp+

lemma collect_results_tally_witness:
  "\<exists>st. sample_collect [failed_suite, passed_example, leaking_suite] = Inr st \<and> passed_tests st = 1 \<and>
     failed_testnames st = [''tcp''] \<and> valgrind_testnames st = [''wifi''] \<and>
     xml_results st = xml_start @ xml_of sample_files [failed_suite, passed_example, leaking_suite]"
proof -
  let ?js = "[failed_suite, passed_example, leaking_suite]"
  from sample_collect_ok(1) obtain st where st: "sample_collect ?js = Inr st" by (auto simp: is_ok_iff)
  with collect_results_tally [of default_options False 3 sample_files ?js]
  have t: "tallies ?js start_summary st" "xml_results st = xml_start @ xml_of sample_files ?js" by auto
  have "with_status ''PASS'' ?js = [passed_example]" "with_status ''FAIL'' ?js = [failed_suite]"
    "with_status ''VALGR'' ?js = [leaking_suite]"
    by (simp_all add: with_status_def job_status_def passed_example_def failed_suite_def leaking_suite_def job_setters new_job_def)
  with t have "passed_tests st = 1" "failed_testnames st = [display_name failed_suite]"
    "valgrind_testnames st = [display_name leaking_suite]"
    by (simp_all add: tallies_def start_summary_def)
  with st t(2) show ?thesis by (auto simp: failed_suite_def leaking_suite_def job_setters)
qed

lemma exit_code_zero_iff_witness:
  "\<exists>st. collect_results default_options False 1 sample_files [passed_example] = Inr st \<and> exit_code 1 st = 0"
proof -
  have "is_ok (collect_results default_options False 1 sample_files [passed_example])" by code_simp
  then obtain st where st: "collect_results default_options False 1 sample_files [passed_example] = Inr st"
    by (auto simp: is_ok_iff)
  have "\<forall>j \<in> set [passed_example]. \<not> is_break j \<and> (is_skip j \<or> returncode j = 0)" by code_simp
  with exit_code_zero_iff [OF st] have "exit_code 1 st = 0" by simp
  with st show ?thesis by blast
qed

lemma summary_order_independent_witness:
  "\<exists>st st'. sample_collect [failed_suite, passed_example, leaking_suite] = Inr st \<and>
     sample_collect [leaking_suite, failed_suite, passed_example] = Inr st' \<and>
     summary_text 3 st = summary_text 3 st'"
proof -
  from sample_collect_ok obtain st st' where
    st: "sample_collect [failed_suite, passed_example, leaking_suite] = Inr st"
    and st': "sample_collect [leaking_suite, failed_suite, passed_example] = Inr st'" by (auto simp: is_ok_iff)
  have "mset [failed_suite, passed_example, leaking_suite] = mset [leaking_suite, failed_suite, passed_example]" by simp
  from summary_order_independent [OF st st' this] st st' show ?thesis by blast
qed

end
