(* ===== verification/Xml_Tree.thy ===== *)
theory Xml_Tree
  imports Py_Prelude
begin

text \<open>
  Element trees as \<^verbatim>\<open>xml.etree.ElementTree\<close> returns them, and the part of its interface that the
  test driver and the flow monitor script use: \<^verbatim>\<open>find\<close>, \<^verbatim>\<open>findall\<close>, \<^verbatim>\<open>get\<close> and \<^verbatim>\<open>text\<close>.
\<close>

section \<open>Element trees\<close>

text \<open>Tag, attributes, the text before the first child (\<^verbatim>\<open>None\<close> when there is none), children.\<close>

datatype elem = Elem (elem_tag: string) (elem_attrs: "(string, string) dict") (elem_text: "string option")
    (elem_children: "elem list")

definition findall :: "string \<Rightarrow> elem \<Rightarrow> elem list" where
  "findall tag e = filter (\<lambda>c. elem_tag c = tag) (elem_children e)"

definition find_elem :: "string \<Rightarrow> elem \<Rightarrow> elem option" where
  "find_elem tag e = find (\<lambda>c. elem_tag c = tag) (elem_children e)"

text \<open>\<^verbatim>\<open>e.find(tag).text\<close>: \<^verbatim>\<open>None\<close> has no attribute \<^verbatim>\<open>text\<close>. \<^verbatim>\<open>%s\<close> shows \<^verbatim>\<open>None\<close> as a word.\<close>

definition child_text :: "string \<Rightarrow> elem \<Rightarrow> py_error + string option" where
  "child_text tag e = (case find_elem tag e of None \<Rightarrow> Inl AttributeError | Some c \<Rightarrow> Inr (elem_text c))"

definition show_opt :: "string option \<Rightarrow> string" where
  "show_opt s = (case s of None \<Rightarrow> ''None'' | Some t \<Rightarrow> t)"

definition has_child :: "elem \<Rightarrow> string \<Rightarrow> bool" where
  "has_child e tag \<longleftrightarrow> tag \<in> elem_tag ` set (elem_children e)"

definition leaf :: "string \<Rightarrow> string \<Rightarrow> elem" where
  "leaf tag t = Elem tag [] (Some t) []"

lemma findall_smaller: "c \<in> set (findall tag e) \<Longrightarrow> size c < size e"
proof -
  assume "c \<in> set (findall tag e)"
  then have "c \<in> set (elem_children e)" by (simp add: findall_def)
  then have "size c \<le> size_list size (elem_children e)" by (simp add: size_list_estimation')
  then show ?thesis by (cases e) simp
qed

lemma child_text_ok: "is_ok (child_text tag e) \<longleftrightarrow> has_child e tag"
proof (cases "find_elem tag e")
  case None
  then have "\<not> has_child e tag" by (auto simp: has_child_def find_elem_def find_None_iff)
  with None show ?thesis by (simp add: child_text_def)
next
  case (Some c)
  then have "c \<in> set (elem_children e) \<and> elem_tag c = tag"
    unfolding find_elem_def by (metis (mono_tags, lifting) find_Some_iff nth_mem)
  with Some show ?thesis by (auto simp: child_text_def has_child_def)
qed

lemma child_text_obtain: "has_child e tag \<longleftrightarrow> (\<exists>t. child_text tag e = Inr t)"
  using child_text_ok [of tag e] by (simp add: is_ok_iff)

end
