(* ===== verification/Test_Report.thy ===== *)
theory Test_Report
  imports Test_Results Xml_Tree
begin

text \<open>
  The reports of the test driver (\<^verbatim>\<open>simulation/test.py\<close>: \<^verbatim>\<open>read_test\<close>, \<^verbatim>\<open>node_to_text\<close>,
  \<^verbatim>\<open>translate_to_text\<close>, \<^verbatim>\<open>translate_to_html\<close>). The results file is read with \<^verbatim>\<open>ElementTree\<close>; the
  model starts from the tree it returns. What is written to the report file is the result.
\<close>

section \<open>One test\<close>

text \<open>The results of one test: result, name, reason and time.\<close>

definition read_test :: "elem \<Rightarrow> py_error + string option \<times> string option \<times> string option \<times> string option" where
  "read_test test =
     res_bind (child_text ''Result'' test) (\<lambda>result.
     res_bind (child_text ''Name'' test) (\<lambda>name.
       let reason = (case find_elem ''Reason'' test of None \<Rightarrow> Some '''' | Some c \<Rightarrow> elem_text c);
           time_real = (case find_elem ''Time'' test of None \<Rightarrow> Some '''' | Some c \<Rightarrow> dget (elem_attrs c) ''real'')
       in Inr (result, name, reason, time_real)))"

section \<open>The text report\<close>

definition line :: "string \<Rightarrow> string" where
  "line s = s @ newline"

definition detail_line :: "string \<Rightarrow> string \<Rightarrow> elem \<Rightarrow> py_error + string" where
  "detail_line label tag details = res_bind (child_text tag details) (\<lambda>t. Inr (line (label @ show_opt t)))"

definition details_text :: "elem \<Rightarrow> py_error + string" where
  "details_text details =
     res_bind (detail_line ''      Message:   '' ''Message'' details) (\<lambda>m.
     res_bind (detail_line ''      Condition: '' ''Condition'' details) (\<lambda>c.
     res_bind (detail_line ''      Actual:    '' ''Actual'' details) (\<lambda>a.
     res_bind (detail_line ''      Limit:     '' ''Limit'' details) (\<lambda>l.
     res_bind (detail_line ''      File:      '' ''File'' details) (\<lambda>f.
     res_bind (detail_line ''      Line:      '' ''Line'' details) (\<lambda>n.
       Inr (line ''    Details:'' @ m @ c @ a @ l @ f @ n)))))))"

definition test_line :: "string \<Rightarrow> string option \<Rightarrow> string option \<Rightarrow> string option \<Rightarrow> string option \<Rightarrow> string" where
  "test_line test_type result name reason time_real =
     line (show_opt result @ '': Test '' @ test_type @ '' \"'' @ show_opt name @ ''\" ('' @ show_opt time_real @ '')''
           @ (case reason of None \<Rightarrow> ''None'' | Some r \<Rightarrow> if r = [] then [] else '' ('' @ r @ '')''))"

text \<open>What is written for a node itself, before its children.\<close>

definition node_text :: "string \<Rightarrow> elem \<Rightarrow> py_error + string" where
  "node_text test_type test =
     res_bind (read_test test) (\<lambda>(result, name, reason, time_real).
     res_bind (res_map details_text (findall ''FailureDetails'' test)) (\<lambda>details.
       Inr (test_line test_type result name reason time_real @ concat details)))"

function node_to_text :: "string \<Rightarrow> elem \<Rightarrow> py_error + string" where
  "node_to_text test_type test =
     res_bind (node_text test_type test) (\<lambda>own.
     res_bind (res_map (\<lambda>c. node_to_text ''Case'' c) (findall ''Test'' test)) (\<lambda>texts.
       Inr (own @ concat texts)))"
  by pat_completeness auto
termination
  by (relation "measure (\<lambda>(_, e). size e)") (auto dest: findall_smaller)

declare node_to_text.simps [simp del]

definition example_text :: "elem \<Rightarrow> py_error + string" where
  "example_text example =
     res_bind (child_text ''Result'' example) (\<lambda>result.
     res_bind (child_text ''Name'' example) (\<lambda>name.
       let time_real = (case find_elem ''Time'' example of None \<Rightarrow> Some '''' | Some c \<Rightarrow> dget (elem_attrs c) ''real'')
       in Inr (line (show_opt result @ '': Example \"'' @ show_opt name @ ''\" ('' @ show_opt time_real @ '')''))))"

definition translate_to_text :: "elem \<Rightarrow> py_error + string" where
  "translate_to_text et =
     res_bind (res_map (node_to_text ''Suite'') (findall ''Test'' et)) (\<lambda>tests.
     res_bind (res_map example_text (findall ''Example'' et)) (\<lambda>examples.
       Inr (concat tests @ concat examples)))"

section \<open>The HTML report\<close>

definition result_style :: "string option \<Rightarrow> string" where
  "result_style result =
     (if result = Some ''PASS'' then ''green'' else if result = Some ''SKIP'' then ''#ff6600'' else ''red'')"

text \<open>The header of a suite and the start of its table.\<close>

definition suite_header :: "string option \<Rightarrow> string option \<Rightarrow> string option \<Rightarrow> string option \<Rightarrow> string" where
  "suite_header result name reason time_real =
     line (''<h3 style=\"color:'' @ result_style result @ ''\">'' @ show_opt result @ '': '' @ show_opt name
           @ '' ('' @ show_opt time_real @ '')''
           @ (if result = Some ''SKIP'' then '' ('' @ show_opt reason @ '')'' else '''') @ ''</h3>'')
     @ line ''<table border=\"1\">'' @ line ''<th> Result </th>''"

text \<open>A suite without cases to show: one row with its result.\<close>

definition closed_suite :: "string option \<Rightarrow> string" where
  "closed_suite result =
     line ''<tr>''
     @ line (''<td style=\"color:'' @ (if result = Some ''SKIP'' then ''#ff6600'' else ''red'') @ ''\">''
             @ show_opt result @ ''</td>'')
     @ line ''</tr>'' @ line ''</table>''"

definition detail_item :: "string \<Rightarrow> string \<Rightarrow> string \<Rightarrow> elem \<Rightarrow> py_error + string" where
  "detail_item label tag sep details =
     res_bind (child_text tag details) (\<lambda>t. Inr (''<b>'' @ label @ '': </b>'' @ show_opt t @ sep))"

definition details_cell :: "elem \<Rightarrow> py_error + string" where
  "details_cell details =
     res_bind (detail_item ''Message'' ''Message'' '', '' details) (\<lambda>m.
     res_bind (detail_item ''Condition'' ''Condition'' '', '' details) (\<lambda>c.
     res_bind (detail_item ''Actual'' ''Actual'' '', '' details) (\<lambda>a.
     res_bind (detail_item ''Limit'' ''Limit'' '', '' details) (\<lambda>l.
     res_bind (detail_item ''File'' ''File'' '', '' details) (\<lambda>f.
     res_bind (detail_item ''Line'' ''Line'' '''' details) (\<lambda>n.
       Inr (''<td>'' @ m @ c @ a @ l @ f @ n @ line ''</td>'')))))))"

text \<open>The rows of a failed case, one for each failure; only the first shows the case.\<close>

fun failure_rows :: "bool \<Rightarrow> string option \<Rightarrow> string option \<Rightarrow> string option \<Rightarrow> elem list \<Rightarrow> py_error + string" where
  "failure_rows first_row result name time_real [] = Inr ''''"
| "failure_rows first_row result name time_real (details # rest) =
     res_bind (details_cell details) (\<lambda>cell.
     res_bind (failure_rows False result name time_real rest) (\<lambda>rows.
       Inr (line ''<tr>''
            @ (if first_row then
                 line (''<td style=\"color:red\">'' @ show_opt result @ ''</td>'')
                 @ line (''<td>'' @ show_opt name @ ''</td>'') @ line (''<td>'' @ show_opt time_real @ ''</td>'')
               else line ''<td></td>'' @ line ''<td></td>'' @ line ''<td></td>'')
            @ cell @ line ''</td>'' @ rows)))"

definition case_html :: "elem \<Rightarrow> py_error + string" where
  "case_html test_case =
     res_bind (read_test test_case) (\<lambda>(result, name, reason, time_real).
       if result = Some ''FAIL'' then
         failure_rows True result name time_real (findall ''FailureDetails'' test_case)
       else
         Inr (line ''<tr>'' @ line (''<td style=\"color:green\">'' @ show_opt result @ ''</td>'')
              @ line (''<td>'' @ show_opt name @ ''</td>'') @ line (''<td>'' @ show_opt time_real @ ''</td>'')
              @ line (''<td>'' @ show_opt reason @ ''</td>'') @ line ''</tr>''))"

definition suite_html :: "elem \<Rightarrow> py_error + string" where
  "suite_html suite =
     res_bind (read_test suite) (\<lambda>(result, name, reason, time_real).
       if result \<in> {Some ''CRASH'', Some ''SKIP'', Some ''VALGR''} then
         Inr (suite_header result name reason time_real @ closed_suite result)
       else
         res_bind (res_map case_html (findall ''Test'' suite)) (\<lambda>rows.
           Inr (suite_header result name reason time_real
                @ line ''<th>Test Case Name</th>'' @ line ''<th> Time </th>''
                @ (if result = Some ''FAIL'' then line ''<th>Failure Details</th>'' else '''')
                @ concat rows @ line ''</table>'')))"

definition example_html :: "elem \<Rightarrow> py_error + string" where
  "example_html example =
     res_bind (read_test example) (\<lambda>(result, name, reason, time_real).
       Inr (line ''<tr>''
            @ line (''<td style=\"color:'' @ result_style result @ ''\">'' @ show_opt result
                    @ (if result = Some ''SKIP'' then ''</fd>'' else ''</td>''))
            @ line (''<td>'' @ show_opt name @ ''</td>'') @ line (''<td>'' @ show_opt time_real @ ''</td>'')
            @ line (''<td>'' @ show_opt reason @ ''</td>'') @ line ''</tr>''))"

definition translate_to_html :: "elem \<Rightarrow> py_error + string" where
  "translate_to_html et =
     res_bind (res_map suite_html (findall ''Test'' et)) (\<lambda>suites.
     res_bind (res_map example_html (findall ''Example'' et)) (\<lambda>examples.
       Inr (line ''<html>'' @ line ''<body>'' @ line ''<center><h1>ns-3 Test Results</h1></center>''
            @ line ''<h2>Test Suites</h2>'' @ concat suites
            @ line ''<h2>Examples</h2>'' @ line ''<table border=\"1\">'' @ line ''<th> Result </th>''
            @ line ''<th>Example Name</th>'' @ line ''<th>Elapsed Time</th>'' @ line ''<th>Details</th>''
            @ concat examples @ line ''</table>'' @ line ''</body>'' @ line ''</html>'')))"

section \<open>The text report lists the tests in order\<close>

text \<open>A test and the cases below it, parents first, each with the word the report uses for it.\<close>

function preorder :: "string \<Rightarrow> elem \<Rightarrow> (string \<times> elem) list" where
  "preorder test_type test = (test_type, test) # concat (map (preorder ''Case'') (findall ''Test'' test))"
  by pat_completeness auto
termination
  by (relation "measure (\<lambda>(_, e). size e)") (auto dest: findall_smaller)

declare preorder.simps [simp del]

definition write_all :: "('a \<Rightarrow> py_error + string) \<Rightarrow> 'a list \<Rightarrow> py_error + string" where
  "write_all f xs = res_bind (res_map f xs) (\<lambda>ts. Inr (concat ts))"

lemma write_all_Nil [simp]: "write_all f [] = Inr ''''"
  by (simp add: write_all_def)

lemma write_all_Cons [simp]: "write_all f (x # xs) = res_bind (f x) (\<lambda>t. res_bind (write_all f xs) (\<lambda>u. Inr (t @ u)))"
  by (simp add: write_all_def res_bind_assoc)

lemma write_all_append: "write_all f (xs @ ys) = res_bind (write_all f xs) (\<lambda>t. res_bind (write_all f ys) (\<lambda>u. Inr (t @ u)))"
  by (induction xs) (simp_all add: res_bind_assoc)

lemma write_all_nested:
  "(\<And>x. x \<in> set xs \<Longrightarrow> g x = write_all f (h x)) \<Longrightarrow> write_all g xs = write_all f (concat (map h xs))"
  by (induction xs) (simp_all add: write_all_append)

lemma node_to_text_write: "node_to_text ty e = write_all (\<lambda>(ty, e). node_text ty e) (preorder ty e)"
proof (induction ty e rule: node_to_text.induct)
  case (1 ty e)
  have body: "node_to_text ty e =
      res_bind (node_text ty e) (\<lambda>own. res_bind (write_all (node_to_text ''Case'') (findall ''Test'' e)) (\<lambda>t. Inr (own @ t)))"
    by (simp add: node_to_text.simps [of ty e] write_all_def res_bind_assoc)
  show ?case
  proof (cases "node_text ty e")
    case (Inr own)
    have "write_all (node_to_text ''Case'') (findall ''Test'' e) =
        write_all (\<lambda>(ty, e). node_text ty e) (concat (map (preorder ''Case'') (findall ''Test'' e)))"
      by (rule write_all_nested) (use "1.IH" [OF Inr] in simp)
    then show ?thesis unfolding body by (simp add: preorder.simps [of ty e] Inr)
  qed (simp add: body preorder.simps [of ty e])
qed

lemma translate_text_flat:
  "translate_to_text et =
     res_bind (write_all (\<lambda>(ty, e). node_text ty e) (concat (map (preorder ''Suite'') (findall ''Test'' et)))) (\<lambda>tests.
     res_bind (write_all example_text (findall ''Example'' et)) (\<lambda>examples. Inr (tests @ examples)))"
proof -
  have "write_all (node_to_text ''Suite'') (findall ''Test'' et) =
      write_all (\<lambda>(ty, e). node_text ty e) (concat (map (preorder ''Suite'') (findall ''Test'' et)))"
    by (rule write_all_nested) (rule node_to_text_write)
  moreover have "translate_to_text et =
      res_bind (write_all (node_to_text ''Suite'') (findall ''Test'' et)) (\<lambda>tests.
      res_bind (write_all example_text (findall ''Example'' et)) (\<lambda>examples. Inr (tests @ examples)))"
    by (simp add: translate_to_text_def write_all_def res_bind_assoc)
  ultimately show ?thesis by simp
qed

text \<open>
  The recursive text report is the flat list of its tests: for every suite in order, the
  suite and then its cases, nested cases right below their case, each with its failures; the first
  test in that order that cannot be read decides the exception.
\<close>

theorem translate_to_text_preorder:
  "translate_to_text et =
     res_bind (write_all (\<lambda>(ty, e). node_text ty e) (concat (map (preorder ''Suite'') (findall ''Test'' et)))) (\<lambda>tests.
     res_bind (write_all example_text (findall ''Example'' et)) (\<lambda>examples. Inr (tests @ examples)))"
  by (rule translate_text_flat)

section \<open>When a report can be written\<close>

definition complete_details :: "elem \<Rightarrow> bool" where
  "complete_details d \<longleftrightarrow>
     (\<forall>tag \<in> {''Message'', ''Condition'', ''Actual'', ''Limit'', ''File'', ''Line''}. has_child d tag)"

definition complete_test :: "elem \<Rightarrow> bool" where
  "complete_test e \<longleftrightarrow> has_child e ''Result'' \<and> has_child e ''Name'' \<and>
     (\<forall>d \<in> set (findall ''FailureDetails'' e). complete_details d)"

definition complete_results :: "elem \<Rightarrow> bool" where
  "complete_results et \<longleftrightarrow>
     (\<forall>t \<in> set (findall ''Test'' et). \<forall>(ty, e) \<in> set (preorder ''Suite'' t). complete_test e) \<and>
     (\<forall>e \<in> set (findall ''Example'' et). has_child e ''Result'' \<and> has_child e ''Name'')"



lemma is_ok_write_all: "is_ok (write_all f xs) \<longleftrightarrow> (\<forall>x \<in> set xs. is_ok (f x))"
  unfolding is_ok_res_map [of f xs, symmetric] by (cases "res_map f xs") (simp_all add: write_all_def)

lemma read_test_ok: "is_ok (read_test e) \<longleftrightarrow> has_child e ''Result'' \<and> has_child e ''Name''"
  by (simp add: read_test_def is_ok_res_bind child_text_obtain Let_def)

lemma details_text_ok: "is_ok (details_text d) \<longleftrightarrow> complete_details d"
  by (auto simp: details_text_def detail_line_def is_ok_res_bind res_bind_eq_Inr complete_details_def child_text_obtain)

lemma details_cell_ok: "is_ok (details_cell d) \<longleftrightarrow> complete_details d"
  by (auto simp: details_cell_def detail_item_def is_ok_res_bind res_bind_eq_Inr complete_details_def child_text_obtain)

lemma node_text_ok: "is_ok (node_text ty e) \<longleftrightarrow> complete_test e"
proof -
  have "is_ok (node_text ty e) \<longleftrightarrow> is_ok (read_test e) \<and> is_ok (res_map details_text (findall ''FailureDetails'' e))"
    by (cases "read_test e"; cases "res_map details_text (findall ''FailureDetails'' e)") (auto simp: node_text_def)
  then show ?thesis by (simp add: read_test_ok is_ok_res_map details_text_ok complete_test_def)
qed

lemma example_text_ok: "is_ok (example_text e) \<longleftrightarrow> has_child e ''Result'' \<and> has_child e ''Name''"
  by (simp add: example_text_def is_ok_res_bind child_text_obtain Let_def)

lemma failure_rows_ok: "is_ok (failure_rows b r n t ds) \<longleftrightarrow> (\<forall>d \<in> set ds. complete_details d)"
proof (induction b r n t ds rule: failure_rows.induct)
  case (2 b r n t d ds)
  then show ?case
    by (cases "details_cell d"; cases "failure_rows False r n t ds") (auto simp flip: details_cell_ok)
qed simp

lemma case_html_ok: "complete_test e \<Longrightarrow> is_ok (case_html e)"
  using read_test_ok [of e]
  by (cases "read_test e") (auto simp: case_html_def complete_test_def failure_rows_ok split: prod.split)

lemma suite_html_ok: "complete_test e \<Longrightarrow> \<forall>c \<in> set (findall ''Test'' e). complete_test c \<Longrightarrow> is_ok (suite_html e)"
  using read_test_ok [of e] is_ok_res_map [of case_html "findall ''Test'' e"] case_html_ok
  by (cases "read_test e") (auto simp: suite_html_def complete_test_def is_ok_res_bind is_ok_iff split: prod.split)

lemma example_html_ok: "is_ok (example_html e) \<longleftrightarrow> has_child e ''Result'' \<and> has_child e ''Name''"
  unfolding read_test_ok [symmetric] by (cases "read_test e") (auto simp: example_html_def split: prod.split)

text \<open>
  The text report can be written exactly when every test at any depth has a result and a
  name and complete failure details, and every example has a result and a name; then the HTML report
  can be written too.
\<close>

theorem reports_complete:
  "(is_ok (translate_to_text et) \<longleftrightarrow> complete_results et) \<and>
   (is_ok (translate_to_text et) \<longrightarrow> is_ok (translate_to_html et))"
proof
  have "is_ok (translate_to_text et) \<longleftrightarrow>
      is_ok (write_all (\<lambda>(ty, e). node_text ty e) (concat (map (preorder ''Suite'') (findall ''Test'' et))))
      \<and> is_ok (write_all example_text (findall ''Example'' et))"
    unfolding translate_text_flat
    by (cases "write_all (\<lambda>(ty, e). node_text ty e) (concat (map (preorder ''Suite'') (findall ''Test'' et)))";
        cases "write_all example_text (findall ''Example'' et)") simp_all
  then show tok: "is_ok (translate_to_text et) \<longleftrightarrow> complete_results et"
    by (auto simp: is_ok_write_all example_text_ok complete_results_def node_text_ok split: prod.splits)
  show "is_ok (translate_to_text et) \<longrightarrow> is_ok (translate_to_html et)"
  proof
    assume "is_ok (translate_to_text et)"
    with tok have c: "complete_results et" by simp
    have suites: "is_ok (suite_html t)" if "t \<in> set (findall ''Test'' et)" for t
    proof (rule suite_html_ok)
      have pre: "\<forall>(ty, e) \<in> set (preorder ''Suite'' t). complete_test e" using c that by (simp add: complete_results_def)
      then show "complete_test t" by (simp add: preorder.simps [of _ t])
      have "(''Case'', e) \<in> set (preorder ''Case'' e)" for e by (simp add: preorder.simps [of _ e])
      with pre show "\<forall>e \<in> set (findall ''Test'' t). complete_test e" by (fastforce simp: preorder.simps [of _ t])
    qed
    moreover have "is_ok (example_html e)" if "e \<in> set (findall ''Example'' et)" for e
      using c that by (simp add: complete_results_def example_html_ok)
    ultimately have "is_ok (res_map suite_html (findall ''Test'' et))" "is_ok (res_map example_html (findall ''Example'' et))"
      by (simp_all add: is_ok_res_map)
    then show "is_ok (translate_to_html et)" by (auto simp: translate_to_html_def is_ok_iff)
  qed
qed

section \<open>An example\<close>

definition sample_tree :: elem where
  "sample_tree =
     Elem ''Results'' [] None
       [Elem ''Test'' [] None
          [leaf ''Name'' ''tcp'', leaf ''Result'' ''FAIL'', Elem ''Time'' [(''real'', ''0.1'')] None [],
           Elem ''Test'' [] None
             [leaf ''Name'' ''ack'', leaf ''Result'' ''FAIL'',
              Elem ''FailureDetails'' [] None
                [leaf ''Message'' ''m'', leaf ''Condition'' ''c'', leaf ''Actual'' ''1'', leaf ''Limit'' ''0'',
                 leaf ''File'' ''f.cc'', leaf ''Line'' ''7'']]],
        Elem ''Example'' [] None [leaf ''Name'' ''udp'', leaf ''Result'' ''PASS'']]"

lemma reports_complete_witness:
  "is_ok (translate_to_text sample_tree) \<and> is_ok (translate_to_html sample_tree) \<and> complete_results sample_tree"
proof -
  have "is_ok (translate_to_text sample_tree)" by code_simp
  with reports_complete [of sample_tree] show ?thesis by blast
qed

end
