(* ===== verification/Test_Main.thy ===== *)
theory Test_Main
  imports Test_Results Test_Report
begin

text \<open>
  \<^verbatim>\<open>run_tests\<close> and \<^verbatim>\<open>main\<close> of the test driver (\<^verbatim>\<open>simulation/test.py\<close>) as a whole: configuration,
  build, paths, the lists of programs and examples, the listing options, the dispatched jobs, their
  results, the reports and the exit status. The messages of \<^verbatim>\<open>--verbose\<close> and the progress notes are
  left out of the printed text.
\<close>

section \<open>What the program meets\<close>

record world =
  w_platform :: string
  w_python :: string
  w_cwd :: string
  w_environ :: "(string, string) dict"
  w_read :: reader                                   \<comment> \<open>text files, as lines\<close>
  w_eval_string :: "string \<Rightarrow> py_error + string"      \<comment> \<open>\<^verbatim>\<open>eval\<close> at its types\<close>
  w_eval_strings :: "string \<Rightarrow> py_error + string list"
  w_eval_cpp :: "string \<Rightarrow> py_error + (string \<times> string \<times> string) list"
  w_eval_py :: "string \<Rightarrow> py_error + (string \<times> string) list"
  w_eval_cond :: "globals \<Rightarrow> string \<Rightarrow> py_error + bool"
  w_exec :: "string \<Rightarrow> globals \<Rightarrow> py_error + globals"
  w_initial :: globals
  w_shell :: "string \<Rightarrow> int"                          \<comment> \<open>the build command\<close>
  w_run :: runner                                    \<comment> \<open>processes the main thread runs\<close>
  w_pool :: "job list \<Rightarrow> job list"                    \<comment> \<open>the results in the order of arrival\<close>
  w_result_file :: "string \<Rightarrow> string option"
  w_parse :: "string \<Rightarrow> py_error + elem"
  w_output_dir :: string

section \<open>Listing\<close>

definition print_list :: "string list \<Rightarrow> string" where
  "print_list items = concat (map (\<lambda>i. i @ newline) items)"

definition kinds_text :: "world \<Rightarrow> globals \<Rightarrow> py_error + string" where
  "kinds_text w cfg =
     res_bind (run_job_synchronously cfg (w_run w)
                 (path_join ''utils'' (test_runner_name cfg @ '' --print-test-type-list'')) (w_cwd w) False False '''')
       (\<lambda>(rc, out, et). Inr (show_opt out @ newline))"

definition runner_failed :: "int \<Rightarrow> string" where
  "runner_failed rc =
     ''test.py error:  test-runner return code returned '' @ str_int rc @ newline
     @ ''To debug, try running '' @ [CHR 0x27] @ ''./ns3 run '' @ [CHR 0x22]
     @ ''test-runner --print-test-name-list'' @ [CHR 0x22] @ [CHR 0x27] @ newline @ newline"

text \<open>When the test runner fails, \<^verbatim>\<open>run_tests\<close> says so and returns at once.\<close>

definition list_text :: "world \<Rightarrow> options \<Rightarrow> globals \<Rightarrow> examples \<Rightarrow> py_error + string" where
  "list_text w opts cfg ex =
     res_bind (run_job_synchronously cfg (w_run w)
                 (path_join ''utils'' (test_runner_name cfg @ '' --print-test-name-list --print-test-types''
                    @ (if opt_constrain opts \<noteq> [] then '' --test-type='' @ opt_constrain opts else '''')))
                 (w_cwd w) False False '''') (\<lambda>(rc, out, et).
       if rc \<noteq> 0 then Inr (runner_failed rc)
       else
         (case out of
            None \<Rightarrow> Inl ValueError
          | Some s \<Rightarrow>
              Inr (print_list [''Test Type    Test Name'', ''---------    ---------'']
                   @ print_list (filter (\<lambda>i. py_strip i \<noteq> []) (sort (split_char newline_char s)))
                   @ print_list (map (\<lambda>i. ''example      '' @ i) (sort (example_names_original ex)))
                   @ newline)))"

section \<open>The run\<close>

record outcome =
  returned :: "int option"
  out_text :: string
  out_files :: "(string \<times> string) list"

definition returns :: "int option \<Rightarrow> string \<Rightarrow> outcome" where
  "returns r t = \<lparr>returned = r, out_text = t, out_files = []\<rparr>"

text \<open>The configuration with the two directories set.\<close>

definition configure :: "world \<Rightarrow> py_error + globals" where
  "configure w =
     res_bind (read_ns3_config (w_read w) (w_eval_string w) (w_exec w) (w_platform w) (w_initial w)) (\<lambda>(td, od, cfg).
       Inr (cfg\<lparr>NS3_BASEDIR := td, NS3_BUILDDIR := od\<rparr>))"

definition example_env_of :: "world \<Rightarrow> globals \<Rightarrow> example_env" where
  "example_env_of w cfg =
     \<lparr>ee_read = w_read w, ee_cwd = w_cwd w, ee_builddir = NS3_BUILDDIR cfg, ee_appname = APPNAME cfg,
      ee_version = VERSION cfg, ee_suffix = build_profile_suffix cfg\<rparr>"

text \<open>The reports the options ask for, in the order of the code.\<close>

definition write_reports :: "world \<Rightarrow> options \<Rightarrow> string \<Rightarrow> py_error + (string \<times> string) list" where
  "write_reports w opts xml =
     res_bind (if opt_html opts \<noteq> [] then
                 res_bind (w_parse w xml) (\<lambda>et. res_bind (translate_to_html et) (\<lambda>t. Inr [(opt_html opts @ ''.html'', t)]))
               else Inr []) (\<lambda>html.
     res_bind (if opt_text opts \<noteq> [] then
                 res_bind (w_parse w xml) (\<lambda>et. res_bind (translate_to_text et) (\<lambda>t. Inr [(opt_text opts @ ''.txt'', t)]))
               else Inr []) (\<lambda>text.
       Inr (html @ text @ (if opt_xml opts \<noteq> [] then [(opt_xml opts @ ''.xml'', xml)] else []))))"

text \<open>From the queue to the end.\<close>

definition run_jobs ::
  "world \<Rightarrow> options \<Rightarrow> globals \<Rightarrow> (string, string) dict \<Rightarrow> string list \<Rightarrow> examples \<Rightarrow> py_error + outcome" where
  "run_jobs w opts cfg programs scripts ex =
     res_bind (dispatch_jobs cfg opts (w_run w) (w_eval_cond w cfg) programs scripts ex (w_cwd w) (w_output_dir w)) (\<lambda>js.
     res_bind (collect_results opts (use_color opts (w_environ w)) (length js) (w_result_file w) (w_pool w js)) (\<lambda>st.
     res_bind (write_reports w opts (xml_document st)) (\<lambda>files.
       Inr \<lparr>returned = Some (exit_code (length js) st),
            out_text = printed st @ summary_text (length js) st
              @ (if opt_html opts @ opt_text opts @ opt_xml opts \<noteq> [] then newline else '''')
              @ notes_text opts cfg,
            out_files = files\<rparr>)))"

text \<open>
  \<^verbatim>\<open>run_tests\<close> after the build: the environment of the processes is set, the lists are read, and the
  listing options end the run.
\<close>

definition run_configured :: "world \<Rightarrow> options \<Rightarrow> globals \<Rightarrow> py_error + outcome" where
  "run_configured w opts cfg =
     (let lock = lock_file_name (w_platform w) in
      case w_read w lock of
        None \<Rightarrow> Inl (SystemExit 2)
      | Some _ \<Rightarrow>
          res_bind (get_list_from_file (w_read w) (w_eval_strings w) lock ''ns3_runnable_programs'') (\<lambda>programs.
          res_bind (get_list_from_file (w_read w) (w_eval_strings w) lock ''ns3_runnable_scripts'') (\<lambda>scripts.
          res_bind (collect_examples cfg (example_env_of w cfg) (w_eval_cpp w) (w_eval_py w)) (\<lambda>ex.
          res_bind (if opt_kinds opts then kinds_text w cfg else Inr '''') (\<lambda>kinds.
            if opt_list opts then
              res_bind (list_text w opts cfg ex) (\<lambda>l. Inr (returns None (kinds @ l)))
            else if opt_kinds opts then Inr (returns None kinds)
            else run_jobs w opts cfg (programs_dictionary programs) (runnable_scripts scripts) ex)))))"

definition run_tests :: "world \<Rightarrow> options \<Rightarrow> py_error + outcome" where
  "run_tests w opts =
     res_bind (configure w) (\<lambda>cfg.
       let rc = w_shell w (build_cmd (w_platform w) (w_python w) opts) in
       if \<not> opt_no_build opts \<and> rc \<noteq> 0 then Inr (returns (Some rc) '''')
       else run_configured w opts cfg)"

text \<open>The environment of the processes: \<^verbatim>\<open>make_paths\<close>, and no logging.\<close>

definition process_environ :: "world \<Rightarrow> globals \<Rightarrow> (string, string) dict" where
  "process_environ w cfg =
     dset ''NS_LOG'' '''' (make_paths (w_platform w) (NS3_BUILDDIR cfg) (NS3_MODULE_PATH cfg) (w_environ w))"

text \<open>\<^verbatim>\<open>sys.exit(main(sys.argv))\<close>: the status of the process.\<close>

definition exit_status :: "py_error + outcome \<Rightarrow> int" where
  "exit_status r =
     (case r of
        Inl (SystemExit n) \<Rightarrow> n
      | Inl _ \<Rightarrow> 1
      | Inr oc \<Rightarrow> (case returned oc of None \<Rightarrow> 0 | Some n \<Rightarrow> n))"

section \<open>A run with jobs\<close>

text \<open>The jobs that a run puts into the queue.\<close>

definition dispatched_jobs :: "world \<Rightarrow> options \<Rightarrow> globals \<Rightarrow> py_error + job list" where
  "dispatched_jobs w opts cfg =
     (let lock = lock_file_name (w_platform w) in
      res_bind (get_list_from_file (w_read w) (w_eval_strings w) lock ''ns3_runnable_programs'') (\<lambda>programs.
      res_bind (get_list_from_file (w_read w) (w_eval_strings w) lock ''ns3_runnable_scripts'') (\<lambda>scripts.
      res_bind (collect_examples cfg (example_env_of w cfg) (w_eval_cpp w) (w_eval_py w)) (\<lambda>ex.
        dispatch_jobs cfg opts (w_run w) (w_eval_cond w cfg) (programs_dictionary programs)
          (runnable_scripts scripts) ex (w_cwd w) (w_output_dir w)))))"

lemma dispatched_jobsE:
  assumes "dispatched_jobs w opts cfg = Inr js"
  obtains programs scripts ex where
    "dispatch_jobs cfg opts (w_run w) (w_eval_cond w cfg) programs scripts ex (w_cwd w) (w_output_dir w) = Inr js"
  using assms unfolding dispatched_jobs_def Let_def by (elim res_bindE) blast

lemma run_jobs_returned:
  assumes "run_jobs w opts cfg programs scripts ex = Inr oc"
  shows "\<exists>js st. dispatch_jobs cfg opts (w_run w) (w_eval_cond w cfg) programs scripts ex (w_cwd w) (w_output_dir w) = Inr js \<and>
     collect_results opts (use_color opts (w_environ w)) (length js) (w_result_file w) (w_pool w js) = Inr st \<and>
     returned oc = Some (exit_code (length js) st)"
  using assms unfolding run_jobs_def by (elim res_bindE) auto

text \<open>Past the build and without a listing option, the run is its jobs.\<close>

lemma run_tests_returned:
  assumes "run_tests w opts = Inr oc" and "configure w = Inr cfg" and "\<not> opt_list opts" "\<not> opt_kinds opts"
    and "opt_no_build opts \<or> w_shell w (build_cmd (w_platform w) (w_python w) opts) = 0"
  shows "\<exists>js st. dispatched_jobs w opts cfg = Inr js \<and>
     collect_results opts (use_color opts (w_environ w)) (length js) (w_result_file w) (w_pool w js) = Inr st \<and>
     returned oc = Some (exit_code (length js) st)"
proof -
  from assms have "run_configured w opts cfg = Inr oc" by (auto simp: run_tests_def Let_def split: if_splits)
  then obtain programs scripts ex where
    *: "get_list_from_file (w_read w) (w_eval_strings w) (lock_file_name (w_platform w)) ''ns3_runnable_programs'' = Inr programs"
      "get_list_from_file (w_read w) (w_eval_strings w) (lock_file_name (w_platform w)) ''ns3_runnable_scripts'' = Inr scripts"
      "collect_examples cfg (example_env_of w cfg) (w_eval_cpp w) (w_eval_py w) = Inr ex"
      and "run_jobs w opts cfg (programs_dictionary programs) (runnable_scripts scripts) ex = Inr oc"
    unfolding run_configured_def Let_def using assms(3,4)
    by (cases "w_read w (lock_file_name (w_platform w))") (simp, simp only: option.case if_False, elim res_bindE, simp)
  from run_jobs_returned [OF this(4)] * show ?thesis by (simp add: dispatched_jobs_def)
qed

section \<open>When the run ends early\<close>

lemma run_configured_listing:
  assumes "run_configured w opts cfg = Inr oc" and l: "opt_list opts \<or> opt_kinds opts"
  shows "returned oc = None \<and> out_files oc = []"
proof -
  from assms(1) obtain programs scripts ex kinds where
    *: "(if opt_list opts then
           res_bind (list_text w opts cfg ex) (\<lambda>t. Inr (returns None (kinds @ t)))
         else if opt_kinds opts then Inr (returns None kinds)
         else run_jobs w opts cfg (programs_dictionary programs) (runnable_scripts scripts) ex) = Inr oc"
    unfolding run_configured_def Let_def
    by (cases "w_read w (lock_file_name (w_platform w))") (simp, simp only: option.case, elim res_bindE, blast)
  show ?thesis
  proof (cases "opt_list opts")
    case True
    with * show ?thesis by (auto simp: returns_def elim!: res_bindE)
  next
    case False
    with * l show ?thesis by (auto simp: returns_def)
  qed
qed


definition sample_lock :: "string list" where
  "sample_lock = [''top_dir = a'', ''out_dir = b'', ''ns3_runnable_programs = []'', ''ns3_runnable_scripts = []'']"

definition sample_world :: world where
  "sample_world =
     \<lparr>w_platform = ''linux'', w_python = ''python3'', w_cwd = ''/a'', w_environ = [],
      w_read = (\<lambda>p. if p = lock_file_name ''linux'' then Some sample_lock else None),
      w_eval_string = Inr, w_eval_strings = (\<lambda>_. Inr []), w_eval_cpp = (\<lambda>_. Inr []), w_eval_py = (\<lambda>_. Inr []),
      w_eval_cond = (\<lambda>_ _. Inr True), w_exec = (\<lambda>_ g. Inr g), w_initial = sample_globals,
      w_shell = (\<lambda>_. 2), w_run = sample_runner, w_pool = (\<lambda>js. js), w_result_file = (\<lambda>_. None),
      w_parse = (\<lambda>_. Inl ValueError), w_output_dir = ''/t''\<rparr>"


end
