(* ===== verification/Flow_Monitor.thy ===== *)
theory Flow_Monitor
  imports Xml_Tree Py_Float
begin

text \<open>
  The flow monitor report (\<^verbatim>\<open>flow-monitor/examples/flowmon-parse-results.py\<close>): the flows, their
  five-tuples and the statistics of the probes are read from an element tree and printed. Floats are
  exact rationals. Flow objects are shared between the list \<^verbatim>\<open>flows\<close> and the dictionary
  \<^verbatim>\<open>flow_map\<close>: the dictionary maps an id to the position of its flow in the list.
\<close>

section \<open>Reading attributes\<close>

text \<open>\<^verbatim>\<open>int(el.get(k))\<close>, \<^verbatim>\<open>float(el.get(k))\<close>: a missing attribute is \<^verbatim>\<open>None\<close>.\<close>

definition int_attr :: "elem \<Rightarrow> string \<Rightarrow> py_error + int" where
  "int_attr el k = (case dget (elem_attrs el) k of None \<Rightarrow> Inl TypeError | Some s \<Rightarrow> parse_int s)"

definition float_attr :: "elem \<Rightarrow> string \<Rightarrow> py_error + rat" where
  "float_attr el k = (case dget (elem_attrs el) k of None \<Rightarrow> Inl TypeError | Some s \<Rightarrow> parse_float s)"

definition drop_last2 :: "string \<Rightarrow> string" where
  "drop_last2 s = take (length s - 2) s"

definition parse_time_ns :: "string option \<Rightarrow> py_error + rat" where
  "parse_time_ns tm =
     (case tm of
        None \<Rightarrow> Inl AttributeError
      | Some s \<Rightarrow> if drop (length s - 2) s = ''ns'' then parse_float (drop_last2 s) else Inl ValueError)"

definition time_attr :: "elem \<Rightarrow> string \<Rightarrow> py_error + rat" where
  "time_attr el k = parse_time_ns (dget (elem_attrs el) k)"

section \<open>Flows\<close>

record five_tuple =
  sourceAddress :: "string option"
  destinationAddress :: "string option"
  sourcePort :: int
  destinationPort :: int
  protocol :: int

definition read_five_tuple :: "elem \<Rightarrow> py_error + five_tuple" where
  "read_five_tuple el =
     res_bind (int_attr el ''sourcePort'') (\<lambda>sp.
     res_bind (int_attr el ''destinationPort'') (\<lambda>dp.
     res_bind (int_attr el ''protocol'') (\<lambda>pr.
       Inr \<lparr>sourceAddress = dget (elem_attrs el) ''sourceAddress'',
            destinationAddress = dget (elem_attrs el) ''destinationAddress'',
            sourcePort = sp, destinationPort = dp, protocol = pr\<rparr>)))"

type_synonym histogram = "(rat \<times> rat \<times> int) list"

definition read_histogram :: "elem \<Rightarrow> py_error + histogram" where
  "read_histogram el =
     res_map (\<lambda>b. res_bind (float_attr b ''start'') (\<lambda>s.
                  res_bind (float_attr b ''width'') (\<lambda>w.
                  res_bind (int_attr b ''count'') (\<lambda>c. Inr (s, w, c))))) (findall ''bin'' el)"

record probe_flow_stats =
  probeId :: int
  packets :: int
  bytes :: rat
  delayFromFirstProbe :: rat

record flow =
  flowId :: int
  rx_duration :: rat
  probe_stats_unsorted :: "probe_flow_stats list"
  hopCount :: rat
  delayMean :: "rat option"
  packetSizeMean :: "rat option"
  rxBitrate :: "rat option"
  txBitrate :: "rat option"
  packetLossRatio :: "rat option"
  flowInterruptionsHistogram :: "histogram option"
  fiveTuple :: "five_tuple option"

text \<open>\<open>ok_if c r d\<close>: read \<open>r\<close> only under the condition \<open>c\<close>.\<close>

definition read_if :: "bool \<Rightarrow> (unit \<Rightarrow> py_error + 'a) \<Rightarrow> py_error + 'a option" where
  "read_if c r = (if c then res_bind (r ()) (\<lambda>x. Inr (Some x)) else Inr None)"

definition delay_sum :: "elem \<Rightarrow> py_error + rat" where
  "delay_sum el =
     (case dget (elem_attrs el) ''delaySum'' of None \<Rightarrow> Inl TypeError | Some s \<Rightarrow> parse_float (drop_last2 s))"

definition loss_ratio :: "rat \<Rightarrow> rat \<Rightarrow> py_error + rat option" where
  "loss_ratio rxPackets lost =
     (if rxPackets = 0 then Inr None
      else if rxPackets + lost = 0 then Inl ZeroDivisionError
      else Inr (Some (lost / (rxPackets + lost))))"

definition read_flow :: "elem \<Rightarrow> py_error + flow" where
  "read_flow el =
     res_bind (int_attr el ''flowId'') (\<lambda>fid.
     res_bind (float_attr el ''rxPackets'') (\<lambda>rxPackets.
     res_bind (float_attr el ''txPackets'') (\<lambda>txPackets.
     res_bind (time_attr el ''timeLastTxPacket'') (\<lambda>tx1.
     res_bind (time_attr el ''timeFirstTxPacket'') (\<lambda>tx0.
     res_bind (time_attr el ''timeLastRxPacket'') (\<lambda>rx1.
     res_bind (time_attr el ''timeFirstRxPacket'') (\<lambda>rx0.
       let tx_dur = (tx1 - tx0) / 10 ^ 9; rx_dur = (rx1 - rx0) / 10 ^ 9; some = (rxPackets \<noteq> 0) in
     res_bind (read_if some (\<lambda>_. float_attr el ''timesForwarded'')) (\<lambda>fwd.
     res_bind (read_if some (\<lambda>_. delay_sum el)) (\<lambda>delay.
     res_bind (read_if some (\<lambda>_. float_attr el ''rxBytes'')) (\<lambda>rxb.
     res_bind (read_if (rx_dur > 0) (\<lambda>_. float_attr el ''rxBytes'')) (\<lambda>rxr.
     res_bind (read_if (tx_dur > 0) (\<lambda>_. float_attr el ''txBytes'')) (\<lambda>txr.
     res_bind (float_attr el ''lostPackets'') (\<lambda>lost.
     res_bind (loss_ratio rxPackets lost) (\<lambda>ratio.
     res_bind (case find_elem ''flowInterruptionsHistogram'' el of
                 None \<Rightarrow> Inr None
               | Some h \<Rightarrow> res_bind (read_histogram h) (\<lambda>bins. Inr (Some bins))) (\<lambda>hist.
       Inr \<lparr>flowId = fid, rx_duration = rx_dur, probe_stats_unsorted = [],
            hopCount = (case fwd of None \<Rightarrow> - 1000 | Some n \<Rightarrow> n / rxPackets + 1),
            delayMean = map_option (\<lambda>d. d / rxPackets / 10 ^ 9) delay,
            packetSizeMean = map_option (\<lambda>b. b / rxPackets) rxb,
            rxBitrate = map_option (\<lambda>b. b * 8 / rx_dur) rxr,
            txBitrate = map_option (\<lambda>b. b * 8 / tx_dur) txr,
            packetLossRatio = ratio, flowInterruptionsHistogram = hist, fiveTuple = None\<rparr>)))))))))))))))"

section \<open>The simulation\<close>

record simulation =
  flows :: "flow list"
  flow_map :: "(int, nat) dict"

definition add_flow :: "elem \<Rightarrow> simulation \<Rightarrow> py_error + simulation" where
  "add_flow el sim =
     res_bind (read_flow el) (\<lambda>f.
       Inr (sim\<lparr>flows := flows sim @ [f], flow_map := dset (flowId f) (length (flows sim)) (flow_map sim)\<rparr>))"

text \<open>Change the object that the dictionary holds for an id.\<close>

definition update_flow :: "int \<Rightarrow> (flow \<Rightarrow> flow) \<Rightarrow> simulation \<Rightarrow> py_error + simulation" where
  "update_flow fid g sim =
     (case dget (flow_map sim) fid of
        None \<Rightarrow> Inl KeyError
      | Some i \<Rightarrow> Inr (sim\<lparr>flows := (flows sim)[i := g (flows sim ! i)]\<rparr>))"

definition classify_flow :: "elem \<Rightarrow> simulation \<Rightarrow> py_error + simulation" where
  "classify_flow el sim =
     res_bind (int_attr el ''flowId'') (\<lambda>fid.
     res_bind (read_five_tuple el) (\<lambda>t.
       update_flow fid (\<lambda>f. f\<lparr>fiveTuple := Some t\<rparr>) sim))"

definition read_stats :: "int \<Rightarrow> elem \<Rightarrow> py_error + int \<times> probe_flow_stats" where
  "read_stats probe el =
     res_bind (int_attr el ''flowId'') (\<lambda>fid.
     res_bind (int_attr el ''packets'') (\<lambda>n.
     res_bind (float_attr el ''bytes'') (\<lambda>b.
     res_bind (if n > 0 then res_bind (time_attr el ''delayFromFirstProbeSum'') (\<lambda>d. Inr (d / of_int n))
               else Inr 0) (\<lambda>delay.
       Inr (fid, \<lparr>probeId = probe, packets = n, bytes = b, delayFromFirstProbe = delay\<rparr>)))))"

definition add_stats :: "int \<Rightarrow> elem \<Rightarrow> simulation \<Rightarrow> py_error + simulation" where
  "add_stats probe el sim =
     res_bind (read_stats probe el) (\<lambda>(fid, s).
       update_flow fid (\<lambda>f. f\<lparr>probe_stats_unsorted := probe_stats_unsorted f @ [s]\<rparr>) sim)"

definition add_probe :: "elem \<Rightarrow> simulation \<Rightarrow> py_error + simulation" where
  "add_probe el sim =
     res_bind (int_attr el ''index'') (\<lambda>probe. res_fold (add_stats probe) (findall ''FlowStats'' el) sim)"

text \<open>\<^verbatim>\<open>findall("a/b")\<close>.\<close>

definition findall2 :: "string \<Rightarrow> string \<Rightarrow> elem \<Rightarrow> elem list" where
  "findall2 a b el = concat (map (findall b) (findall a el))"

definition read_simulation :: "elem \<Rightarrow> py_error + simulation" where
  "read_simulation el =
     (case findall ''Ipv4FlowClassifier'' el of
        [classifier] \<Rightarrow>
          res_bind (res_fold add_flow (findall2 ''FlowStats'' ''Flow'' el) \<lparr>flows = [], flow_map = []\<rparr>) (\<lambda>sim1.
          res_bind (res_fold classify_flow (findall ''Flow'' classifier) sim1) (\<lambda>sim2.
            res_fold add_probe (findall2 ''FlowProbes'' ''FlowProbe'' el) sim2))
      | _ \<Rightarrow> Inl ValueError)"

section \<open>The report\<close>

definition nl :: string where "nl = [CHR 0x0A]"

definition measure_line :: "string \<Rightarrow> string \<Rightarrow> rat option \<Rightarrow> rat \<Rightarrow> string" where
  "measure_line label unit v scale =
     CHR 0x09 # label @ '': '' @ (case v of None \<Rightarrow> ''None'' | Some x \<Rightarrow> fmt_fixed 2 (x * scale) @ unit) @ nl"

definition flow_text :: "flow \<Rightarrow> py_error + string" where
  "flow_text f =
     (case fiveTuple f of
        None \<Rightarrow> Inl AttributeError
      | Some t \<Rightarrow>
          (case dget [(6, ''TCP''), (17, ''UDP'')] (protocol t) of
             None \<Rightarrow> Inl KeyError
           | Some proto \<Rightarrow>
               Inr (''FlowID: '' @ str_int (flowId f) @ '' ('' @ proto @ '' '' @ show_opt (sourceAddress t) @ ''/''
                    @ str_int (sourcePort t) @ '' --> '' @ show_opt (destinationAddress t) @ ''/''
                    @ str_int (destinationPort t) @ '')'' @ nl
                    @ measure_line ''TX bitrate'' '' kbit/s'' (txBitrate f) (1 / 10 ^ 3)
                    @ measure_line ''RX bitrate'' '' kbit/s'' (rxBitrate f) (1 / 10 ^ 3)
                    @ measure_line ''Mean Delay'' '' ms'' (delayMean f) (10 ^ 3)
                    @ measure_line ''Packet Loss Ratio'' '' %'' (packetLossRatio f) 100)))"

text \<open>
  \<^verbatim>\<open>main\<close>: the elements end with the root, so at most one simulation is read, if the root is a
  \<^verbatim>\<open>FlowMonitor\<close> element.
\<close>

definition flowmon_main :: "elem \<Rightarrow> py_error + string" where
  "flowmon_main doc =
     res_bind (if elem_tag doc = ''FlowMonitor'' then res_bind (read_simulation doc) (\<lambda>s. Inr [s]) else Inr []) (\<lambda>sims.
     res_bind (res_map flow_text (concat (map flows sims))) (\<lambda>texts.
       Inr (''Reading XML file  '' @ (if sims = [] then '''' else ''.'') @ '' done.'' @ nl @ concat texts)))"

section \<open>Updates reach the right flow\<close>

text \<open>The later loops only change objects that the dictionary holds: a list of ids and changes.\<close>

definition apply_updates :: "(int \<times> (flow \<Rightarrow> flow)) list \<Rightarrow> simulation \<Rightarrow> py_error + simulation" where
  "apply_updates us = res_fold (\<lambda>u. update_flow (fst u) (snd u)) us"

definition apply_to :: "(int, nat) dict \<Rightarrow> nat \<Rightarrow> (int \<times> (flow \<Rightarrow> flow)) list \<Rightarrow> flow \<Rightarrow> flow" where
  "apply_to fm i us f = fold (\<lambda>u f. if dget fm (fst u) = Some i then snd u f else f) us f"

lemma apply_to_append: "apply_to fm i (us @ vs) f = apply_to fm i vs (apply_to fm i us f)"
  by (simp add: apply_to_def)

lemma apply_to_single: "apply_to fm i [u] f = (if dget fm (fst u) = Some i then snd u f else f)"
  by (simp add: apply_to_def)

lemma apply_updates_effect:
  "apply_updates us sim = Inr sim' \<Longrightarrow>
     flow_map sim' = flow_map sim \<and> length (flows sim') = length (flows sim) \<and>
     (\<forall>i < length (flows sim). flows sim' ! i = apply_to (flow_map sim) i us (flows sim ! i))"
proof (induction us arbitrary: sim)
  case (Cons u us)
  then obtain sim1 where 1: "update_flow (fst u) (snd u) sim = Inr sim1" and 2: "apply_updates us sim1 = Inr sim'"
    by (auto simp: apply_updates_def res_bind_eq_Inr)
  from 1 have sim1: "flow_map sim1 = flow_map sim" "length (flows sim1) = length (flows sim)"
    "\<forall>i < length (flows sim). flows sim1 ! i =
       (if dget (flow_map sim) (fst u) = Some i then snd u (flows sim ! i) else flows sim ! i)"
    by (auto simp: update_flow_def nth_list_update split: option.splits)
  from Cons.IH [OF 2] sim1 show ?case by (simp add: apply_to_def)
qed (simp add: apply_updates_def apply_to_def)

lemma res_fold_updates:
  assumes "\<And>x sim sim'. f x sim = Inr sim' \<Longrightarrow> apply_updates (us x) sim = Inr sim'"
  shows "res_fold f xs sim = Inr sim' \<Longrightarrow> apply_updates (concat (map us xs)) sim = Inr sim'"
proof (induction xs arbitrary: sim)
  case (Cons x xs)
  then obtain sim1 where "f x sim = Inr sim1" and "res_fold f xs sim1 = Inr sim'" by (auto simp: res_bind_eq_Inr)
  with assms Cons.IH show ?case by (auto simp: apply_updates_def res_fold_append)
qed (simp add: apply_updates_def)

definition tuple_update :: "elem \<Rightarrow> int \<times> (flow \<Rightarrow> flow)" where
  "tuple_update el = (projr (int_attr el ''flowId''), \<lambda>f. f\<lparr>fiveTuple := Some (projr (read_five_tuple el))\<rparr>)"

definition push_stats :: "int \<times> probe_flow_stats \<Rightarrow> int \<times> (flow \<Rightarrow> flow)" where
  "push_stats p = (fst p, \<lambda>f. f\<lparr>probe_stats_unsorted := probe_stats_unsorted f @ [snd p]\<rparr>)"

definition probe_stats :: "elem \<Rightarrow> (int \<times> probe_flow_stats) list" where
  "probe_stats el = map (\<lambda>s. projr (read_stats (projr (int_attr el ''index'')) s)) (findall ''FlowStats'' el)"

text \<open>All statistics of the document, in document order, each with the id of its flow.\<close>

definition document_stats :: "elem \<Rightarrow> (int \<times> probe_flow_stats) list" where
  "document_stats el = concat (map probe_stats (findall2 ''FlowProbes'' ''FlowProbe'' el))"

text \<open>The entries of the classifier, the last first.\<close>

definition document_tuples :: "elem \<Rightarrow> (int \<times> five_tuple) list" where
  "document_tuples el =
     rev (map (\<lambda>e. (projr (int_attr e ''flowId''), projr (read_five_tuple e)))
       (findall ''Flow'' (hd (findall ''Ipv4FlowClassifier'' el))))"

lemma classify_flow_update: "classify_flow el sim = Inr sim' \<Longrightarrow> apply_updates [tuple_update el] sim = Inr sim'"
  by (auto simp: classify_flow_def apply_updates_def tuple_update_def res_bind_eq_Inr)

lemma add_stats_update:
  "add_stats probe el sim = Inr sim' \<Longrightarrow> apply_updates [push_stats (projr (read_stats probe el))] sim = Inr sim'"
  by (auto simp: add_stats_def apply_updates_def push_stats_def res_bind_eq_Inr)

lemma concat_map_singleton: "concat (map (\<lambda>x. [f x]) xs) = map f xs"
  by (induction xs) simp_all

lemma add_probe_updates: "add_probe el sim = Inr sim' \<Longrightarrow> apply_updates (map push_stats (probe_stats el)) sim = Inr sim'"
proof -
  assume "add_probe el sim = Inr sim'"
  then obtain probe where probe: "int_attr el ''index'' = Inr probe"
    and "res_fold (add_stats probe) (findall ''FlowStats'' el) sim = Inr sim'"
    by (auto simp: add_probe_def res_bind_eq_Inr)
  from res_fold_updates [OF add_stats_update this(2)] probe show ?thesis
    by (simp add: concat_map_singleton probe_stats_def comp_def)
qed

lemma fold_tuple_updates:
  "probe_stats_unsorted (apply_to fm i (map tuple_update els) f) = probe_stats_unsorted f"
  "flowId (apply_to fm i (map tuple_update els) f) = flowId f"
  by (induction els arbitrary: f) (simp_all add: apply_to_def tuple_update_def)

lemma fold_push_stats:
  "probe_stats_unsorted (apply_to fm i (map push_stats ps) f) =
     probe_stats_unsorted f @ map snd (filter (\<lambda>p. dget fm (fst p) = Some i) ps)"
  "fiveTuple (apply_to fm i (map push_stats ps) f) = fiveTuple f"
  "flowId (apply_to fm i (map push_stats ps) f) = flowId f"
  by (induction ps arbitrary: f) (simp_all add: apply_to_def push_stats_def)

lemma fold_tuple_last:
  "fiveTuple (apply_to fm i (map tuple_update els) f) =
     (case find (\<lambda>e. dget fm (fst (tuple_update e)) = Some i) (rev els) of
        None \<Rightarrow> fiveTuple f | Some e \<Rightarrow> Some (projr (read_five_tuple e)))"
proof (induction els rule: rev_induct)
  case (snoc e els)
  have "fiveTuple (snd (tuple_update e) g) = Some (projr (read_five_tuple e))" for e g by (simp add: tuple_update_def)
  with snoc show ?case by (simp add: apply_to_append apply_to_single)
qed (simp add: apply_to_def)

section \<open>The dictionary of flows\<close>

text \<open>A flow is in the dictionary if no later flow has its id.\<close>

definition latest :: "flow list \<Rightarrow> nat \<Rightarrow> bool" where
  "latest fs i \<longleftrightarrow> (\<forall>k. i < k \<and> k < length fs \<longrightarrow> flowId (fs ! k) \<noteq> flowId (fs ! i))"

definition map_ok :: "simulation \<Rightarrow> bool" where
  "map_ok sim \<longleftrightarrow> (\<forall>i fid. i < length (flows sim) \<longrightarrow>
     (dget (flow_map sim) fid = Some i \<longleftrightarrow> fid = flowId (flows sim ! i) \<and> latest (flows sim) i)) \<and>
     (\<forall>fid i. dget (flow_map sim) fid = Some i \<longrightarrow> i < length (flows sim))"

lemma latest_snoc:
  "i < length fs \<Longrightarrow> latest (fs @ [f]) i \<longleftrightarrow> latest fs i \<and> flowId f \<noteq> flowId (fs ! i)"
  "latest (fs @ [f]) (length fs)"
  by (auto simp: latest_def nth_append less_Suc_eq)

lemma map_ok_empty: "map_ok \<lparr>flows = [], flow_map = []\<rparr>"
  by (simp add: map_ok_def)

lemma add_flow_map_ok: "add_flow el sim = Inr sim' \<Longrightarrow> map_ok sim \<Longrightarrow> map_ok sim'"
proof -
  assume add: "add_flow el sim = Inr sim'" and ok: "map_ok sim"
  from add obtain f where sim': "sim' = sim\<lparr>flows := flows sim @ [f], flow_map := dset (flowId f) (length (flows sim)) (flow_map sim)\<rparr>"
    by (auto simp: add_flow_def res_bind_eq_Inr)
  show "map_ok sim'"
    unfolding map_ok_def
  proof (intro conjI allI impI)
    fix i fid assume i: "i < length (flows sim')"
    show "dget (flow_map sim') fid = Some i \<longleftrightarrow> fid = flowId (flows sim' ! i) \<and> latest (flows sim') i"
    proof (cases "i < length (flows sim)")
      case True
      with ok have "dget (flow_map sim) fid = Some i \<longleftrightarrow> fid = flowId (flows sim ! i) \<and> latest (flows sim) i"
        by (simp add: map_ok_def)
      with True show ?thesis by (auto simp: sim' latest_snoc nth_append)
    next
      case False
      with i have "i = length (flows sim)" by (simp add: sim')
      moreover have "dget (flow_map sim) fid \<noteq> Some (length (flows sim))" using ok by (auto simp: map_ok_def)
      ultimately show ?thesis by (auto simp: sim' latest_snoc)
    qed
  next
    fix fid i assume "dget (flow_map sim') fid = Some i"
    then show "i < length (flows sim')" using ok by (auto simp: sim' map_ok_def less_Suc_eq split: if_splits)
  qed
qed

lemma add_flow_plain:
  "add_flow el sim = Inr sim' \<Longrightarrow> \<forall>f \<in> set (flows sim). probe_stats_unsorted f = [] \<and> fiveTuple f = None \<Longrightarrow>
     \<forall>f \<in> set (flows sim'). probe_stats_unsorted f = [] \<and> fiveTuple f = None"
  by (auto simp: add_flow_def read_flow_def res_bind_eq_Inr Let_def)

lemma add_flows_ok:
  "res_fold add_flow els sim = Inr sim' \<Longrightarrow> map_ok sim \<Longrightarrow>
     \<forall>f \<in> set (flows sim). probe_stats_unsorted f = [] \<and> fiveTuple f = None \<Longrightarrow>
     map_ok sim' \<and> (\<forall>f \<in> set (flows sim'). probe_stats_unsorted f = [] \<and> fiveTuple f = None)"
proof (induction els arbitrary: sim)
  case (Cons el els)
  then obtain sim1 where "add_flow el sim = Inr sim1" and "res_fold add_flow els sim1 = Inr sim'"
    by (auto simp: res_bind_eq_Inr)
  then show ?case using Cons.IH add_flow_map_ok Cons.prems(2) add_flow_plain [OF _ Cons.prems(3)] by blast
qed simp

text \<open>
  Claim C21. After a document is read, each flow carries the statistics that the probes report for
  its id, of all probes and in document order, and the last classifier entry for its id. Only if
  several flows share an id, all of them but the last stay without both.
\<close>

theorem read_simulation_correct:
  assumes "read_simulation el = Inr sim" and "i < length (flows sim)"
  shows "probe_stats_unsorted (flows sim ! i) =
      (if latest (flows sim) i
       then map snd (filter (\<lambda>p. fst p = flowId (flows sim ! i)) (document_stats el)) else []) \<and>
    fiveTuple (flows sim ! i) =
      (if latest (flows sim) i then dget (document_tuples el) (flowId (flows sim ! i)) else None)"
proof -
  from assms(1) obtain classifier sim1 sim2 where
    cls: "findall ''Ipv4FlowClassifier'' el = [classifier]"
    and 1: "res_fold add_flow (findall2 ''FlowStats'' ''Flow'' el) \<lparr>flows = [], flow_map = []\<rparr> = Inr sim1"
    and 2: "res_fold classify_flow (findall ''Flow'' classifier) sim1 = Inr sim2"
    and 3: "res_fold add_probe (findall2 ''FlowProbes'' ''FlowProbe'' el) sim2 = Inr sim"
    by (auto simp: read_simulation_def res_bind_eq_Inr split: list.splits)
  let ?els = "findall ''Flow'' classifier"
  have ok: "map_ok sim1" and plain: "\<forall>f \<in> set (flows sim1). probe_stats_unsorted f = [] \<and> fiveTuple f = None"
    using add_flows_ok [OF 1 map_ok_empty] by simp_all
  have up2: "apply_updates (map tuple_update ?els) sim1 = Inr sim2"
    using res_fold_updates [OF classify_flow_update 2] by (simp add: concat_map_singleton)
  have up3: "apply_updates (map push_stats (document_stats el)) sim2 = Inr sim"
    using res_fold_updates [OF add_probe_updates 3] by (simp add: document_stats_def map_concat comp_def)
  note e2 = apply_updates_effect [OF up2] and e3 = apply_updates_effect [OF up3]
  have len: "length (flows sim1) = length (flows sim)" using conjunct1 [OF conjunct2 [OF e2]] conjunct1 [OF conjunct2 [OF e3]] by simp
  have flow: "flows sim ! k = apply_to (flow_map sim1) k (map push_stats (document_stats el))
      (apply_to (flow_map sim1) k (map tuple_update ?els) (flows sim1 ! k))" if "k < length (flows sim)" for k
    using e2 e3 len that by metis
  have ids: "flowId (flows sim ! k) = flowId (flows sim1 ! k)" if "k < length (flows sim)" for k
    unfolding flow [OF that] fold_push_stats fold_tuple_updates ..
  have plain_i: "probe_stats_unsorted (flows sim1 ! i) = []" "fiveTuple (flows sim1 ! i) = None"
    using plain assms(2) len by simp_all
  have lat: "latest (flows sim) i \<longleftrightarrow> latest (flows sim1) i"
    using assms(2) ids len by (simp add: latest_def)
  have fm: "dget (flow_map sim1) fid = Some i \<longleftrightarrow> fid = flowId (flows sim ! i) \<and> latest (flows sim) i" for fid
    using ok assms(2) len ids lat by (simp add: map_ok_def)
  have "probe_stats_unsorted (flows sim ! i) =
      map snd (filter (\<lambda>p. fst p = flowId (flows sim ! i) \<and> latest (flows sim) i) (document_stats el))"
    unfolding flow [OF assms(2)] fold_push_stats fold_tuple_updates plain_i fm by (simp add: flow [OF assms(2), symmetric])
  moreover have "fiveTuple (flows sim ! i) =
      (case find (\<lambda>e. projr (int_attr e ''flowId'') = flowId (flows sim ! i) \<and> latest (flows sim) i) (rev ?els) of
         None \<Rightarrow> None | Some e \<Rightarrow> Some (projr (read_five_tuple e)))"
    unfolding flow [OF assms(2)] fold_push_stats fold_tuple_last plain_i fm
    by (simp add: flow [OF assms(2), symmetric] tuple_update_def)
  moreover have "(case find (\<lambda>e. projr (int_attr e ''flowId'') = k) es of
         None \<Rightarrow> None | Some e \<Rightarrow> Some (projr (read_five_tuple e))) =
      dget (map (\<lambda>e. (projr (int_attr e ''flowId''), projr (read_five_tuple e))) es) k" for k es
    by (induction es) simp_all
  moreover have "find (\<lambda>e. False) es = None" for es :: "elem list" by (induction es) simp_all
  ultimately show ?thesis
    by (simp add: document_tuples_def cls rev_map)
qed

text \<open>
  The derived figures are within their bounds: with non-negative counts the loss ratio lies
  between 0 and 1, a flow that received packets has at least one hop, one that received none has no
  mean delay, packet size or loss ratio, and a bit rate exists only for a positive duration.
\<close>

theorem read_flow_bounds:
  assumes "read_flow el = Inr f" and "float_attr el ''rxPackets'' = Inr rx" and "0 \<le> rx"
    and "float_attr el ''lostPackets'' = Inr lost" and "0 \<le> lost"
    and "float_attr el ''timesForwarded'' = Inr fwd" and "0 \<le> fwd"
  shows "(case packetLossRatio f of None \<Rightarrow> rx = 0 | Some r \<Rightarrow> 0 \<le> r \<and> r \<le> 1 \<and> 0 < rx) \<and>
    (if rx = 0 then hopCount f = - 1000 \<and> delayMean f = None \<and> packetSizeMean f = None else 1 \<le> hopCount f) \<and>
    (rxBitrate f = None \<longleftrightarrow> rx_duration f \<le> 0)"
proof (cases "rx = 0")
  case True
  then show ?thesis using assms
    by (auto simp: read_flow_def res_bind_eq_Inr Let_def read_if_def loss_ratio_def split: if_splits)
next
  case False
  then have "0 < rx + lost" "0 < rx" using assms by auto
  then have "lost / (rx + lost) \<le> 1" "0 \<le> lost / (rx + lost)" "0 \<le> fwd / rx" using assms by simp_all
  then show ?thesis using False assms \<open>0 < rx\<close>
    by (auto simp: read_flow_def res_bind_eq_Inr Let_def read_if_def loss_ratio_def split: if_splits)
qed

section \<open>An example\<close>

definition sample_flow :: "string \<Rightarrow> elem" where
  "sample_flow fid = Elem ''Flow''
     [(''flowId'', fid), (''rxPackets'', ''2''), (''txPackets'', ''3''), (''timeLastTxPacket'', ''+3ns''),
      (''timeFirstTxPacket'', ''+1ns''), (''timeLastRxPacket'', ''+3.5ns''), (''timeFirstRxPacket'', ''+15e-1ns''),
      (''timesForwarded'', ''4''), (''delaySum'', ''+8ns''), (''rxBytes'', ''6''), (''txBytes'', ''9''),
      (''lostPackets'', ''1'')] None []"

definition sample_class :: "string \<Rightarrow> elem" where
  "sample_class fid = Elem ''Flow''
     [(''flowId'', fid), (''sourceAddress'', ''10.0.0.1''), (''destinationAddress'', ''10.0.0.2''),
      (''protocol'', ''17''), (''sourcePort'', ''8''), (''destinationPort'', ''9'')] None []"

definition sample_doc :: elem where
  "sample_doc = Elem ''FlowMonitor'' [] None
     [Elem ''FlowStats'' [] None [sample_flow ''1'', sample_flow ''2''],
      Elem ''Ipv4FlowClassifier'' [] None [sample_class ''2'', sample_class ''1''],
      Elem ''FlowProbes'' [] None
        [Elem ''FlowProbe'' [(''index'', ''0'')] None
           [Elem ''FlowStats'' [(''flowId'', ''2''), (''packets'', ''10''), (''bytes'', ''50''),
              (''delayFromFirstProbeSum'', ''+5ns'')] None []]]]"

lemma read_simulation_correct_witness:
  "\<exists>sim. read_simulation sample_doc = Inr sim \<and> length (flows sim) = 2 \<and>
     map packets (probe_stats_unsorted (flows sim ! 1)) = [10]"
proof -
  have "is_ok (read_simulation sample_doc)" by code_simp
  then obtain sim where sim: "read_simulation sample_doc = Inr sim" by (auto simp: is_ok_iff)
  have "map_sum id (\<lambda>s. map flowId (flows s)) (read_simulation sample_doc) = (Inr [1, 2] :: py_error + int list)" by code_simp
  then have ids: "map flowId (flows sim) = [1, 2]" by (simp add: sim)
  then have len: "length (flows sim) = 2" by (metis length_map length_Cons list.size(3) numeral_2_eq_2)
  with ids have id1: "flowId (flows sim ! 1) = 2" by (metis One_nat_def lessI nth_Cons_0 nth_Cons_Suc nth_map numeral_2_eq_2)
  have "latest (flows sim) 1" using len by (simp add: latest_def)
  then have "probe_stats_unsorted (flows sim ! 1) = map snd (filter (\<lambda>p. fst p = 2) (document_stats sample_doc))"
    using read_simulation_correct [OF sim, of 1] len id1 by simp
  moreover have "map packets (map snd (filter (\<lambda>p. fst p = 2) (document_stats sample_doc))) = [10]" by code_simp
  ultimately show ?thesis using sim len by metis
qed

lemma read_flow_bounds_witness:
  "\<exists>f. read_flow (sample_flow ''1'') = Inr f \<and> 1 \<le> hopCount f"
proof -
  have "is_ok (read_flow (sample_flow ''1''))" by code_simp
  then obtain f where f: "read_flow (sample_flow ''1'') = Inr f" by (auto simp: is_ok_iff)
  have "float_attr (sample_flow ''1'') ''rxPackets'' = Inr 2" "float_attr (sample_flow ''1'') ''lostPackets'' = Inr 1"
    "float_attr (sample_flow ''1'') ''timesForwarded'' = Inr 4" by code_simp+
  from read_flow_bounds [OF f this(1) _ this(2) _ this(3)] f show ?thesis by auto
qed

end
