(* ===== verification/Rdma_Analysis.thy ===== *)
theory Rdma_Analysis
  imports Py_Float "HOL-Library.Char_ord" "HOL-Library.List_Lexorder"
begin

text \<open>
  The analysis scripts of the RDMA simulations (\<^verbatim>\<open>analysis/\<close>): the table of flow completion times
  (\<^verbatim>\<open>fct_analysis.py\<close>) and the curves of throughput, queue length, rate and CNP counts. The shell
  pipeline that filters and sorts the flows, and the pandas grouping of the monitor files, are
  parameters. Floats are exact rationals.
\<close>

section \<open>Flow completion times\<close>

text \<open>\<^verbatim>\<open>s.split()\<close>.\<close>

fun split_ws_acc :: "string \<Rightarrow> string \<Rightarrow> string list" where
  "split_ws_acc acc [] = (if acc = [] then [] else [rev acc])"
| "split_ws_acc acc (c # cs) =
     (if py_space c then (if acc = [] then split_ws_acc [] cs else rev acc # split_ws_acc [] cs)
      else split_ws_acc (c # acc) cs)"

definition split_ws :: "string \<Rightarrow> string list" where
  "split_ws s = split_ws_acc [] s"

text \<open>\<^verbatim>\<open>a[int(len(a) * p)]\<close> for \<open>0 \<le> p\<close>.\<close>

definition get_pctl :: "'a list \<Rightarrow> rat \<Rightarrow> py_error + 'a" where
  "get_pctl a p =
     (let i = nat \<lfloor>of_nat (length a) * p\<rfloor> in if i < length a then Inr (a ! i) else Inl IndexError)"

text \<open>The command for a type of flows: 0 normal, 1 incast, anything else all.\<close>

definition fct_cmd :: "int \<Rightarrow> int \<Rightarrow> string \<Rightarrow> string" where
  "fct_cmd type time_limit file =
     ''cat '' @ file
     @ (if type = 0 then '' | awk '' @ [CHR 0x27] @ ''{if ($4==100 && $6+$7<''
        else if type = 1 then '' | awk '' @ [CHR 0x27] @ ''{if ($4==200 && $6+$7<''
        else '' | awk '' @ [CHR 0x27] @ ''{$6+$7<'')
     @ str_int time_limit @ '') {slow=$7/$8;print slow<1?1:slow, $5}}'' @ [CHR 0x27] @ '' | sort -n -k 2''"

definition fct_file :: "string \<Rightarrow> string \<Rightarrow> string" where
  "fct_file fct_prefix cc = ''../simulation/mix/'' @ fct_prefix @ ''_'' @ cc @ ''.txt''"


definition CCs :: "string list" where
  "CCs = [''hpccPint95ai50log1.05p1.000'', ''hp95ai50'']"

text \<open>\<^verbatim>\<open>output.split('\n')[:-2]\<close>.\<close>

definition flow_lines :: "string \<Rightarrow> string list" where
  "flow_lines out = (let parts = split_char (CHR 0x0A) out in take (length parts - 2) parts)"

text \<open>A line: the slowdown and the size of a flow.\<close>

definition parse_flow :: "string \<Rightarrow> py_error + rat \<times> int" where
  "parse_flow x =
     (case split_ws x of
        s # z # _ \<Rightarrow> res_bind (parse_float s) (\<lambda>slow. res_bind (parse_int z) (\<lambda>size. Inr (slow, size)))
      | [s] \<Rightarrow> res_bind (parse_float s) (\<lambda>_. Inl IndexError)
      | [] \<Rightarrow> Inl IndexError)"

definition slice :: "nat \<Rightarrow> nat \<Rightarrow> 'a list \<Rightarrow> 'a list" where
  "slice l r xs = drop l (take r xs)"

text \<open>The flows of the bin that starts at \<open>i\<close> percent, and its four figures.\<close>

definition bin_lines :: "nat \<Rightarrow> string list \<Rightarrow> nat \<Rightarrow> string list" where
  "bin_lines step a i = slice (i * length a div 100) ((i + step) * length a div 100) a"

definition bin_figures :: "(rat \<times> int) list \<Rightarrow> py_error + int \<times> rat \<times> rat \<times> rat" where
  "bin_figures d =
     (let fct = sort (map fst d)
      in if d = [] then Inl IndexError
         else res_bind (get_pctl fct (1 / 2)) (\<lambda>mid.
              res_bind (get_pctl fct (95 / 100)) (\<lambda>p95.
              res_bind (get_pctl fct (99 / 100)) (\<lambda>p99.
                Inr (snd (last d), mid, p95, p99)))))"

definition fct_bin :: "nat \<Rightarrow> string list \<Rightarrow> nat \<Rightarrow> py_error + int \<times> rat \<times> rat \<times> rat" where
  "fct_bin step a i = res_bind (res_map parse_flow (bin_lines step a i)) bin_figures"

text \<open>\<^verbatim>\<open>range(0, 100, step)\<close> for a step that is not 0.\<close>

definition bin_starts :: "int \<Rightarrow> nat list" where
  "bin_starts step =
     (if step < 0 then [] else map (\<lambda>k. k * nat step) [0..<(99 + nat step) div nat step])"

text \<open>The columns of one congestion control, and all of them.\<close>

definition cc_columns ::
  "(string \<Rightarrow> py_error + string) \<Rightarrow> int \<Rightarrow> int \<Rightarrow> string \<Rightarrow> int \<Rightarrow> string \<Rightarrow> py_error + (int \<times> rat \<times> rat \<times> rat) list" where
  "cc_columns check_output type time_limit fct_prefix step cc =
     res_bind (check_output (fct_cmd type time_limit (fct_file fct_prefix cc))) (\<lambda>out.
       res_map (fct_bin (nat step) (flow_lines out)) (bin_starts step))"

definition table_line :: "nat \<Rightarrow> (int \<times> rat \<times> rat \<times> rat) list \<Rightarrow> string" where
  "table_line i cols =
     fmt_fixed 3 (of_nat i / 100) @ '' '' @ str_int (fst (hd cols))
     @ concat (map (\<lambda>(size, mid, p95, p99).
         CHR 0x09 # fmt_fixed 3 mid @ '' '' @ fmt_fixed 3 p95 @ '' '' @ fmt_fixed 3 p99) cols) @ [CHR 0x0A]"

definition fct_main ::
  "(string \<Rightarrow> py_error + string) \<Rightarrow> int \<Rightarrow> int \<Rightarrow> string \<Rightarrow> int \<Rightarrow> py_error + string" where
  "fct_main check_output type time_limit fct_prefix step =
     (if step = 0 then Inl ValueError
      else
        res_bind (res_map (cc_columns check_output type time_limit fct_prefix step) CCs) (\<lambda>columns.
          Inr (concat (map (\<lambda>(k, i). table_line i (map (\<lambda>c. c ! k) columns))
                 (enumerate 0 (bin_starts step))))))"

section \<open>What the table shows\<close>

lemma split_lines:
  "\<forall>l \<in> set ls. CHR 0x0A \<notin> set l \<Longrightarrow> split_char (CHR 0x0A) (concat (map (\<lambda>l. l @ [CHR 0x0A]) ls)) = ls @ [[]]"
  by (induction ls) (simp_all add: split_char_append)

text \<open>
  The script forgets the largest flow: of an output whose lines all end with a newline, the
  last line is dropped together with the empty piece behind it.
\<close>

theorem flow_lines_drop_last:
  assumes "\<forall>l \<in> set ls. CHR 0x0A \<notin> set l"
  shows "flow_lines (concat (map (\<lambda>l. l @ [CHR 0x0A]) ls)) = butlast ls"
  by (simp add: flow_lines_def split_lines [OF assms] butlast_conv_take)

lemma flow_lines_drop_last_witness: "flow_lines (''1 10'' @ [CHR 0x0A] @ ''2 20'' @ [CHR 0x0A]) = [''1 10'']"
  using flow_lines_drop_last [of "[''1 10'', ''2 20'']"] by simp

lemma concat_slices:
  assumes "f 0 = 0" and "\<And>k. f k \<le> f (Suc k)"
  shows "concat (map (\<lambda>k. slice (f k) (f (Suc k)) xs) [0..<m]) = take (f m) xs"
proof (induction m)
  case (Suc m)
  have "take (f m) (take (f (Suc m)) xs) = take (f m) xs" using assms(2) [of m] by (simp add: min_def)
  then have "take (f (Suc m)) xs = take (f m) xs @ slice (f m) (f (Suc m)) xs"
    unfolding slice_def using append_take_drop_id [of "f m" "take (f (Suc m)) xs"] by simp
  with Suc show ?case by simp
qed (simp add: assms)

lemma hundred_div: "0 < step \<Longrightarrow> step dvd 100 \<Longrightarrow> \<exists>q. 100 = step * q \<and> 100 div step = (q :: nat)"
  by (metis dvd_mult_div_cancel)

lemma bin_starts_dvd: "0 < step \<Longrightarrow> step dvd 100 \<Longrightarrow> bin_starts (int step) = map (\<lambda>k. k * step) [0..<100 div step]"
proof -
  assume "0 < step" "step dvd 100"
  then obtain q where q: "100 = step * q" "100 div step = q" using hundred_div by metis
  have "(99 + step) div step = 100 div step"
  proof -
    have "99 + step = (step - 1) + q * step" using q \<open>0 < step\<close> by (simp add: mult.commute)
    then have "(99 + step) div step = q + (step - 1) div step"
      using \<open>0 < step\<close> by (metis div_mult_self1 neq0_conv)
    then show ?thesis using q \<open>0 < step\<close> by simp
  qed
  then show ?thesis using \<open>0 < step\<close> by (simp add: bin_starts_def)
qed

lemma bin_nonempty:
  assumes "(i + step) \<le> 100"
  shows "bin_lines step a i \<noteq> [] \<longleftrightarrow> i * length a div 100 < (i + step) * length a div 100"
proof -
  have "(i + step) * length a div 100 \<le> 100 * length a div 100"
    by (rule div_le_mono) (use assms in simp)
  then have "length (take ((i + step) * length a div 100) a) = (i + step) * length a div 100" by simp
  then show ?thesis by (auto simp: bin_lines_def slice_def)
qed

lemma bin_figures_ok: "is_ok (bin_figures d) \<longleftrightarrow> d \<noteq> []"
proof (cases "d = []")
  case False
  then have "0 < length d" by simp
  have "is_ok (get_pctl (sort (map fst d)) p)" if "p < 1" "0 \<le> p" for p
  proof -
    have "of_nat (length d) * p < of_nat (length d)" using that \<open>0 < length d\<close> by simp
    then have "nat \<lfloor>of_nat (length d) * p\<rfloor> < length d"
      using that by (simp add: nat_less_iff floor_less_iff)
    then show ?thesis by (simp add: get_pctl_def Let_def)
  qed
  from this [of "1 / 2"] this [of "95 / 100"] this [of "99 / 100"] False show ?thesis
    by (auto simp: bin_figures_def Let_def is_ok_iff)
qed (simp add: bin_figures_def)



lemma fct_bin_ok:
  assumes "\<forall>x \<in> set a. is_ok (parse_flow x)"
  shows "is_ok (fct_bin step a i) \<longleftrightarrow> bin_lines step a i \<noteq> []"
proof -
  have "set (bin_lines step a i) \<subseteq> set a"
    by (auto simp: bin_lines_def slice_def dest: in_set_dropD in_set_takeD)
  then have "is_ok (res_map parse_flow (bin_lines step a i))" using assms by (auto simp: is_ok_res_map)
  then obtain d where d: "res_map parse_flow (bin_lines step a i) = Inr d" by (auto simp: is_ok_iff)
  then have "d = [] \<longleftrightarrow> bin_lines step a i = []" by (metis length_0_conv res_map_Inr_length)
  with d show ?thesis by (simp add: fct_bin_def bin_figures_ok)
qed

text \<open>
  Claim C23. When the step divides 100 the bins are consecutive and hold every line once, in the order
  of the flow sizes; all bins are filled, and the table is computed, exactly when there are at least
  as many flows as bins.
\<close>

theorem fct_bins_partition:
  assumes "0 < step" and "step dvd 100" and "\<forall>x \<in> set a. is_ok (parse_flow x)"
  shows "concat (map (bin_lines step a) (bin_starts (int step))) = a \<and>
    (is_ok (res_map (fct_bin step a) (bin_starts (int step))) \<longleftrightarrow> 100 div step \<le> length a)"
proof
  let ?f = "\<lambda>k. k * step * length a div 100"
  have starts: "bin_starts (int step) = map (\<lambda>k. k * step) [0..<100 div step]" by (rule bin_starts_dvd [OF assms(1,2)])
  have "bin_lines step a (k * step) = slice (?f k) (?f (Suc k)) a" for k
    by (simp add: bin_lines_def algebra_simps)
  then have "concat (map (bin_lines step a) (bin_starts (int step))) =
      concat (map (\<lambda>k. slice (?f k) (?f (Suc k)) a) [0..<100 div step])"
    by (simp add: starts comp_def)
  also have "\<dots> = take (?f (100 div step)) a"
    by (rule concat_slices) (simp_all add: div_le_mono)
  also have "\<dots> = a" using assms(2) by simp
  finally show "concat (map (bin_lines step a) (bin_starts (int step))) = a" .
  have "is_ok (res_map (fct_bin step a) (bin_starts (int step))) \<longleftrightarrow>
      (\<forall>k < 100 div step. bin_lines step a (k * step) \<noteq> [])"
    by (auto simp: is_ok_res_map starts fct_bin_ok [OF assms(3)])
  also have "\<dots> \<longleftrightarrow> 100 \<le> step * length a"
  proof
    assume *: "\<forall>k < 100 div step. bin_lines step a (k * step) \<noteq> []"
    have "step \<le> 100" using assms(2) by (simp add: dvd_imp_le)
    moreover have "0 < 100 div step" using \<open>step \<le> 100\<close> assms(1) by (simp add: div_greater_zero_iff)
    ultimately have "0 < step * length a div 100" using * bin_nonempty [of 0 step a] by (metis add_0 div_0 mult_0)
    then show "100 \<le> step * length a" by (simp add: div_greater_zero_iff)
  next
    assume *: "100 \<le> step * length a"
    show "\<forall>k < 100 div step. bin_lines step a (k * step) \<noteq> []"
    proof (intro allI impI)
      fix k assume "k < 100 div step"
      then have "Suc k * step \<le> 100 div step * step" by (metis Suc_leI mult_le_mono1)
      then have le: "k * step + step \<le> 100" using assms(2) by simp
      have "k * step * length a div 100 + 1 = (k * step * length a + 100) div 100" by simp
      also have "\<dots> \<le> (k * step + step) * length a div 100"
        by (rule div_le_mono) (use * in \<open>simp add: algebra_simps\<close>)
      finally show "bin_lines step a (k * step) \<noteq> []" using bin_nonempty [OF le, of a] by simp
    qed
  qed
  also have "\<dots> \<longleftrightarrow> 100 div step \<le> length a"
  proof -
    obtain q where "100 = step * q" "100 div step = q" using hundred_div assms(1,2) by metis
    then show ?thesis using assms(1) by (metis mult_le_cancel1)
  qed
  finally show "is_ok (res_map (fct_bin step a) (bin_starts (int step))) \<longleftrightarrow> 100 div step \<le> length a" .
qed

lemma fct_bins_partition_witness:
  "is_ok (res_map (fct_bin 50 [''1.5 10'', ''2 20'', ''1 30'']) (bin_starts 50)) \<and>
   concat (map (bin_lines 50 [''1.5 10'', ''2 20'', ''1 30'']) (bin_starts 50)) = [''1.5 10'', ''2 20'', ''1 30'']"
proof -
  have "\<forall>x \<in> set [''1.5 10'', ''2 20'', ''1 30'']. is_ok (parse_flow x)" by code_simp
  from fct_bins_partition [OF _ _ this, of 50] show ?thesis by simp
qed

text \<open>The value at a percentile is in the list, and at least that share of the list is not above it.\<close>

lemma get_pctl_rank:
  assumes "get_pctl (sort xs) p = Inr v" and "0 \<le> p"
  shows "v \<in> set xs \<and> of_nat (length xs) * p < of_nat (length (filter (\<lambda>x. x \<le> v) xs))"
proof -
  let ?i = "nat \<lfloor>of_nat (length xs) * p\<rfloor>"
  from assms(1) have i: "?i < length xs" "v = sort xs ! ?i" by (auto simp: get_pctl_def Let_def split: if_splits)
  have "\<forall>x \<in> set (take (Suc ?i) (sort xs)). x \<le> v"
    using i by (auto simp: in_set_conv_nth less_Suc_eq_le intro!: sorted_nth_mono)
  then have "filter (\<lambda>x. x \<le> v) (take (Suc ?i) (sort xs)) = take (Suc ?i) (sort xs)" by simp
  then have "Suc ?i \<le> length (filter (\<lambda>x. x \<le> v) (sort xs))"
    using i(1) by (metis append_take_drop_id filter_append le_add1 length_append length_sort length_take min.absorb2 Suc_leI)
  also have "length (filter (\<lambda>x. x \<le> v) (sort xs)) = length (filter (\<lambda>x. x \<le> v) xs)"
    by (simp add: filter_sort)
  finally have "Suc ?i \<le> length (filter (\<lambda>x. x \<le> v) xs)" .
  moreover have "of_nat (length xs) * p < of_nat (Suc ?i)"
  proof -
    have "0 \<le> of_nat (length xs) * p" using assms(2) by simp
    then have "of_int (int ?i) = (of_int \<lfloor>of_nat (length xs) * p\<rfloor> :: rat)" by simp
    then show ?thesis by (simp add: add.commute) linarith
  qed
  ultimately have "of_nat (length xs) * p < of_nat (length (filter (\<lambda>x. x \<le> v) xs))"
    by (meson less_le_trans of_nat_le_iff)
  moreover have "v \<in> set xs" using i by (metis length_sort nth_mem set_sort)
  ultimately show ?thesis by simp
qed

lemma get_pctl_mono:
  assumes "get_pctl (sort xs) p = Inr v" and "get_pctl (sort xs) q = Inr w" and "0 \<le> p" and "p \<le> q"
  shows "v \<le> w"
proof -
  have "nat \<lfloor>of_nat (length xs) * p\<rfloor> \<le> nat \<lfloor>of_nat (length xs) * q\<rfloor>"
    using assms(4) by (intro nat_mono floor_mono mult_left_mono) simp_all
  then show ?thesis using assms(1,2) by (auto simp: get_pctl_def Let_def intro: sorted_nth_mono split: if_splits)
qed

text \<open>
  The figures of a bin: the size of its last flow, and three slowdowns that occur in the
  bin, in increasing order, such that more than half, 95 and 99 percent of the flows are not above
  the respective slowdown. They exist exactly for bins that are not empty.
\<close>

theorem bin_figures_correct:
  "(is_ok (bin_figures d) \<longleftrightarrow> d \<noteq> []) \<and>
   (\<forall>size mid p95 p99. bin_figures d = Inr (size, mid, p95, p99) \<longrightarrow>
      size = snd (last d) \<and> {mid, p95, p99} \<subseteq> fst ` set d \<and> mid \<le> p95 \<and> p95 \<le> p99 \<and>
      of_nat (length d) / 2 < (of_nat (length (filter (\<lambda>x. fst x \<le> mid) d)) :: rat) \<and>
      of_nat (length d) * 95 / 100 < (of_nat (length (filter (\<lambda>x. fst x \<le> p95) d)) :: rat) \<and>
      of_nat (length d) * 99 / 100 < (of_nat (length (filter (\<lambda>x. fst x \<le> p99) d)) :: rat))"
proof (intro conjI allI impI)
  show "is_ok (bin_figures d) \<longleftrightarrow> d \<noteq> []" by (rule bin_figures_ok)
  fix size mid p95 p99 assume "bin_figures d = Inr (size, mid, p95, p99)"
  then have sz: "size = snd (last d)" and m: "get_pctl (sort (map fst d)) (1 / 2) = Inr mid"
    and p: "get_pctl (sort (map fst d)) (95 / 100) = Inr p95" and q: "get_pctl (sort (map fst d)) (99 / 100) = Inr p99"
    by (auto simp: bin_figures_def Let_def res_bind_eq_Inr split: if_splits)
  show "size = snd (last d)" by (rule sz)
  note rm = get_pctl_rank [OF m] and rp = get_pctl_rank [OF p] and rq = get_pctl_rank [OF q]
  show "{mid, p95, p99} \<subseteq> fst ` set d" using rm rp rq by auto
  show "mid \<le> p95" using get_pctl_mono [OF m p] by simp
  show "p95 \<le> p99" using get_pctl_mono [OF p q] by simp
  show "of_nat (length d) / 2 < (of_nat (length (filter (\<lambda>x. fst x \<le> mid) d)) :: rat)"
    using rm by (simp add: filter_map comp_def)
  show "of_nat (length d) * 95 / 100 < (of_nat (length (filter (\<lambda>x. fst x \<le> p95) d)) :: rat)"
    using rp by (simp add: filter_map comp_def)
  show "of_nat (length d) * 99 / 100 < (of_nat (length (filter (\<lambda>x. fst x \<le> p99) d)) :: rat)"
    using rq by (simp add: filter_map comp_def)
qed

lemma bin_figures_correct_witness:
  "bin_figures [(3, 10), (1, 20), (2, 30)] = Inr (30, 2, 3, 3) \<and> (2::rat) \<le> 3 \<and> {2, 3, 3} \<subseteq> fst ` set [(3::rat, 10::int), (1, 20), (2, 30)]"
proof -
  have b: "bin_figures [(3, 10), (1, 20), (2, 30)] = Inr (30, 2, 3, 3)" by code_simp
  with bin_figures_correct [of "[(3, 10), (1, 20), (2, 30)]"] show ?thesis by blast
qed

section \<open>Curves of the monitor files\<close>

text \<open>
  One curve of a figure and a figure. The rows of a port or queue pair come from pandas' \<^verbatim>\<open>groupby\<close>:
  \<open>groups\<close> are its keys, as text, with their rows in file order.
\<close>

record trace =
  trace_name :: string
  trace_x :: "rat list"
  trace_y :: "rat list"

record figure =
  fig_title :: string
  fig_xaxis :: string
  fig_yaxis :: string
  fig_file :: string
  fig_traces :: "trace list"

definition figs_dir :: "string \<Rightarrow> string \<Rightarrow> string" where
  "figs_dir curr_work_path file_name = curr_work_path @ ''/../simulation/monitor_output/figs/'' @ file_name"

record bw_row =
  bw_node :: int
  bw_time :: int
  tx_bytes :: int
  bandwidth :: rat

type_synonym 'r grouping = "'r list \<Rightarrow> (string \<times> 'r list) list"

definition get_data :: "('r \<Rightarrow> int) \<Rightarrow> 'r list \<Rightarrow> int \<Rightarrow> 'r list" where
  "get_data node all_data node_id = filter (\<lambda>r. node r = node_id) all_data"

text \<open>For a non-zero interval.\<close>

definition get_bw_list :: "int list \<Rightarrow> int \<Rightarrow> rat list" where
  "get_bw_list tx_bytes_diff interval =
     map (\<lambda>x. x * 8 / 10 ^ 9) (map (\<lambda>x. of_int x * 10 ^ 9 / of_int interval) tx_bytes_diff)"

definition tx_diff :: "int list \<Rightarrow> int list" where
  "tx_diff tx_list = (let nxt_tx = tl tx_list @ [last tx_list] in map2 (\<lambda>n t. n - t) nxt_tx tx_list)"

definition throughput_trace :: "string \<Rightarrow> bw_row list \<Rightarrow> py_error + trace" where
  "throughput_trace key df =
     (case df of
        r0 # r1 # _ \<Rightarrow>
          Inr \<lparr>trace_name = ''port-'' @ key, trace_x = map (\<lambda>r. of_int (bw_time r) / 10 ^ 6) df,
               trace_y = get_bw_list (tx_diff (map tx_bytes df)) (bw_time r1 - bw_time r0)\<rparr>
      | _ \<Rightarrow> Inl KeyError)"

definition bw_figure :: "string \<Rightarrow> string \<Rightarrow> int \<Rightarrow> trace list \<Rightarrow> figure" where
  "bw_figure curr_work_path file_name node_id traces =
     \<lparr>fig_title = ''Node-'' @ str_int node_id @ ''-throughput'', fig_xaxis = ''time(ms)'',
      fig_yaxis = ''Throughput(Gbps)'',
      fig_file = figs_dir curr_work_path file_name @ ''/bw_node_'' @ str_int node_id @ ''.html'', fig_traces = traces\<rparr>"

definition get_fig_for_node ::
  "bw_row grouping \<Rightarrow> string \<Rightarrow> string \<Rightarrow> bw_row list \<Rightarrow> int \<Rightarrow> py_error + figure" where
  "get_fig_for_node groupby curr_work_path file_name all_data node_id =
     res_bind (res_map (\<lambda>(key, df). throughput_trace key df) (groupby (get_data bw_node all_data node_id))) (\<lambda>traces.
       Inr (bw_figure curr_work_path file_name node_id traces))"

definition get_fig_for_node_bw :: "bw_row grouping \<Rightarrow> string \<Rightarrow> string \<Rightarrow> bw_row list \<Rightarrow> int \<Rightarrow> figure" where
  "get_fig_for_node_bw groupby curr_work_path file_name all_data node_id =
     bw_figure curr_work_path file_name node_id
       (map (\<lambda>(key, df). \<lparr>trace_name = ''port-'' @ key, trace_x = map (\<lambda>r. of_int (bw_time r) / 10 ^ 6) df,
                          trace_y = map bandwidth df\<rparr>)
         (groupby (get_data bw_node all_data node_id)))"

text \<open>The main loop counts from the smallest id that occurs, one figure for each id that occurs.\<close>

definition figures_from :: "(int \<Rightarrow> 'f) \<Rightarrow> int list \<Rightarrow> py_error + 'f list" where
  "figures_from fig ids =
     (if ids = [] then Inl IndexError
      else Inr (map (\<lambda>i. fig (int i + Min (set ids))) [0..<card (set ids)]))"

definition bw_main :: "bw_row grouping \<Rightarrow> string \<Rightarrow> string \<Rightarrow> bw_row list \<Rightarrow> py_error + figure list" where
  "bw_main groupby curr_work_path file_name all_data =
     figures_from (get_fig_for_node_bw groupby curr_work_path file_name all_data) (map bw_node all_data)"

record qlen_row =
  sw_id :: int
  q_time :: int
  q_id :: int
  port_len :: int

text \<open>\<^verbatim>\<open>xs[0:len(xs):k]\<close> for \<open>0 < k\<close>.\<close>

function every :: "nat \<Rightarrow> 'a list \<Rightarrow> 'a list" where
  "every k [] = []"
| "every k (x # xs) = x # every k (drop (k - 1) xs)"
  by pat_completeness auto
termination
  by (relation "measure (\<lambda>(k, xs). length xs)") auto

definition qlen_trace :: "string \<Rightarrow> qlen_row list \<Rightarrow> trace" where
  "qlen_trace key df =
     (let q_cnt = card (set (map q_id df))
      in \<lparr>trace_name = ''port-'' @ key,
          trace_x = map (\<lambda>t. of_int t / 10 ^ 6) (every q_cnt (map q_time df)),
          trace_y = map (\<lambda>qlen. of_int qlen / 10 ^ 3) (every q_cnt (map port_len df))\<rparr>)"

definition get_fig_for_switch :: "qlen_row grouping \<Rightarrow> string \<Rightarrow> string \<Rightarrow> qlen_row list \<Rightarrow> int \<Rightarrow> figure" where
  "get_fig_for_switch groupby curr_work_path file_name all_data node_id =
     \<lparr>fig_title = ''Switch-'' @ str_int node_id @ ''-qlen'', fig_xaxis = ''time(ms)'', fig_yaxis = ''QueueLength(KB)'',
      fig_file = figs_dir curr_work_path file_name @ ''/qlen_switch-'' @ str_int node_id @ ''.html'',
      fig_traces = map (\<lambda>(key, df). qlen_trace key df) (groupby (get_data sw_id all_data node_id))\<rparr>"

definition qlen_main :: "qlen_row grouping \<Rightarrow> string \<Rightarrow> string \<Rightarrow> qlen_row list \<Rightarrow> py_error + figure list" where
  "qlen_main groupby curr_work_path file_name all_data =
     figures_from (get_fig_for_switch groupby curr_work_path file_name all_data) (map sw_id all_data)"

record qp_row =
  qp_time :: int
  curr_rate :: int
  cnp_number :: int

definition rate_figure :: "qp_row grouping \<Rightarrow> string \<Rightarrow> string \<Rightarrow> qp_row list \<Rightarrow> figure" where
  "rate_figure groupby curr_work_path file_name all_data =
     \<lparr>fig_title = ''Flow Rate'', fig_xaxis = ''time(ms)'', fig_yaxis = ''Flow Send Rate(Gbps)'',
      fig_file = figs_dir curr_work_path file_name @ ''/flow_rate.html'',
      fig_traces = map (\<lambda>(key, df). \<lparr>trace_name = ''flow-'' @ key,
          trace_x = map (\<lambda>r. of_int (qp_time r) / 10 ^ 6) df,
          trace_y = map (\<lambda>r. of_int (curr_rate r) / 10 ^ 9) df\<rparr>) (groupby all_data)\<rparr>"

definition cnp_figure :: "qp_row grouping \<Rightarrow> string \<Rightarrow> string \<Rightarrow> qp_row list \<Rightarrow> figure" where
  "cnp_figure groupby curr_work_path file_name all_data =
     \<lparr>fig_title = ''Flow CNP Number'', fig_xaxis = ''time(ms)'', fig_yaxis = ''Flow CNP Number'',
      fig_file = figs_dir curr_work_path file_name @ ''/flow_cnp.html'',
      fig_traces = map (\<lambda>(key, df). \<lparr>trace_name = ''flow-'' @ key,
          trace_x = map (\<lambda>r. of_int (qp_time r) / 10 ^ 6) df,
          trace_y = map (\<lambda>r. of_int (cnp_number r)) df\<rparr>) (groupby all_data)\<rparr>"

lemma sum_tx_diff: "xs \<noteq> [] \<Longrightarrow> sum_list (tx_diff xs) = last xs - hd xs"
proof (induction xs)
  case (Cons x xs)
  show ?case
  proof (cases xs)
    case (Cons y ys)
    then have "tx_diff (x # xs) = (y - x) # tx_diff xs" by (simp add: tx_diff_def)
    with Cons.IH Cons show ?thesis by simp
  qed (simp add: tx_diff_def)
qed simp

lemma last_tx_diff: "xs \<noteq> [] \<Longrightarrow> length (tx_diff xs) = length xs \<and> last (tx_diff xs) = 0"
proof -
  assume "xs \<noteq> []"
  then obtain ys y where xs: "xs = ys @ [y]" by (metis rev_exhaust)
  have "length (tl xs) = length ys" by (simp add: xs)
  then have "tx_diff xs = map2 (\<lambda>n t. n - t) (tl xs) ys @ [0]" by (simp add: tx_diff_def Let_def xs)
  then show ?thesis by (simp add: xs)
qed

lemma area_sum:
  "d \<noteq> 0 \<Longrightarrow> sum_list (map (\<lambda>x. x * 8 / 10 ^ 9) (map (\<lambda>x. of_int x * 10 ^ 9 / d) ds)) * d = (8 :: rat) * of_int (sum_list ds)"
  by (induction ds) (simp_all add: distrib_right distrib_left)



end
