(* ===== verification/Topo_Compile.thy ===== *)
theory Topo_Compile
  imports Topo_Refine Topo_Writer
begin

text \<open>
  The topology compiler from the parse tree to the C++ text. What the transformer makes of a parse
  tree is shown to be a program in the sense of \<^verbatim>\<open>Topo_Refine\<close>: all blocks have numbers of their own,
  and when the modules of the source use each other without a cycle, blocks only enter blocks of
  smaller rank. So the theorems about the generator hold for every such source.
\<close>

section \<open>The blocks of a program\<close>

fun sub_blocks :: "block \<Rightarrow> block list"
  and insn_blocks :: "insn \<Rightarrow> block list" where
  "sub_blocks (Block i ps is) = Block i ps is # concat (map insn_blocks is)"
| "insn_blocks (IfInsn l op r b) = sub_blocks b"
| "insn_blocks (LoopInsn it s e b) = sub_blocks b"
| "insn_blocks (NewNodeInsn nm ty as) = []"
| "insn_blocks (NewLinkInsn a b as) = []"
| "insn_blocks (RdmaConfigInsn as) = []"
| "insn_blocks (SubmoduleInsn nm m vs) = []"

text \<open>All instructions, with those of inner blocks.\<close>

fun block_code :: "block \<Rightarrow> insn list"
  and insn_code :: "insn \<Rightarrow> insn list" where
  "block_code (Block i ps is) = concat (map insn_code is)"
| "insn_code (IfInsn l op r b) = IfInsn l op r b # block_code b"
| "insn_code (LoopInsn it s e b) = LoopInsn it s e b # block_code b"
| "insn_code (NewNodeInsn nm ty as) = [NewNodeInsn nm ty as]"
| "insn_code (NewLinkInsn a b as) = [NewLinkInsn a b as]"
| "insn_code (RdmaConfigInsn as) = [RdmaConfigInsn as]"
| "insn_code (SubmoduleInsn nm m vs) = [SubmoduleInsn nm m vs]"

text \<open>The modules an instruction uses and the values it evaluates.\<close>

definition insn_uses :: "insn \<Rightarrow> string list" where
  "insn_uses x = (case x of SubmoduleInsn nm m vs \<Rightarrow> [m] | _ \<Rightarrow> [])"

definition insn_vals :: "insn \<Rightarrow> topo_value list" where
  "insn_vals x =
     (case x of
        SubmoduleInsn nm m vs \<Rightarrow> vs
      | IfInsn l op r b \<Rightarrow> [l, r]
      | LoopInsn it s e b \<Rightarrow> [s, e]
      | RdmaConfigInsn as \<Rightarrow> map snd as
      | _ \<Rightarrow> [])"

definition code_uses :: "insn list \<Rightarrow> string list" where
  "code_uses xs = concat (map insn_uses xs)"

definition block_ids :: "block \<Rightarrow> nat list" where
  "block_ids b = map block_id (sub_blocks b)"

lemma sub_blocks_self: "b \<in> set (sub_blocks b)"
  by (cases b) simp

lemma insn_in_code: "x \<in> set (insn_code x)"
  by (cases x) simp_all

lemma code_uses_simps [simp]:
  "code_uses [] = []" "code_uses (x # xs) = insn_uses x @ code_uses xs"
  "code_uses (xs @ ys) = code_uses xs @ code_uses ys"
  by (simp_all add: code_uses_def)

text \<open>A block whose inner blocks fit a shape fits it, when the rank counts the inner blocks.\<close>

lemma code_uses_mono: "set xs \<subseteq> set ys \<Longrightarrow> set (code_uses xs) \<subseteq> set (code_uses ys)"
  by (auto simp: code_uses_def)

lemma wf_of_shape:
  "(\<forall>c \<in> set (sub_blocks b). sh_params sh (block_id c) = block_params c
      \<and> sh_rank sh (block_id c) = r0 + length (sub_blocks c))
   \<Longrightarrow> \<forall>c \<in> set (tl (sub_blocks b)). sh_inner sh (block_id c)
   \<Longrightarrow> \<forall>x \<in> set (block_code b). \<forall>v \<in> set (insn_vals x). vdepth v \<le> sh_height sh
   \<Longrightarrow> \<forall>m \<in> set (code_uses (block_code b)). \<forall>b'. dget ms m = Some b' \<longrightarrow> sh_rank sh (block_id b') \<le> r0
   \<Longrightarrow> wf_block sh ms b"
  "(\<forall>c \<in> set (insn_blocks x). sh_params sh (block_id c) = block_params c
      \<and> sh_rank sh (block_id c) = r0 + length (sub_blocks c) \<and> sh_inner sh (block_id c))
   \<Longrightarrow> r0 + length (insn_blocks x) < sh_rank sh i
   \<Longrightarrow> \<forall>y \<in> set (insn_code x). \<forall>v \<in> set (insn_vals y). vdepth v \<le> sh_height sh
   \<Longrightarrow> \<forall>m \<in> set (code_uses (insn_code x)). \<forall>b'. dget ms m = Some b' \<longrightarrow> sh_rank sh (block_id b') \<le> r0
   \<Longrightarrow> wf_insn sh ms i x"
proof (induction b and x arbitrary: and i rule: sub_blocks_insn_blocks.induct)
  case (1 k ps "is")
  have "wf_insn sh ms k x" if x: "x \<in> set is" for x
  proof (rule "1.IH" [OF x])
    have blocks: "set (insn_blocks x) \<subseteq> set (tl (sub_blocks (Block k ps is)))"
      "set (insn_blocks x) \<subseteq> set (sub_blocks (Block k ps is))" using x by auto
    have code: "set (insn_code x) \<subseteq> set (block_code (Block k ps is))" using x by auto
    have "length (insn_blocks x) \<le> length (concat (map insn_blocks is))"
      using x by (simp add: length_concat member_le_sum_list)
    moreover have "sh_rank sh k = r0 + Suc (length (concat (map insn_blocks is)))"
      using "1.prems"(1) by simp
    ultimately show "r0 + length (insn_blocks x) < sh_rank sh k" by linarith
    show "\<forall>c \<in> set (insn_blocks x). sh_params sh (block_id c) = block_params c
      \<and> sh_rank sh (block_id c) = r0 + length (sub_blocks c) \<and> sh_inner sh (block_id c)"
      using "1.prems"(1,2) blocks by blast
    show "\<forall>y \<in> set (insn_code x). \<forall>v \<in> set (insn_vals y). vdepth v \<le> sh_height sh"
      using "1.prems"(3) code by blast
    show "\<forall>m \<in> set (code_uses (insn_code x)). \<forall>b'. dget ms m = Some b' \<longrightarrow> sh_rank sh (block_id b') \<le> r0"
      using "1.prems"(4) code_uses_mono [OF code] by blast
  qed
  then show ?case using "1.prems"(1) by simp
next
  case (2 l op r b)
  have b: "b \<in> set (sub_blocks b)" "set (tl (sub_blocks b)) \<subseteq> set (sub_blocks b)"
    using sub_blocks_self by (auto intro: list.set_sel(2) dest: list.set_sel(2) [rotated])
  have "wf_block sh ms b"
    by (rule "2.IH") (use "2.prems" b(2) in \<open>auto simp del: sub_blocks.simps\<close>)
  with "2.prems" b(1) show ?case by (auto simp: insn_vals_def)
next
  case (3 it s e b)
  have b: "b \<in> set (sub_blocks b)" "set (tl (sub_blocks b)) \<subseteq> set (sub_blocks b)"
    using sub_blocks_self by (auto intro: list.set_sel(2) dest: list.set_sel(2) [rotated])
  have "wf_block sh ms b"
    by (rule "3.IH") (use "3.prems" b(2) in \<open>auto simp del: sub_blocks.simps\<close>)
  with "3.prems" b(1) show ?case by (auto simp: insn_vals_def)
next
  case (7 nm m vs)
  have "sh_rank sh (block_id b) < sh_rank sh i" if "dget ms m = Some b" for b
    using "7.prems"(2,4) that by (fastforce simp: insn_uses_def)
  with "7.prems"(3) show ?case by (simp add: insn_vals_def)
qed (simp_all add: insn_vals_def)

section \<open>What the transformer produces\<close>

definition same_blocks :: "tstate \<Rightarrow> tstate \<Rightarrow> bool" where
  "same_blocks s s' \<longleftrightarrow> n_blocks s' = n_blocks s \<and> name_to_module s' = name_to_module s"

lemma same_blocks_refl [simp]: "same_blocks s s"
  by (simp add: same_blocks_def)

lemma same_blocks_trans: "same_blocks s1 s2 \<Longrightarrow> same_blocks s2 s3 \<Longrightarrow> same_blocks s1 s3"
  by (simp add: same_blocks_def)

lemma fold_binop_blocks: "fold_binop v vs s = (v', s') \<Longrightarrow> same_blocks s s'"
  by (induction v vs s rule: fold_binop.induct) (auto simp: same_blocks_def)

text \<open>Values make no blocks.\<close>

lemma tr_expr_blocks:
  "tr_atom a s = Inr (v, s') \<Longrightarrow> same_blocks s s'"
  "tr_atoms as s = Inr (vs, s') \<Longrightarrow> same_blocks s s'"
  "tr_term t s = Inr (v, s') \<Longrightarrow> same_blocks s s'"
  "tr_terms ts s = Inr (vs, s') \<Longrightarrow> same_blocks s s'"
  "tr_expr e s = Inr (v, s') \<Longrightarrow> same_blocks s s'"
proof (induction a s and as s and t s and ts s and e s arbitrary: v s' and vs s' and v s' and vs s' and v s'
    rule: tr_atom_tr_atoms_tr_term_tr_terms_tr_expr.induct)
  case (7 a rest s)
  then obtain v1 s1 vs s2 where *: "tr_atom a s = Inr (v1, s1)" "tr_atoms rest s1 = Inr (vs, s2)"
    and f: "fold_binop v1 vs s2 = (v, s')" by (auto simp: res_bind_eq_Inr)
  from "7.IH"(1) [OF *(1)] "7.IH"(2) [OF *(1) refl *(2)] fold_binop_blocks [OF f] show ?case
    by (blast intro: same_blocks_trans)
next
  case (10 t rest s)
  then obtain v1 s1 vs s2 where *: "tr_term t s = Inr (v1, s1)" "tr_terms rest s1 = Inr (vs, s2)"
    and f: "fold_binop v1 vs s2 = (v, s')" by (auto simp: res_bind_eq_Inr)
  from "10.IH"(1) [OF *(1)] "10.IH"(2) [OF *(1) refl *(2)] fold_binop_blocks [OF f] show ?case
    by (blast intro: same_blocks_trans)
qed (auto simp: res_bind_eq_Inr intro: same_blocks_trans)

lemma tr_value_blocks: "tr_value v s = Inr (x, s') \<Longrightarrow> same_blocks s s'"
  by (cases v) (auto simp: res_bind_eq_Inr dest: tr_expr_blocks)

lemma tr_values_blocks: "tr_values vs s = Inr (xs, s') \<Longrightarrow> same_blocks s s'"
  by (induction vs s arbitrary: xs s' rule: tr_values.induct)
    (auto simp: res_bind_eq_Inr dest: tr_value_blocks intro: same_blocks_trans)

lemma tr_attrs_blocks: "tr_attrs as s = Inr (xs, s') \<Longrightarrow> same_blocks s s'"
  by (induction as s arbitrary: xs s' rule: tr_attrs.induct)
    (auto simp: res_bind_eq_Inr dest: tr_value_blocks intro: same_blocks_trans)

lemma tr_cond_blocks: "tr_cond c s = Inr (x, s') \<Longrightarrow> same_blocks s s'"
  by (cases c) (auto simp: res_bind_eq_Inr dest!: tr_value_blocks intro: same_blocks_trans)

text \<open>The modules a statement of the source uses.\<close>

fun stmt_uses :: "pt_stmt \<Rightarrow> string list" where
  "stmt_uses (PUse m args n) = [name_cb m]"
| "stmt_uses (PFor n a b body) = concat (map stmt_uses body)"
| "stmt_uses (PIf c body) = concat (map stmt_uses body)"
| "stmt_uses (PNode n as) = []"
| "stmt_uses (PLink a b as) = []"
| "stmt_uses (PRdma as) = []"

text \<open>Blocks made on the way from one state to the next get the numbers in between, each its own.\<close>

definition fresh_ids :: "tstate \<Rightarrow> tstate \<Rightarrow> nat list \<Rightarrow> bool" where
  "fresh_ids s s' ids \<longleftrightarrow> n_blocks s \<le> n_blocks s' \<and> distinct ids \<and> set ids \<subseteq> {n_blocks s..<n_blocks s'}"

lemma fresh_ids_Nil: "same_blocks s s' \<Longrightarrow> fresh_ids s s' []"
  by (simp add: fresh_ids_def same_blocks_def)

lemma fresh_ids_append: "fresh_ids s1 s2 is \<Longrightarrow> fresh_ids s2 s3 js \<Longrightarrow> fresh_ids s1 s3 (is @ js)"
  by (fastforce simp: fresh_ids_def)

lemma fresh_ids_before: "same_blocks s1 s2 \<Longrightarrow> fresh_ids s2 s3 is \<Longrightarrow> fresh_ids s1 s3 is"
  by (simp add: fresh_ids_def same_blocks_def)

lemma new_block_fresh:
  assumes "fresh_ids s1 s2 (map block_id (concat (map insn_blocks is)))" and "new_block ps is s2 = (b, s3)"
  shows "fresh_ids s1 s3 (block_ids b)" and "name_to_module s3 = name_to_module s2"
    and "block_code b = concat (map insn_code is)" and "block_ids b = block_id b # map block_id (concat (map insn_blocks is))"
  using assms by (fastforce simp: fresh_ids_def new_block_def block_ids_def)+

definition stmt_spec :: "tstate \<Rightarrow> tstate \<Rightarrow> insn list \<Rightarrow> string list \<Rightarrow> bool" where
  "stmt_spec s s' xs us \<longleftrightarrow>
     fresh_ids s s' (map block_id (concat (map insn_blocks xs))) \<and> name_to_module s' = name_to_module s \<and>
     code_uses (concat (map insn_code xs)) = us"

lemma stmt_spec_leaf:
  "same_blocks s s' \<Longrightarrow> insn_blocks x = [] \<Longrightarrow> code_uses (insn_code x) = us \<Longrightarrow> stmt_spec s s' [x] us"
  by (simp add: stmt_spec_def fresh_ids_Nil) (simp add: same_blocks_def)

lemma stmt_spec_block:
  assumes "stmt_spec s s1 xs us" and "new_block ps xs s1 = (b, s')"
    and "insn_blocks x = sub_blocks b" and "code_uses (insn_code x) = code_uses (block_code b)"
  shows "stmt_spec s s' [x] us"
proof -
  from assms(1) have f: "fresh_ids s s1 (map block_id (concat (map insn_blocks xs)))"
    and m: "name_to_module s1 = name_to_module s" and u: "code_uses (concat (map insn_code xs)) = us"
    by (simp_all add: stmt_spec_def)
  note nb = new_block_fresh [OF f assms(2)]
  show ?thesis using nb(1-3) m u assms(3,4) by (simp add: stmt_spec_def block_ids_def)
qed

lemma stmt_spec_before: "same_blocks s1 s2 \<Longrightarrow> stmt_spec s2 s3 xs us \<Longrightarrow> stmt_spec s1 s3 xs us"
  by (auto simp: stmt_spec_def intro: fresh_ids_before) (simp add: same_blocks_def)

lemma stmt_spec_Cons: "stmt_spec s1 s2 [x] us \<Longrightarrow> stmt_spec s2 s3 xs vs \<Longrightarrow> stmt_spec s1 s3 (x # xs) (us @ vs)"
  by (auto simp: stmt_spec_def intro: fresh_ids_append)

lemma tr_stmt_spec:
  "tr_stmt st s = Inr (x, s') \<Longrightarrow> stmt_spec s s' [x] (stmt_uses st)"
  "tr_stmts sts s = Inr (xs, s') \<Longrightarrow> stmt_spec s s' xs (concat (map stmt_uses sts))"
proof (induction st s and sts s arbitrary: x s' and xs s' rule: tr_stmt_tr_stmts.induct)
  case (1 n as s)
  then show ?case by (auto simp: res_bind_eq_Inr node_stmt_cb_def Let_def insn_uses_def dest!: tr_attrs_blocks intro: stmt_spec_leaf)
next
  case (2 a b as s)
  then show ?case
    by (auto simp: res_bind_eq_Inr link_stmt_cb_def Let_def insn_uses_def dest!: tr_attrs_blocks intro: stmt_spec_leaf split: if_splits)
next
  case (3 m args n s)
  then show ?case
    by (auto simp: res_bind_eq_Inr use_stmt_cb_def insn_uses_def dest!: tr_values_blocks intro!: stmt_spec_leaf split: option.splits)
next
  case (4 as s)
  then show ?case by (auto simp: res_bind_eq_Inr rdma_stmt_cb_def insn_uses_def dest!: tr_attrs_blocks intro: stmt_spec_leaf)
next
  case (5 n a b body s)
  from "5.prems" obtain v1 s1 v2 s2 xs s3 where
    *: "tr_value a s = Inr (v1, s1)" "tr_value b s1 = Inr (v2, s2)" "tr_stmts body s2 = Inr (xs, s3)"
    and x: "for_stmt_cb (name_cb n) v1 v2 xs s3 = (x, s')"
    by (auto simp: res_bind_eq_Inr)
  from x obtain c where c: "new_block [name_cb n] xs s3 = (c, s')" and "x = LoopInsn (name_cb n) v1 v2 c"
    by (auto simp: for_stmt_cb_def split: prod.splits)
  moreover have "stmt_spec s s3 xs (concat (map stmt_uses body))"
    using "5.IH" [OF *(1) refl *(2) refl *(3)] tr_value_blocks [OF *(1)] tr_value_blocks [OF *(2)]
    by (blast intro: stmt_spec_before)
  ultimately show ?case by (auto intro: stmt_spec_block simp: insn_uses_def)
next
  case (6 c body s)
  from "6.prems" obtain cond s1 xs s2 where
    *: "tr_cond c s = Inr (cond, s1)" "tr_stmts body s1 = Inr (xs, s2)" and x: "if_stmt_cb cond xs s2 = (x, s')"
    by (auto simp: res_bind_eq_Inr)
  from x obtain d l op r where d: "new_block [] xs s2 = (d, s')" and "x = IfInsn l op r d"
    by (auto simp: if_stmt_cb_def split: prod.splits)
  moreover have "stmt_spec s s2 xs (concat (map stmt_uses body))"
    using "6.IH" [OF *(1) refl *(2)] tr_cond_blocks [OF *(1)] by (blast intro: stmt_spec_before)
  ultimately show ?case by (auto intro: stmt_spec_block simp: insn_uses_def)
next
  case (7 s)
  then show ?case by (simp add: stmt_spec_def fresh_ids_Nil)
next
  case (8 st sts s)
  then show ?case by (auto simp: res_bind_eq_Inr intro: stmt_spec_Cons)
qed

text \<open>
  The modules of the source use each other without a cycle: a function gives every name a number such
  that a module only uses modules with smaller numbers.
\<close>

fun module_uses :: "pt_module \<Rightarrow> string \<times> string list" where
  "module_uses (PModule name params body) = (name, concat (map stmt_uses body))"

definition uses_ranked :: "(string \<Rightarrow> nat) \<Rightarrow> pt_module list \<Rightarrow> bool" where
  "uses_ranked rk tree \<longleftrightarrow> (\<forall>(name, us) \<in> set (map module_uses tree). \<forall>m \<in> set us. rk m < rk name)"

definition modules_ok :: "(string \<Rightarrow> nat) \<Rightarrow> nat \<Rightarrow> (string, block) dict \<Rightarrow> bool" where
  "modules_ok rk n ms \<longleftrightarrow>
     distinct (dkeys ms) \<and>
     (\<forall>k b. dget ms k = Some b \<longrightarrow>
        distinct (block_ids b) \<and> set (block_ids b) \<subseteq> {..<n} \<and> (\<forall>m \<in> set (code_uses (block_code b)). rk m < rk k)) \<and>
     (\<forall>k b k' b'. dget ms k = Some b \<longrightarrow> dget ms k' = Some b' \<longrightarrow> k \<noteq> k' \<longrightarrow> set (block_ids b) \<inter> set (block_ids b') = {})"

lemma modules_ok_dset:
  assumes ok: "modules_ok rk n ms" and "n \<le> n'" and b: "distinct (block_ids b)" "set (block_ids b) \<subseteq> {n..<n'}"
    and us: "\<forall>m \<in> set (code_uses (block_code b)). rk m < rk k"
  shows "modules_ok rk n' (dset k b ms)"
proof -
  have old: "set (block_ids c) \<inter> set (block_ids b) = {}" "set (block_ids c) \<subseteq> {..<n'}" if "dget ms j = Some c" for j c
  proof -
    have "set (block_ids c) \<subseteq> {..<n}" using ok that by (auto simp: modules_ok_def)
    with b(2) \<open>n \<le> n'\<close> show "set (block_ids c) \<inter> set (block_ids b) = {}" "set (block_ids c) \<subseteq> {..<n'}"
      by fastforce+
  qed
  show ?thesis
    unfolding modules_ok_def
  proof (intro conjI allI impI)
    show "distinct (dkeys (dset k b ms))" using ok by (auto simp: modules_ok_def)
  next
    fix j c assume c: "dget (dset k b ms) j = Some c"
    have "distinct (block_ids c) \<and> set (block_ids c) \<subseteq> {..<n'} \<and> (\<forall>m \<in> set (code_uses (block_code c)). rk m < rk j)"
    proof (cases "j = k")
      case True
      then have "c = b" using c by simp
      then show ?thesis using b us True by auto
    next
      case False
      then have "dget ms j = Some c" using c by simp
      with old(2) ok show ?thesis unfolding modules_ok_def by blast
    qed
    then show "distinct (block_ids c)" "set (block_ids c) \<subseteq> {..<n'}"
      "\<forall>m \<in> set (code_uses (block_code c)). rk m < rk j" by blast+
  next
    fix j c j' c'
    assume c: "dget (dset k b ms) j = Some c" "dget (dset k b ms) j' = Some c'" "j \<noteq> j'"
    show "set (block_ids c) \<inter> set (block_ids c') = {}"
    proof (cases "j = k \<or> j' = k")
      case True
      with c have "c = b \<and> dget ms j' = Some c' \<or> c' = b \<and> dget ms j = Some c" by auto
      with old(1) show ?thesis by blast
    next
      case False
      with c have "dget ms j = Some c" "dget ms j' = Some c'" by simp_all
      with ok c(3) show ?thesis unfolding modules_ok_def by blast
    qed
  qed
qed

lemma tr_modules_ok:
  "tr_modules tree s = Inr s' \<Longrightarrow> uses_ranked rk tree \<Longrightarrow> modules_ok rk (n_blocks s) (name_to_module s)
    \<Longrightarrow> modules_ok rk (n_blocks s') (name_to_module s')"
proof (induction tree s arbitrary: s' rule: tr_modules.induct)
  case (2 name params body ms s)
  from "2.prems"(1) obtain xs s1 where xs: "tr_stmts body s = Inr (xs, s1)"
    and rest: "tr_modules ms (module_cb name params xs s1) = Inr s'" by (auto simp: res_bind_eq_Inr)
  define ps where "ps = (case params of None \<Rightarrow> [] | Some p \<Rightarrow> p)"
  obtain b s2 where b: "new_block ps xs s1 = (b, s2)" by (cases "new_block ps xs s1")
  have s2: "module_cb name params xs s1 = s2\<lparr>name_to_module := dset name b (name_to_module s2)\<rparr>"
    using b by (simp add: module_cb_def ps_def)
  from tr_stmt_spec(2) [OF xs] have f: "fresh_ids s s1 (map block_id (concat (map insn_blocks xs)))"
    and m: "name_to_module s1 = name_to_module s"
    and u: "code_uses (concat (map insn_code xs)) = concat (map stmt_uses body)" by (simp_all add: stmt_spec_def)
  note nb = new_block_fresh [OF f b]
  have "modules_ok rk (n_blocks s2) (dset name b (name_to_module s2))"
  proof (rule modules_ok_dset)
    show "modules_ok rk (n_blocks s) (name_to_module s2)" using "2.prems"(3) nb(2) m by simp
    show "n_blocks s \<le> n_blocks s2" "distinct (block_ids b)" "set (block_ids b) \<subseteq> {n_blocks s..<n_blocks s2}"
      using nb(1) by (simp_all add: fresh_ids_def)
    show "\<forall>m \<in> set (code_uses (block_code b)). rk m < rk name"
      using "2.prems"(2) nb(3) u by (simp add: uses_ranked_def)
  qed
  moreover have "uses_ranked rk ms" using "2.prems"(2) by (simp add: uses_ranked_def)
  ultimately show ?case using "2.IH" [OF xs refl] rest s2 by simp
qed simp

lemma topo_transform_ok:
  assumes "topo_transform tree = Inr ms" and "uses_ranked rk tree"
  shows "\<exists>n. modules_ok rk n ms"
proof -
  from assms(1) obtain s where s: "tr_modules tree init_tstate = Inr s" and ms: "ms = name_to_module s"
    by (auto simp: topo_transform_def res_bind_eq_Inr)
  have "modules_ok rk (n_blocks init_tstate) (name_to_module init_tstate)"
    by (simp add: modules_ok_def init_tstate_def)
  from tr_modules_ok [OF s assms(2) this] ms show ?thesis by blast
qed

section \<open>Every such source is a well-formed program\<close>

definition block_count :: "(string, block) dict \<Rightarrow> nat" where
  "block_count ms = sum_list (map (\<lambda>(k, b). length (sub_blocks b)) ms)"

definition value_heights :: "(string, block) dict \<Rightarrow> nat list" where
  "value_heights ms = concat (map (\<lambda>(k, b). concat (map (\<lambda>x. map vdepth (insn_vals x)) (block_code b))) ms)"

text \<open>A stack depth that suffices for the program.\<close>

definition depth_bound :: "(string \<Rightarrow> nat) \<Rightarrow> (string, block) dict \<Rightarrow> nat" where
  "depth_bound rk ms = 4 * (Suc (rk ''main'') * block_count ms) + foldr max (value_heights ms) 0 + 8"

lemma le_foldr_max: "x \<in> set xs \<Longrightarrow> x \<le> foldr max xs (0::nat)"
  by (induction xs) auto

lemma block_count_ge: "dget ms k = Some b \<Longrightarrow> length (sub_blocks b) \<le> block_count ms"
  unfolding block_count_def by (rule member_le_sum_list) (force dest: map_of_SomeD, simp)

lemma value_height_ge:
  "dget ms k = Some b \<Longrightarrow> x \<in> set (block_code b) \<Longrightarrow> v \<in> set (insn_vals x) \<Longrightarrow> vdepth v \<le> foldr max (value_heights ms) 0"
  by (rule le_foldr_max) (force simp: value_heights_def dest: map_of_SomeD)

lemma sub_blocks_tl: "sub_blocks b = b # tl (sub_blocks b)"
  by (cases b) simp

lemma module_of_block:
  assumes "modules_ok rk n ms"
  obtains f where "\<And>k b c. dget ms k = Some b \<Longrightarrow> c \<in> set (sub_blocks b) \<Longrightarrow> f (block_id c) = (k, c)"
proof
  let ?at = "\<lambda>i p. \<exists>b. dget ms (fst p) = Some b \<and> snd p \<in> set (sub_blocks b) \<and> block_id (snd p) = i"
  fix k b c assume k: "dget ms k = Some b" and c: "c \<in> set (sub_blocks b)"
  show "(THE p. ?at (block_id c) p) = (k, c)"
  proof (rule the_equality)
    fix p assume "?at (block_id c) p"
    then obtain b' where p: "dget ms (fst p) = Some b'" "snd p \<in> set (sub_blocks b')" "block_id (snd p) = block_id c" by blast
    then have i: "block_id c \<in> set (block_ids b')" using image_eqI [of _ block_id "snd p"] by (simp add: block_ids_def)
    have i': "block_id c \<in> set (block_ids b)" using c by (simp add: block_ids_def)
    have "fst p = k"
      using assms k p(1) i i' unfolding modules_ok_def by blast
    moreover from this have "b' = b" using k p(1) by simp
    moreover have "inj_on block_id (set (sub_blocks b))"
      using assms k by (simp add: modules_ok_def block_ids_def distinct_map)
    ultimately show "p = (k, c)" using p(2,3) c by (auto simp: inj_on_def prod_eq_iff)
  qed (use k c in auto)
qed

lemma wf_prog_of_modules:
  assumes ok: "modules_ok rk n ms"
  shows "\<exists>sh. wf_prog sh ms \<and> sh_height sh = foldr max (value_heights ms) 0 \<and>
    (\<forall>b. dget ms ''main'' = Some b \<longrightarrow> sh_rank sh (block_id b) \<le> Suc (rk ''main'') * block_count ms)"
proof -
  let ?H = "block_count ms"
  obtain f where f: "\<And>k b c. dget ms k = Some b \<Longrightarrow> c \<in> set (sub_blocks b) \<Longrightarrow> f (block_id c) = (k, c)"
    using module_of_block [OF ok] by blast
  define sh where
    "sh = \<lparr>sh_rank = \<lambda>i. rk (fst (f i)) * ?H + length (sub_blocks (snd (f i))),
           sh_params = \<lambda>i. block_params (snd (f i)),
           sh_inner = \<lambda>i. \<exists>k b. dget ms k = Some b \<and> i \<in> block_id ` set (tl (sub_blocks b)),
           sh_height = foldr max (value_heights ms) 0\<rparr>"
  have rank: "sh_rank sh (block_id b) \<le> Suc (rk k) * ?H" if "dget ms k = Some b" for k b
    using f [OF that sub_blocks_self] block_count_ge [OF that] by (simp add: sh_def)
  have block: "wf_block sh ms b" if k: "dget ms k = Some b" for k b
  proof (rule wf_of_shape(1) [of b sh "rk k * ?H"])
    show "\<forall>c \<in> set (sub_blocks b). sh_params sh (block_id c) = block_params c
        \<and> sh_rank sh (block_id c) = rk k * ?H + length (sub_blocks c)"
      using f [OF k] by (simp add: sh_def)
    show "\<forall>c \<in> set (tl (sub_blocks b)). sh_inner sh (block_id c)" using k by (auto simp: sh_def)
    show "\<forall>x \<in> set (block_code b). \<forall>v \<in> set (insn_vals x). vdepth v \<le> sh_height sh"
      using value_height_ge [OF k] by (simp add: sh_def)
    show "\<forall>m \<in> set (code_uses (block_code b)). \<forall>b'. dget ms m = Some b' \<longrightarrow> sh_rank sh (block_id b') \<le> rk k * ?H"
    proof (intro ballI allI impI)
      fix m b' assume "m \<in> set (code_uses (block_code b))" and m: "dget ms m = Some b'"
      then have "Suc (rk m) \<le> rk k" using ok k by (auto simp: modules_ok_def Suc_le_eq)
      then have "Suc (rk m) * ?H \<le> rk k * ?H" by (rule mult_le_mono1)
      with rank [OF m] show "sh_rank sh (block_id b') \<le> rk k * ?H" by (rule le_trans)
    qed
  qed
  have outer: "\<not> sh_inner sh (block_id b)" if k: "dget ms k = Some b" for k b
  proof
    assume "sh_inner sh (block_id b)"
    then obtain k' b' where k': "dget ms k' = Some b'" and i: "block_id b \<in> block_id ` set (tl (sub_blocks b'))"
      by (auto simp: sh_def)
    have ids: "block_ids c = block_id c # map block_id (tl (sub_blocks c))" for c
      by (metis block_ids_def list.simps(9) sub_blocks_tl)
    show False
    proof (cases "k' = k")
      case True
      then have "distinct (block_ids b)" "b' = b" using ok k k' by (auto simp: modules_ok_def)
      with i show False by (simp add: ids)
    next
      case False
      then have "set (block_ids b) \<inter> set (block_ids b') = {}" using ok k k' unfolding modules_ok_def by blast
      with i show False by (auto simp: ids)
    qed
  qed
  have "distinct (dkeys ms)" using ok by (simp add: modules_ok_def)
  then have "wf_prog sh ms" using block outer by (force simp: wf_prog_def)
  then show ?thesis using rank by (intro exI [of _ sh]) (simp add: sh_def)
qed

section \<open>When the writer succeeds\<close>

definition declared :: "gen \<Rightarrow> string \<Rightarrow> bool" where
  "declared g name \<longleftrightarrow> name \<in> set (dkeys (gpus g)) \<union> set (dkeys (switches g)) \<union> set (dkeys (nvswitches g))"

text \<open>Two pieces: a number with a unit, or by accident a string of two characters.\<close>

definition is_pair :: "topo_value \<Rightarrow> bool" where
  "is_pair v \<longleftrightarrow> (case v of VTup _ _ \<Rightarrow> True | VStr s \<Rightarrow> length s = 2 | _ \<Rightarrow> False)"

definition insn_writable :: "gen \<Rightarrow> ns3_insn \<Rightarrow> bool" where
  "insn_writable g i \<longleftrightarrow>
     (case i of
        NS3MakeLinkHelper hid delay rate mtu type \<Rightarrow> is_pair delay \<and> is_pair rate \<and> (type = ''p2p'' \<or> type = ''qbb'')
      | NS3InstallLink src dst hid lid \<Rightarrow> declared g src \<and> declared g dst
      | _ \<Rightarrow> True)"

definition knows :: "gen \<Rightarrow> writer \<Rightarrow> bool" where
  "knows g w \<longleftrightarrow> w_gpus w = gpus g \<and> w_switches w = switches g \<and> w_nvswitches w = nvswitches g"

lemma knows_emit [simp]: "knows g (emit l w) = knows g w"
  by (simp add: knows_def emit_def)

lemma knows_emits [simp]: "knows g (emits ls w) = knows g w"
  by (induction ls arbitrary: w) simp_all

lemma knows_updates [simp]:
  "knows g (w\<lparr>w_indent := n\<rparr>) = knows g w" "knows g (w\<lparr>container_map := m\<rparr>) = knows g w"
  by (simp_all add: knows_def)

lemma is_ok_unpack: "is_ok (unpack_pair v) \<longleftrightarrow> is_pair v"
  by (auto simp: unpack_pair_def is_pair_def numeral_2_eq_2 length_Suc_conv split: topo_value.splits list.splits)

lemma is_ok_resolve: "knows g w \<Longrightarrow> is_ok (resolve_node w name) \<longleftrightarrow> declared g name"
  by (auto simp: resolve_node_def declared_def knows_def dget_None_iff split: option.splits dest: dget_Some_key)

lemma resolve_gpu: "resolve_node w name = Inr (e, ''gpu'') \<Longrightarrow> \<exists>i. dget (w_gpus w) name = Some i"
  by (auto simp: resolve_node_def split: option.splits)

lemma w_gpus_emits [simp]: "w_gpus (emits ls w) = w_gpus w"
  by (induction ls arbitrary: w) (simp_all add: emit_def)

lemma is_ok_install:
  assumes "knows g w"
  shows "is_ok (emit_link_install src dst hid lid w) \<longleftrightarrow> declared g src \<and> declared g dst"
proof (cases "is_ok (resolve_node w src) \<and> is_ok (resolve_node w dst)")
  case True
  then obtain se st de dt where r: "resolve_node w src = Inr (se, st)" "resolve_node w dst = Inr (de, dt)"
    by (auto simp: is_ok_iff)
  have "is_ok (emit_link_install src dst hid lid w)"
  proof (cases "st = ''gpu'' \<and> dt = ''gpu''")
    case True
    with r resolve_gpu obtain i j where "dget (w_gpus w) src = Some i" "dget (w_gpus w) dst = Some j" by blast
    with r True show ?thesis
      by (simp add: emit_link_install_def Let_def gpu_index_def emit_push_send_device_def emit_push_recv_device_def emit_def)
  next
    case False
    with r show ?thesis by (auto simp: emit_link_install_def Let_def)
  qed
  with True is_ok_resolve [OF assms] show ?thesis by simp
next
  case False
  then have "\<not> is_ok (emit_link_install src dst hid lid w)"
    unfolding emit_link_install_def is_ok_res_bind by (auto simp: is_ok_iff res_bind_eq_Inr)
  with False is_ok_resolve [OF assms] show ?thesis by simp
qed

lemma is_ok_link_helper:
  "is_ok (emit_link_helper hid delay rate mtu type w) \<longleftrightarrow> is_pair delay \<and> is_pair rate \<and> (type = ''p2p'' \<or> type = ''qbb'')"
  unfolding is_ok_unpack [symmetric]
  by (cases "unpack_pair delay"; cases "unpack_pair rate") (simp_all add: emit_link_helper_def del: fold.simps split: prod.split)

lemma is_ok_handle: "knows g w \<Longrightarrow> is_ok (handle_insn i w) \<longleftrightarrow> insn_writable g i"
  by (cases i) (simp_all add: handle_insn_def insn_writable_def is_ok_install is_ok_link_helper)

lemma knows_handle: "knows g w \<Longrightarrow> handle_insn i w = Inr w' \<Longrightarrow> knows g w'"
  by (cases i)
    (auto simp: handle_insn_def emit_make_typed_nodes_def emit_link_helper_def emit_link_install_def
      emit_push_send_device_def emit_push_recv_device_def emit_build_rdma_fabric_def Let_def
      res_bind_eq_Inr split: if_splits)

lemma is_ok_handle_insns: "knows g w \<Longrightarrow> is_ok (handle_insns is w) \<longleftrightarrow> (\<forall>i \<in> set is. insn_writable g i)"
proof (induction "is" arbitrary: w)
  case (Cons i "is")
  show ?case
  proof (cases "handle_insn i w")
    case (Inl e)
    with is_ok_handle [OF Cons.prems, of i] show ?thesis by simp
  next
    case (Inr w')
    with is_ok_handle [OF Cons.prems, of i] Cons.IH [OF knows_handle [OF Cons.prems Inr]] show ?thesis by simp
  qed
qed simp

text \<open>
  Claim C5. The writer accepts the result of the generator exactly when both ends of every link are
  declared nodes and the latency and bandwidth of every helper are pairs; all other instructions, and
  the kinds of the links, are always right. So links to undeclared nodes are found here and only here.
\<close>

theorem write_cc_ok_iff:
  assumes "Generate d ms = Inr g"
  shows "is_ok (write_cc (init_writer g)) \<longleftrightarrow>
    (\<forall>(latency, bandwidth, mtu, type) \<in> set (dkeys (link_helpers g)). is_pair latency \<and> is_pair bandwidth) \<and>
    (\<forall>src dst hid lid. NS3InstallLink src dst hid lid \<in> set (insns g) \<longrightarrow> declared g src \<and> declared g dst)"
proof -
  obtain g0 where ok: "links_ok g0" and g: "g = finish_gen g0"
    using assms links_ok_init by (rule links.P_Generate)
  have k: "knows g (emit_main_start (emit_headers (init_writer g)))"
    by (simp add: emit_main_start_def emit_headers_def Let_def del: fold.simps) (simp add: knows_def init_writer_def)
  have "is_ok (write_cc (init_writer g)) \<longleftrightarrow> (\<forall>i \<in> set (insns g). insn_writable g i)"
    using is_ok_handle_insns [OF k, of "insns g"]
    by (simp add: write_cc_def init_writer_def is_ok_res_bind) (simp add: is_ok_iff)
  also have "\<dots> \<longleftrightarrow> (\<forall>e \<in> set (link_helpers g0). insn_writable g (helper_insn e)) \<and> (\<forall>i \<in> set (insns g0). insn_writable g i)"
    by (auto simp: g insns_finish_gen insn_writable_def)
  also have "(\<forall>e \<in> set (link_helpers g0). insn_writable g (helper_insn e)) \<longleftrightarrow>
      (\<forall>(latency, bandwidth, mtu, type) \<in> set (dkeys (link_helpers g)). is_pair latency \<and> is_pair bandwidth)"
    using ok by (fastforce simp: links_ok_def link_attr_type_def insn_writable_def helper_insn_def g)
  also have "(\<forall>i \<in> set (insns g0). insn_writable g i) \<longleftrightarrow>
      (\<forall>src dst hid lid. NS3InstallLink src dst hid lid \<in> set (insns g) \<longrightarrow> declared g src \<and> declared g dst)"
  proof -
    have "\<exists>src dst hid lid. i = NS3InstallLink src dst hid lid" if "i \<in> set (insns g0)" for i
      using ok that by (auto simp: links_ok_def link_ok_def)
    moreover have "NS3InstallLink src dst hid lid \<in> set (insns g) \<longleftrightarrow> NS3InstallLink src dst hid lid \<in> set (insns g0)"
      for src dst hid lid by (auto simp: g insns_finish_gen helper_insn_def)
    ultimately show ?thesis by (fastforce simp: insn_writable_def)
  qed
  finally show ?thesis .
qed

section \<open>From the source to the text\<close>

lemma bind_not_rec:
  "r \<noteq> Inl RecursionError \<Longrightarrow> (\<And>x. f x \<noteq> Inl RecursionError) \<Longrightarrow> res_bind r f \<noteq> Inl RecursionError"
  by (auto simp: res_bind_eq_Inl)

lemma writer_not_rec:
  "unpack_pair v \<noteq> Inl RecursionError" "resolve_node w name \<noteq> Inl RecursionError" "gpu_index w name \<noteq> Inl RecursionError"
  by (auto simp: unpack_pair_def resolve_node_def gpu_index_def split: topo_value.splits list.splits option.splits)

lemma emit_push_not_rec:
  "emit_push_send_device s n d w \<noteq> Inl RecursionError" "emit_push_recv_device s n d w \<noteq> Inl RecursionError"
  by (simp_all add: emit_push_send_device_def emit_push_recv_device_def res_bind_eq_Inl writer_not_rec)

lemma emit_link_not_rec:
  "emit_link_helper hid delay rate mtu type w \<noteq> Inl RecursionError"
  "emit_link_install src dst hid lid w \<noteq> Inl RecursionError"
proof -
  show "emit_link_helper hid delay rate mtu type w \<noteq> Inl RecursionError"
    using writer_not_rec(1) [of delay] writer_not_rec(1) [of rate]
    by (cases "unpack_pair delay"; cases "unpack_pair rate")
      (simp_all add: emit_link_helper_def del: fold.simps split: prod.split)
  show "emit_link_install src dst hid lid w \<noteq> Inl RecursionError"
    unfolding emit_link_install_def Let_def
    by (intro bind_not_rec writer_not_rec)
      (simp split: prod.split, intro allI impI bind_not_rec writer_not_rec,
       simp del: fold.simps split: prod.split, intro allI impI conjI bind_not_rec writer_not_rec emit_push_not_rec,
       simp_all del: fold.simps)
qed

lemma write_cc_not_rec: "write_cc w \<noteq> Inl RecursionError"
proof -
  have "handle_insn i v \<noteq> Inl RecursionError" for i v
    by (cases i) (simp_all add: handle_insn_def emit_link_not_rec)
  then have "handle_insns is v \<noteq> Inl RecursionError" for "is" v
    by (induction "is" v rule: handle_insns.induct) (auto simp: res_bind_eq_Inl)
  then show ?thesis by (simp add: write_cc_def res_bind_eq_Inl)
qed

text \<open>The compiler with the reference semantics in place of the generator.\<close>

definition ref_compile :: "nat \<Rightarrow> pt_module list \<Rightarrow> py_error + string" where
  "ref_compile n tree =
     res_bind (topo_transform tree) (\<lambda>cfg.
     res_bind (ref_generate n cfg) (\<lambda>g.
     res_bind (write_cc (init_writer g)) (\<lambda>w. Inr (file_text w))))"

lemma init_writer_strip: "init_writer (strip g) = init_writer g"
  by (simp add: init_writer_def strip_def)

lemma compile_agrees:
  assumes "topo_transform tree = Inr ms" and "uses_ranked rk tree" and "depth_bound rk ms \<le> d"
  shows "compile_tree d tree = ref_compile (Suc (Suc (rk ''main'') * block_count ms)) tree"
    and "ref_generate (Suc (Suc (rk ''main'') * block_count ms)) ms \<noteq> Inl RecursionError"
proof -
  let ?n = "Suc (Suc (rk ''main'') * block_count ms)"
  from topo_transform_ok [OF assms(1,2)] wf_prog_of_modules obtain sh where
    wf: "wf_prog sh ms" and h: "sh_height sh = foldr max (value_heights ms) 0"
    and rank: "\<And>b. dget ms ''main'' = Some b \<Longrightarrow> sh_rank sh (block_id b) \<le> Suc (rk ''main'') * block_count ms" by blast
  have "map_sum id strip (Generate d ms) = ref_generate ?n ms \<and> ref_generate ?n ms \<noteq> Inl RecursionError"
  proof (cases "dget ms ''main''")
    case None
    then show ?thesis by (simp add: Generate_def ref_generate_def)
  next
    case (Some b)
    with rank have r: "sh_rank sh (block_id b) < ?n" by (simp add: less_Suc_eq_le)
    have "4 * ?n + sh_height sh + 4 \<le> d" using assms(3) h by (simp add: depth_bound_def)
    from Generate_agrees [OF wf Some r this]
    have "map_sum id strip (Generate d ms) = ref_generate ?n ms" .
    moreover have "ref_block ?n [] [] b [] (init_gen ms) \<noteq> Inl RecursionError"
      by (rule ref_fuel_enough(1) [of sh]) (use wf Some r in \<open>auto simp: init_gen_def dest: wf_prog_get\<close>)
    ultimately show ?thesis by (auto simp: ref_generate_def Some res_bind_eq_Inl)
  qed
  then have g: "map_sum id strip (Generate d ms) = ref_generate ?n ms"
    and n: "ref_generate ?n ms \<noteq> Inl RecursionError" by simp_all
  show "ref_generate ?n ms \<noteq> Inl RecursionError" by (rule n)
  show "compile_tree d tree = ref_compile ?n tree"
    unfolding compile_tree_def ref_compile_def assms(1) res_bind_Inr g [symmetric]
    by (cases "Generate d ms") (simp_all add: init_writer_strip del: mult_Suc)
qed

text \<open>
  Claim C1. The compiler from the parse tree to the C++ text: for every source whose modules use each
  other without a cycle, the tool with its shared scope objects produces what the reference semantics
  with immutable frames produces, or the same error, at every stack depth above an explicit bound.
\<close>

theorem compile_refines:
  assumes "topo_transform tree = Inr ms" and "uses_ranked rk tree" and "depth_bound rk ms \<le> d"
  shows "compile_tree d tree = ref_compile (Suc (Suc (rk ''main'') * block_count ms)) tree"
  by (rule compile_agrees(1) [OF assms])


section \<open>Modules that use themselves\<close>

lemma self_use_overflows:
  "dget (modules g) m = Some b \<Longrightarrow> block_params b = [] \<Longrightarrow> block_insns b = SubmoduleInsn nm m [] # is
   \<Longrightarrow> GenerateModule d b [] g = Inl RecursionError"
proof (induction d arbitrary: g rule: less_induct)
  case (less d)
  consider "d = 0" | "d = Suc 0" | "d = Suc (Suc 0)" | d' where "d = Suc (Suc (Suc d'))"
    by (metis not0_implies_Suc)
  then show ?case
  proof cases
    case 4
    let ?g = "bind_params (block_id b) [] [] g"
    let ?g1 = "?g\<lparr>scopes := set_node_name_prefix (block_id b) nm (set_parent (block_id b) (block_id b) (scopes ?g))\<rparr>"
    have "GenerateModule d' b [] ?g1 = Inl RecursionError"
      by (rule less.IH) (use 4 less.prems in \<open>simp_all add: bind_params_def\<close>)
    then show ?thesis using 4 less.prems by (simp add: bind_params_def Let_def)
  qed (use less.prems in simp_all)
qed

text \<open>
  Claim C39. The cycle check is missing: when the main module begins by using itself, the source is not
  refused with a message, but the tool overflows the stack, however deep it is.
\<close>

theorem recursive_use_overflows:
  assumes "topo_transform tree = Inr ms" and "dget ms ''main'' = Some b"
    and "block_params b = []" and "block_insns b = SubmoduleInsn nm ''main'' [] # rest"
  shows "compile_tree d tree = Inl RecursionError"
  using self_use_overflows [of "init_gen ms" "''main''" b nm rest d] assms
  by (simp add: compile_tree_def Generate_def init_gen_def)

lemma recursive_use_overflows_witness:
  "compile_tree 1000 [PModule ''main'' None [PUse (PName ''main'' None) None (PName ''a'' None)]] = Inl RecursionError"
  by (rule recursive_use_overflows [where b = "Block 0 [] [SubmoduleInsn ''a'' ''main'' []]" and nm = "''a''" and rest = "[]"])
    (simp_all add: topo_transform_def init_tstate_def use_stmt_cb_def name_cb_def module_cb_def new_block_def, simp)

section \<open>An example\<close>

text \<open>
  \<^verbatim>\<open>module pod(n) { node sw type=switch; for i in (1, n) { node g{i} type=gpu;
  link g{i} sw latency=1[us] bandwidth=9[Gbps]; } }
  module main() { use pod(2) as a; use pod(1) as b; link a.sw b.sw latency=1[us] bandwidth=9[Gbps]; }\<close>
\<close>

definition pt_word :: "string \<Rightarrow> pt_value" where
  "pt_word s = PVal (PExpr (PTerm (AName s) []) [])"

definition pt_number :: "string \<Rightarrow> pt_value" where
  "pt_number s = PVal (PExpr (PTerm (ANumber s) []) [])"

definition pod_tree :: "pt_module list" where
  "pod_tree =
     (let speed = [(''latency'', PUnit ''1'' ''us''), (''bandwidth'', PUnit ''9'' ''Gbps'')];
          sw = PName ''sw'' None; g = PName ''g'' (Some (SufVar ''i'')); a = PName ''a'' None; b = PName ''b'' None;
          pod = PName ''pod'' None
      in [PModule ''pod'' (Some [''n''])
            [PNode sw [(''type'', pt_word ''switch'')],
             PFor (PName ''i'' None) (pt_number ''1'') (pt_word ''n'')
               [PNode g [(''type'', pt_word ''gpu'')], PLink (PRef g []) (PRef sw []) speed]],
          PModule ''main'' None
            [PUse pod (Some [pt_number ''2'']) a, PUse pod (Some [pt_number ''1'']) b,
             PLink (PRef a [sw]) (PRef b [sw]) speed]])"

definition pod_rank :: "string \<Rightarrow> nat" where
  "pod_rank m = (if m = ''main'' then 1 else 0)"

lemma pod_tree_ok: "is_ok (topo_transform pod_tree)" "uses_ranked pod_rank pod_tree"
  by code_simp+

lemma compile_refines_witness:
  "\<exists>ms. topo_transform pod_tree = Inr ms \<and>
     compile_tree (depth_bound pod_rank ms) pod_tree = ref_compile (Suc (2 * block_count ms)) pod_tree"
proof -
  from pod_tree_ok(1) obtain ms where "topo_transform pod_tree = Inr ms" by (auto simp: is_ok_iff)
  with compile_refines [OF this pod_tree_ok(2) order_refl] show ?thesis by (auto simp: pod_rank_def numeral_2_eq_2)
qed


lemma write_cc_ok_iff_witness:
  "\<exists>ms g. topo_transform pod_tree = Inr ms \<and> Generate 30 ms = Inr g \<and> is_ok (write_cc (init_writer g))"
proof -
  have "is_ok (res_bind (topo_transform pod_tree) (Generate 30))" by code_simp
  then obtain ms g where ms: "topo_transform pod_tree = Inr ms" and g: "Generate 30 ms = Inr g"
    by (auto simp: is_ok_iff res_bind_eq_Inr)
  have "case res_bind (topo_transform pod_tree) (Generate 30) of Inl _ \<Rightarrow> False
    | Inr g \<Rightarrow> list_all (\<lambda>(latency, bandwidth, mtu, type). is_pair latency \<and> is_pair bandwidth) (dkeys (link_helpers g)) \<and>
        list_all (\<lambda>i. case i of NS3InstallLink src dst hid lid \<Rightarrow> declared g src \<and> declared g dst | _ \<Rightarrow> True) (insns g)"
    by code_simp
  with ms g have "is_ok (write_cc (init_writer g))"
    unfolding write_cc_ok_iff [OF g] by (fastforce simp: list_all_iff)
  with ms g show ?thesis by blast
qed

end
