(* ===== verification/Rad_Stats.thy ===== *)
theory Rad_Stats
  imports Rad_Numbers Py_Float
begin

text \<open>
  The remaining helpers of \<^verbatim>\<open>simulation/bindings/python/rad_util.py\<close>: \<^verbatim>\<open>polygon_area\<close>, \<^verbatim>\<open>pt2str\<close>,
  \<^verbatim>\<open>quantile\<close>, \<^verbatim>\<open>trim\<close>, \<^verbatim>\<open>nice_units\<close>, \<^verbatim>\<open>random_vec\<close>, \<^verbatim>\<open>float_range\<close> and \<^verbatim>\<open>getmodule\<close>. The
  module is Python 2. A float is its exact rational value; where \<^verbatim>\<open>/\<close> has a different meaning on
  integers and floats, a number keeps which of the two it is.
\<close>

section \<open>Area of a polygon\<close>

text \<open>\<^verbatim>\<open>int(x)\<close> cuts towards 0.\<close>

definition py_trunc :: "rat \<Rightarrow> int" where
  "py_trunc x = (if x < 0 then \<lceil>x\<rceil> else \<lfloor>x\<rfloor>)"

definition scale_point :: "rat \<Rightarrow> rat \<times> rat \<Rightarrow> int \<times> int" where
  "scale_point precision p = (py_trunc (fst p * precision), py_trunc (snd p * precision))"

definition close_polygon :: "(int \<times> int) list \<Rightarrow> (int \<times> int) list" where
  "close_polygon ps = (if last ps \<noteq> hd ps then ps @ [hd ps] else ps)"

fun cross_sum :: "int \<Rightarrow> (int \<times> int) list \<Rightarrow> int" where
  "cross_sum area ((x_i, y_i) # (x_i1, y_i1) # ps) =
     cross_sum (area + x_i1 * y_i - y_i1 * x_i) ((x_i1, y_i1) # ps)"
| "cross_sum area _ = area"

text \<open>
  The list of points belongs to the caller and is changed in place: the points are replaced by
  their scaled ones and the first point is appended. The result is the list as the caller finds it
  afterwards, together with the area.
\<close>

definition polygon_area :: "(rat \<times> rat) list \<Rightarrow> int \<Rightarrow> py_error + (int \<times> int) list \<times> rat" where
  "polygon_area points_list precision =
     (if points_list = [] then Inl IndexError
      else
        let ps = close_polygon (map (scale_point (of_int precision)) points_list);
            area = \<bar>cross_sum 0 ps div 2\<bar>
        in if precision = 0 then Inl ZeroDivisionError
           else Inr (ps, of_int area / of_int (precision ^ 2)))"

definition pt2str :: "('a \<Rightarrow> string) \<Rightarrow> 'a list \<Rightarrow> py_error + string" where
  "pt2str str point =
     (case point of
        a # b # _ \<Rightarrow> Inr (''('' @ str a @ '', '' @ str b @ '')'')
      | _ \<Rightarrow> Inl IndexError)"

section \<open>Quantiles\<close>

text \<open>\<^verbatim>\<open>xs[i]\<close> with an index that may be negative.\<close>

definition py_index :: "'a list \<Rightarrow> int \<Rightarrow> py_error + 'a" where
  "py_index xs i =
     (let k = (if i < 0 then i + int (length xs) else i)
      in if 0 \<le> k \<and> k < int (length xs) then Inr (xs ! nat k) else Inl IndexError)"

definition quantile :: "rat list \<Rightarrow> rat \<Rightarrow> py_error + rat" where
  "quantile l p =
     (let l_sort = sort l;
          n = int (length l);
          r = 1 + of_int (n - 1) * p;
          i = py_trunc r;
          f = r - of_int i
      in if i < n
         then res_bind (py_index l_sort (i - 1)) (\<lambda>a.
              res_bind (py_index l_sort i) (\<lambda>b. Inr ((1 - f) * a + f * b)))
         else py_index l_sort (i - 1))"

text \<open>The median is computed and not used, but computing it raises on an empty list.\<close>

definition trim :: "rat list \<Rightarrow> py_error + rat list" where
  "trim l =
     (let l_sort = sort l;
          index = int (length l_sort div 2)
      in res_bind
           (if even (length l_sort)
            then res_bind (py_index l_sort index) (\<lambda>a.
                 res_bind (py_index l_sort (index - 1)) (\<lambda>b. Inr ((a + b) / 2)))
            else py_index l_sort index) (\<lambda>median.
         res_bind (quantile l_sort (1 / 4)) (\<lambda>q1.
         res_bind (quantile l_sort (3 / 4)) (\<lambda>q3.
           let iqr = q3 - q1; iqr_extra = iqr * (3 / 2)
           in Inr (filter (\<lambda>x. q1 - iqr_extra \<le> x \<and> x \<le> q3 + iqr_extra) l_sort)))))"

section \<open>Human readable units\<close>

text \<open>A number that is an \<^verbatim>\<open>int\<close> or a \<^verbatim>\<open>float\<close>: \<^verbatim>\<open>/\<close> on two integers is floor division.\<close>

datatype py_num = PInt int | PFloat rat

fun num_val :: "py_num \<Rightarrow> rat" where
  "num_val (PInt i) = of_int i"
| "num_val (PFloat x) = x"

fun num_div :: "py_num \<Rightarrow> py_num \<Rightarrow> rat" where
  "num_div (PInt a) (PInt b) = of_int (a div b)"
| "num_div a b = num_val a / num_val b"

text \<open>The prefix tables: multiplier, symbol and full name.\<close>

type_synonym prefix_table = "(py_num \<times> string \<times> string) list"

definition si_prefixes :: prefix_table where
  "si_prefixes =
     [(PFloat (10 ^ 24), ''Y'', ''yotta''), (PFloat (10 ^ 21), ''Z'', ''zetta''),
      (PFloat (10 ^ 18), ''E'', ''exa''), (PFloat (10 ^ 15), ''P'', ''peta''),
      (PFloat (10 ^ 12), ''T'', ''tera''), (PFloat (10 ^ 9), ''G'', ''giga''),
      (PFloat (10 ^ 6), ''M'', ''mega''), (PFloat (10 ^ 3), ''k'', ''kilo''),
      (PFloat (1 / 10 ^ 3), ''m'', ''milli''), (PFloat (1 / 10 ^ 6), ''u'', ''micro''),
      (PFloat (1 / 10 ^ 9), ''n'', ''nano''), (PFloat (1 / 10 ^ 12), ''p'', ''pico''),
      (PFloat (1 / 10 ^ 15), ''f'', ''femto''), (PFloat (1 / 10 ^ 18), ''a'', ''atto''),
      (PFloat (1 / 10 ^ 21), ''z'', ''zepto''), (PFloat (1 / 10 ^ 24), ''y'', ''yocto'')]"

definition extra_prefixes :: prefix_table where
  "extra_prefixes =
     [(PFloat 100, ''h'', ''hecto''), (PFloat 10, ''da'', ''deka''),
      (PFloat (1 / 10), ''d'', ''deci''), (PFloat (1 / 100), ''c'', ''centi'')]"

definition bin_prefixes :: prefix_table where
  "bin_prefixes =
     [(PInt (2 ^ 10), ''K'', ''kilo''), (PInt (2 ^ 20), ''M'', ''mega''), (PInt (2 ^ 30), ''G'', ''mega''),
      (PInt (2 ^ 40), ''T'', ''tera''), (PInt (2 ^ 50), ''P'', ''peta''), (PInt (2 ^ 60), ''E'', ''exa'')]"

definition prefixes_for :: "bool \<Rightarrow> bool \<Rightarrow> prefix_table" where
  "prefixes_for use_extra_prefixes bin =
     (if bin then bin_prefixes
      else si_prefixes @ (if use_extra_prefixes then extra_prefixes else []))
     @ [(PInt 1, '''', '''')]"

definition multipliers :: "prefix_table \<Rightarrow> py_num list" where
  "multipliers prefixes = sort_key num_val (map fst prefixes)"

text \<open>
  The index of the multiplier: the loop stops at the first interval that holds the value; the
  variable \<^verbatim>\<open>mult\<close> that the branch behind it tests is still \<^verbatim>\<open>None\<close>, so both comparisons run. A value
  that no branch claims would leave \<^verbatim>\<open>mult_i\<close> unassigned.
\<close>

fun interval_index :: "rat \<Rightarrow> py_num list \<Rightarrow> nat \<Rightarrow> nat option" where
  "interval_index v (a # b # ms) i =
     (if num_val a \<le> v \<and> v < num_val b then Some i else interval_index v (b # ms) (Suc i))"
| "interval_index v _ i = None"

definition mult_index :: "rat \<Rightarrow> py_num list \<Rightarrow> py_error + nat" where
  "mult_index v ms =
     (if v < num_val (hd ms) then Inr 0
      else if num_val (last ms) \<le> v then Inr (length ms - 1)
      else case interval_index v ms 0 of Some i \<Rightarrow> Inr i | None \<Rightarrow> Inl UnboundLocalError)"

text \<open>\<^verbatim>\<open>round(x, dp)\<close> of Python 2: halves away from 0.\<close>

definition py_round :: "rat \<Rightarrow> nat \<Rightarrow> rat" where
  "py_round x dp =
     (let n = \<lfloor>\<bar>x\<bar> * 10 ^ dp + 1 / 2\<rfloor> in signed (x < 0) (of_int n / 10 ^ dp))"

text \<open>The formats \<^verbatim>\<open>%.kf\<close> and \<^verbatim>\<open>%.kg\<close>.\<close>

definition fmt_f :: "nat \<Rightarrow> rat \<Rightarrow> string" where
  "fmt_f k x =
     (if k = 0 then (if x < 0 then ''-'' else '''') @ str_nat (nat (round_even \<bar>x\<bar>)) else fmt_fixed k x)"

definition floor_log10 :: "rat \<Rightarrow> int" where
  "floor_log10 x =
     (case quotient_of x of (n, d) \<Rightarrow>
        if d \<le> n then int (length (str_nat (nat (n div d)))) - 1
        else let m = length (str_nat (nat (d div n)))
             in if n * 10 ^ (m - 1) = d then 1 - int m else - int m)"

definition strip_zeros :: "string \<Rightarrow> string" where
  "strip_zeros s =
     (if CHR ''.'' \<in> set s
      then let t = rev (dropWhile (\<lambda>c. c = CHR ''0'') (rev s))
           in if last t = CHR ''.'' then butlast t else t
      else s)"

definition fmt_exp :: "int \<Rightarrow> string" where
  "fmt_exp e =
     (let ds = str_nat (nat \<bar>e\<bar>)
      in ''e'' @ (if e < 0 then ''-'' else ''+'') @ (if length ds < 2 then ''0'' @ ds else ds))"

definition fmt_g :: "nat \<Rightarrow> rat \<Rightarrow> string" where
  "fmt_g precision x =
     (if x = 0 then ''0''
      else
        let p = max 1 precision;
            e0 = floor_log10 \<bar>x\<bar>;
            n0 = round_even (\<bar>x\<bar> * pow10 (int p - 1 - e0));
            e = (if n0 = 10 ^ p then e0 + 1 else e0)
        in if - 4 \<le> e \<and> e < int p then strip_zeros (fmt_f (nat (int p - 1 - e)) x)
           else strip_zeros (fmt_f (p - 1) (x / pow10 e)) @ fmt_exp e)"

definition nice_units ::
  "py_num \<Rightarrow> nat \<Rightarrow> nat option \<Rightarrow> string \<Rightarrow> string \<Rightarrow> bool \<Rightarrow> bool \<Rightarrow> bool \<Rightarrow> py_error + string" where
  "nice_units value dp sigfigs suffix space use_extra_prefixes use_full_name bin =
     (let prefixes = prefixes_for use_extra_prefixes bin;
          ms = multipliers prefixes
      in res_bind (mult_index (num_val value) ms) (\<lambda>mult_i.
           let mult0 = ms ! mult_i;
               roll = (sigfigs = None \<and> mult_i < length ms - 1
                       \<and> py_round (num_div value mult0) dp = py_round (num_div (ms ! Suc mult_i) mult0) dp);
               mult = (if roll then ms ! Suc mult_i else mult0);
               new_value = num_div value mult;
               str_value = (case sigfigs of None \<Rightarrow> fmt_f dp new_value | Some n \<Rightarrow> fmt_g n new_value);
               label = (case map_of prefixes mult of
                          Some (symbol, full) \<Rightarrow> if use_full_name then full else symbol
                        | None \<Rightarrow> '''')
           in Inr (str_value @ space @ label @ suffix)))"

section \<open>Random vectors, ranges of floats, modules\<close>

text \<open>\<open>rnd k\<close> is the answer of the \<open>k\<close>th call of \<^verbatim>\<open>random.random()\<close>.\<close>

definition random_vec :: "(nat \<Rightarrow> rat) \<Rightarrow> nat \<Rightarrow> int option \<Rightarrow> py_error + string" where
  "random_vec rnd bits max_value =
     res_bind (res_map (\<lambda>k. int2bin (py_trunc (2 ^ 10 * rnd k)) 10) [0..<bits div 10 + 1]) (\<lambda>parts.
       let vector = concat parts
       in case max_value of
            None \<Rightarrow> Inr (take bits vector)
          | Some m \<Rightarrow>
              if m \<noteq> 0 \<and> m < 2 ^ bits - 1
              then if (2 ^ bits - 1 :: int) = 0 then Inl ZeroDivisionError
                   else res_bind (bin2int vector) (\<lambda>i.
                        res_bind (int2bin (i div (2 ^ bits - 1) * m) bits) (\<lambda>v. Inr (take bits v)))
              else Inr (take bits vector))"

text \<open>The loop does not end for a step that is not positive: the value \<open>None\<close>.\<close>

partial_function (option) float_range_loop :: "rat \<Rightarrow> rat \<Rightarrow> rat \<Rightarrow> rat list \<Rightarrow> rat list option" where
  "float_range_loop cur stop step l =
     (if cur < stop then float_range_loop (cur + step) stop step (l @ [cur]) else Some l)"

definition float_range :: "rat \<Rightarrow> rat option \<Rightarrow> rat option \<Rightarrow> rat list option" where
  "float_range start stop step =
     (let (start, stop) = (case stop of None \<Rightarrow> (0, start) | Some s \<Rightarrow> (start, s));
          step = (case step of None \<Rightarrow> 1 | Some s \<Rightarrow> s)
      in float_range_loop start stop step [])"

text \<open>
  What \<^verbatim>\<open>getmodule\<close> looks at: the globals of a function (the value of their \<^verbatim>\<open>__name__\<close> entry), and
  the attribute dictionary of any other object.
\<close>

datatype py_obj =
  PyObj (func_globals: "(string, string) dict option") (obj_dict: "(string \<times> py_obj) list option")

definition getmodule :: "(string, 'm) dict \<Rightarrow> py_obj \<Rightarrow> py_error + 'm" where
  "getmodule sys_modules obj =
     res_bind
       (case func_globals obj of
          Some g \<Rightarrow> Inr g
        | None \<Rightarrow>
            (case obj_dict obj of
               None \<Rightarrow> Inl AttributeError
             | Some items \<Rightarrow>
                 (case List.find (\<lambda>i. func_globals i \<noteq> None) (map snd items) of
                    None \<Rightarrow> Inl ValueError
                  | Some f \<Rightarrow> Inr (the (func_globals f))))) (\<lambda>g.
     case dget g ''__name__'' of
       None \<Rightarrow> Inl KeyError
     | Some module_name \<Rightarrow>
         (case dget sys_modules module_name of None \<Rightarrow> Inl KeyError | Some m \<Rightarrow> Inr m))"

section \<open>Area: what a call computes and what it leaves\<close>

text \<open>The reference: twice the signed area of the closed polygon, by the shoelace formula.\<close>

definition shoelace :: "(int \<times> int) list \<Rightarrow> int" where
  "shoelace ps = (\<Sum>k<length ps - 1. fst (ps ! Suc k) * snd (ps ! k) - snd (ps ! Suc k) * fst (ps ! k))"

definition int_points :: "(int \<times> int) list \<Rightarrow> (rat \<times> rat) list" where
  "int_points ps = map (\<lambda>(x, y). (of_int x, of_int y)) ps"

lemma cross_sum_shoelace: "cross_sum a ps = a + shoelace ps"
proof (induction a ps rule: cross_sum.induct)
  case (1 area x_i y_i x_i1 y_i1 ps)
  then show ?case
    by (simp add: shoelace_def sum.lessThan_Suc_shift del: sum.lessThan_Suc)
qed (simp_all add: shoelace_def)

lemma py_trunc_of_int [simp]: "py_trunc (of_int i) = i"
  by (simp add: py_trunc_def)

lemma scale_int_points: "map (scale_point (of_int c)) (int_points ps) = map (\<lambda>(x, y). (x * c, y * c)) ps"
proof -
  have "py_trunc (of_int a * of_int c) = a * c" for a
    by (metis of_int_mult py_trunc_of_int)
  then show ?thesis by (simp add: int_points_def scale_point_def split_beta)
qed

lemma int_points_eq_Nil [simp]: "int_points ps = [] \<longleftrightarrow> ps = []"
  by (simp add: int_points_def)

lemma shoelace_scale: "shoelace (map (\<lambda>(x, y). (x * c, y * c)) ps) = c\<^sup>2 * shoelace ps"
  by (simp add: shoelace_def split_beta sum_distrib_left power2_eq_square algebra_simps)

lemma close_polygon_scale:
  assumes "ps \<noteq> []" and "c \<noteq> 0"
  shows "close_polygon (map (\<lambda>(x, y). (x * c, y * c)) ps) = map (\<lambda>(x, y). (x * c, y * c)) (close_polygon ps)"
  using assms by (auto simp: close_polygon_def last_map hd_map split_beta prod_eq_iff)

lemma close_polygon_closed: "ps \<noteq> [] \<Longrightarrow> close_polygon (close_polygon ps) = close_polygon ps"
  by (auto simp: close_polygon_def)

lemma close_polygon_nonempty [simp]: "ps \<noteq> [] \<Longrightarrow> close_polygon ps \<noteq> []"
  by (simp add: close_polygon_def)

lemma polygon_area_int_points:
  assumes "ps \<noteq> []" and "c \<noteq> 0" and "even c"
  shows "polygon_area (int_points ps) c
    = Inr (map (\<lambda>(x, y). (x * c, y * c)) (close_polygon ps), of_int \<bar>shoelace (close_polygon ps)\<bar> / 2)"
proof -
  define S where "S = shoelace (close_polygon ps)"
  from \<open>even c\<close> obtain d where d: "c = 2 * d" by auto
  have "c\<^sup>2 * S div 2 = 2 * d\<^sup>2 * S" by (simp add: d power2_eq_square)
  moreover have "\<bar>2 * d\<^sup>2 * S\<bar> = 2 * d\<^sup>2 * \<bar>S\<bar>" by (simp add: abs_mult)
  moreover have "(of_int (2 * d\<^sup>2 * \<bar>S\<bar>) :: rat) / of_int (c\<^sup>2) = of_int \<bar>S\<bar> / 2"
    using \<open>c \<noteq> 0\<close> by (simp add: d power2_eq_square)
  ultimately have "(of_int \<bar>c\<^sup>2 * S div 2\<bar> :: rat) / of_int (c\<^sup>2) = of_int \<bar>S\<bar> / 2"
    by metis
  with assms show ?thesis
    by (simp add: polygon_area_def Let_def scale_int_points close_polygon_scale cross_sum_shoelace
        shoelace_scale S_def del: of_int_abs of_int_power)
qed

text \<open>
  For integer points and an even precision the area is the one of the shoelace
  formula, exactly. The list of the caller is left closed and scaled, so the same call on the same
  list again returns the area multiplied by the square of the precision.
\<close>
theorem polygon_area_twice:
  assumes "ps \<noteq> []" and "c \<noteq> 0" and "even c"
  shows "\<exists>ps' a. polygon_area (int_points ps) c = Inr (ps', a)
    \<and> a = of_int \<bar>shoelace (close_polygon ps)\<bar> / 2
    \<and> polygon_area (int_points ps') c = Inr (map (\<lambda>(x, y). (x * c, y * c)) ps', of_int (c\<^sup>2) * a)"
proof -
  let ?q = "map (\<lambda>(x, y). (x * c, y * c)) (close_polygon ps)"
  have "close_polygon ?q = ?q"
    using assms close_polygon_scale [of "close_polygon ps" c] by (simp add: close_polygon_closed)
  then have "polygon_area (int_points ?q) c
      = Inr (map (\<lambda>(x, y). (x * c, y * c)) ?q, of_int \<bar>c\<^sup>2 * shoelace (close_polygon ps)\<bar> / 2)"
    using assms polygon_area_int_points [of ?q c] by (simp add: shoelace_scale)
  then have "polygon_area (int_points ?q) c
      = Inr (map (\<lambda>(x, y). (x * c, y * c)) ?q, of_int (c\<^sup>2) * (of_int \<bar>shoelace (close_polygon ps)\<bar> / 2))"
    by (simp add: abs_mult)
  then show ?thesis
    using polygon_area_int_points [OF assms] by blast
qed

lemma polygon_area_twice_witness:
  "\<exists>ps' a. polygon_area (int_points [(0, 0), (0, 1), (1, 1), (1, 0)]) 10 = Inr (ps', a)
    \<and> a = 1 \<and> polygon_area (int_points ps') 10 = Inr (map (\<lambda>(x, y). (x * 10, y * 10)) ps', 100)"
proof -
  have "shoelace (close_polygon [(0, 0), (0, 1), (1, 1), (1, 0)]) = 2" by code_simp
  then show ?thesis
    using polygon_area_twice [of "[(0, 0), (0, 1), (1, 1), (1, 0)]" 10] by auto
qed

section \<open>Quantiles: within the values\<close>

lemma py_index_nth: "0 \<le> i \<Longrightarrow> i < int (length xs) \<Longrightarrow> py_index xs i = Inr (xs ! nat i)"
  by (simp add: py_index_def)

lemma sort_nth_bounds:
  fixes l :: "rat list"
  assumes "k < length l"
  shows "Min (set l) \<le> sort l ! k" "sort l ! k \<le> Max (set l)"
proof -
  have "sort l ! k \<in> set l" using assms by (metis length_sort nth_mem set_sort)
  then show "Min (set l) \<le> sort l ! k" "sort l ! k \<le> Max (set l)" by simp_all
qed

lemma convex_bounds:
  fixes a b f :: rat
  assumes "0 \<le> f" "f \<le> 1" "lo \<le> a" "lo \<le> b" "a \<le> hi" "b \<le> hi"
  shows "lo \<le> (1 - f) * a + f * b" "(1 - f) * a + f * b \<le> hi"
proof -
  have "(1 - f) * lo + f * lo \<le> (1 - f) * a + f * b"
    using assms by (intro add_mono mult_left_mono) auto
  then show "lo \<le> (1 - f) * a + f * b" by (simp add: algebra_simps)
  have "(1 - f) * a + f * b \<le> (1 - f) * hi + f * hi"
    using assms by (intro add_mono mult_left_mono) auto
  then show "(1 - f) * a + f * b \<le> hi" by (simp add: algebra_simps)
qed

lemma quantile_in_range:
  assumes "l \<noteq> []" and "0 \<le> p" and "p \<le> 1"
  shows "\<exists>q. quantile l p = Inr q \<and> Min (set l) \<le> q \<and> q \<le> Max (set l)"
proof -
  define r where "r = 1 + of_int (int (length l) - 1) * p"
  define i where "i = \<lfloor>r\<rfloor>"
  have n: "1 \<le> int (length l)" using assms(1) by (cases l) auto
  then have d: "0 \<le> (of_int (int (length l) - 1) :: rat)" by simp
  then have "0 \<le> of_int (int (length l) - 1) * p" using assms(2) by simp
  then have r1: "1 \<le> r" by (simp add: r_def)
  have "of_int (int (length l) - 1) * p \<le> of_int (int (length l) - 1) * 1"
    using d assms(3) by (intro mult_left_mono) auto
  then have "r \<le> of_int (int (length l))" by (simp add: r_def)
  then have i: "1 \<le> i" "i \<le> int (length l)" using r1 by (simp_all add: i_def le_floor_iff floor_le_iff)
  have trunc: "py_trunc r = i" using r1 by (simp add: py_trunc_def i_def)
  have f: "0 \<le> r - of_int i" "r - of_int i \<le> 1"
    unfolding i_def by (simp_all add: floor_correct) linarith
  show ?thesis
  proof (cases "i < int (length l)")
    case True
    then have ks: "nat (i - 1) < length l" "nat i < length l" using i by auto
    have "quantile l p = Inr ((1 - (r - of_int i)) * sort l ! nat (i - 1) + (r - of_int i) * sort l ! nat i)"
      using True i unfolding quantile_def Let_def r_def [symmetric] trunc by (simp add: py_index_nth)
    with f ks sort_nth_bounds [OF ks(1)] sort_nth_bounds [OF ks(2)] show ?thesis
      by (auto intro: convex_bounds)
  next
    case False
    then have k: "nat (i - 1) < length l" using i n by auto
    then have "py_index (sort l) (i - 1) = Inr (sort l ! nat (i - 1))" using i by (intro py_index_nth) auto
    with False have "quantile l p = Inr (sort l ! nat (i - 1))"
      unfolding quantile_def Let_def r_def [symmetric] trunc by simp
    with k show ?thesis using sort_nth_bounds by auto
  qed
qed

lemma trim_correct:
  assumes "l \<noteq> []"
  shows "\<exists>q1 q3. quantile l (1 / 4) = Inr q1 \<and> quantile l (3 / 4) = Inr q3
    \<and> trim l = Inr (filter (\<lambda>x. q1 - (q3 - q1) * (3 / 2) \<le> x \<and> x \<le> q3 + (q3 - q1) * (3 / 2)) (sort l))"
proof -
  have sort: "quantile (sort l) p = quantile l p" for p by (simp add: quantile_def sorted_sort_id)
  have k: "length l div 2 < length l" using assms by (cases l) auto
  then have a: "py_index (sort l) (int (length l div 2)) = Inr (sort l ! (length l div 2))"
    using py_index_nth [of "int (length l div 2)" "sort l"] by simp
  have "even (length l) \<Longrightarrow> \<exists>b. py_index (sort l) (int (length l div 2) - 1) = Inr b"
    using k assms py_index_nth [of "int (length l div 2) - 1" "sort l"] by (cases "length l") (auto elim!: evenE)
  moreover obtain q1 q3 where "quantile l (1 / 4) = Inr q1" "quantile l (3 / 4) = Inr q3"
    using quantile_in_range [OF assms, of "1 / 4"] quantile_in_range [OF assms, of "3 / 4"] by auto
  ultimately show ?thesis
    using a by (cases "even (length l)") (auto simp: trim_def Let_def sort)
qed

lemma trim_Nil: "trim [] = Inl IndexError"
  by (simp add: trim_def py_index_def)

section \<open>Units: a prefix is always found\<close>

lemma interval_index_Some:
  "interval_index v ms i = Some j \<Longrightarrow>
     i \<le> j \<and> Suc (j - i) < length ms \<and> num_val (ms ! (j - i)) \<le> v \<and> v < num_val (ms ! Suc (j - i))"
proof (induction v ms i rule: interval_index.induct)
  case (1 v a b ms i)
  show ?case
  proof (cases "num_val a \<le> v \<and> v < num_val b")
    case False
    with 1 have "Suc i \<le> j" "Suc (j - Suc i) < length (b # ms)"
      "num_val ((b # ms) ! (j - Suc i)) \<le> v" "v < num_val ((b # ms) ! Suc (j - Suc i))" by auto
    moreover from \<open>Suc i \<le> j\<close> have "j - i = Suc (j - Suc i)" by simp
    ultimately show ?thesis by auto
  qed (use "1.prems" in auto)
qed simp_all

lemma interval_index_found:
  "ms \<noteq> [] \<Longrightarrow> num_val (hd ms) \<le> v \<Longrightarrow> v < num_val (last ms) \<Longrightarrow> interval_index v ms i \<noteq> None"
  by (induction v ms i rule: interval_index.induct) (auto simp: not_less)

lemma mult_index_correct:
  assumes "ms \<noteq> []"
  shows "\<exists>i. mult_index v ms = Inr i \<and> i < length ms
    \<and> (if v < num_val (hd ms) then i = 0
       else if num_val (last ms) \<le> v then i = length ms - 1
       else Suc i < length ms \<and> num_val (ms ! i) \<le> v \<and> v < num_val (ms ! Suc i))"
proof (cases "num_val (hd ms) \<le> v \<and> v < num_val (last ms)")
  case True
  then obtain i where "interval_index v ms 0 = Some i" using interval_index_found [OF assms] by blast
  with True interval_index_Some [OF this] show ?thesis by (auto simp: mult_index_def)
qed (use assms in \<open>auto simp: mult_index_def\<close>)

lemma multipliers_nonempty [simp]: "multipliers (prefixes_for extra bin) \<noteq> []"
  by (simp add: multipliers_def prefixes_for_def flip: length_greater_0_conv)

lemma nice_units_ok: "is_ok (nice_units value dp sigfigs suffix space extra full bin)"
  using mult_index_correct [OF multipliers_nonempty, of "num_val value" extra bin]
  by (auto simp: nice_units_def Let_def)

section \<open>Ranges of floats\<close>

lemma float_range_loop_step:
  assumes "0 < step"
  shows "float_range_loop cur stop step l
    = Some (l @ map (\<lambda>k. cur + of_nat k * step) [0..<nat \<lceil>(stop - cur) / step\<rceil>])"
proof (induction "nat \<lceil>(stop - cur) / step\<rceil>" arbitrary: cur l)
  case 0
  then have "\<not> cur < stop" using assms by (simp add: ceiling_le_iff divide_le_0_iff)
  with 0 show ?case by (simp add: float_range_loop.simps)
next
  case (Suc n)
  have "cur < stop"
  proof (rule ccontr)
    assume "\<not> cur < stop"
    then have "\<lceil>(stop - cur) / step\<rceil> \<le> 0" using assms by (simp add: ceiling_le_iff divide_le_0_iff)
    with Suc.hyps(2) show False by simp
  qed
  moreover have eq: "(stop - (cur + step)) / step = (stop - cur) / step - 1"
    using assms by (simp add: field_simps)
  then have n: "n = nat \<lceil>(stop - (cur + step)) / step\<rceil>" using Suc.hyps(2) by simp
  have "map (\<lambda>k. cur + of_nat k * step) [0..<Suc n] = cur # map (\<lambda>k. (cur + step) + of_nat k * step) [0..<n]"
    by (simp add: upt_conv_Cons map_Suc_upt [symmetric] algebra_simps del: upt_Suc)
  ultimately show ?case
    using Suc.hyps(1) [OF n, of "l @ [cur]"] Suc.hyps(2) n by (simp add: float_range_loop.simps del: upt_Suc)
qed

lemma float_range_loop_Some:
  assumes "float_range_loop cur stop step l = Some r" and "step \<le> 0"
  shows "\<not> cur < stop"
proof -
  have "step \<le> 0 \<longrightarrow> \<not> cur < stop"
  proof (rule float_range_loop.raw_induct [where P = "\<lambda>cur stop step l r. step \<le> 0 \<longrightarrow> \<not> cur < stop"])
    fix f and cur stop step :: rat and l r
    assume "\<And>cur stop step l r. f cur stop step l = Some r \<Longrightarrow> step \<le> 0 \<longrightarrow> \<not> cur < stop"
      and "(if cur < stop then f (cur + step) stop step (l @ [cur]) else Some l) = Some r"
    then show "step \<le> 0 \<longrightarrow> \<not> cur < stop" by (fastforce split: if_splits)
  qed (rule assms)
  with assms show ?thesis by simp
qed

text \<open>
  A range ends exactly when its step is positive or it is empty from the start, and
  then it holds the values that the start reaches before the stop, in order.
\<close>
theorem float_range_correct:
  "float_range start (Some stop) (Some step)
    = (if 0 < step then Some (map (\<lambda>k. start + of_nat k * step) [0..<nat \<lceil>(stop - start) / step\<rceil>])
       else if start < stop then None
       else Some [])"
proof (cases "0 < step")
  case True
  then show ?thesis by (simp add: float_range_def float_range_loop_step)
next
  case False
  moreover have "start < stop \<Longrightarrow> float_range_loop start stop step [] = None"
    using False float_range_loop_Some [of start stop step "[]"] by (cases "float_range_loop start stop step []") auto
  ultimately show ?thesis by (auto simp: float_range_def float_range_loop.simps [of start])
qed

section \<open>Random vectors with a maximum\<close>

text \<open>
  The quotient of the vector and the largest value is an integer division in Python 2, so a vector
  below a maximum is a multiple of that maximum.
\<close>

lemma random_vec_multiple:
  assumes "random_vec rnd bits (Some m) = Inr v" and "0 < m" and "m < 2 ^ bits - 1"
  shows "\<exists>k. bin2int v = Inr (k * m) \<and> length v = bits"
proof -
  from assms(2,3) have bits: "0 < bits" by (cases bits) auto
  obtain k v' where v': "int2bin (k * m) bits = Inr v'" "v = take bits v'"
    using assms by (auto simp: random_vec_def res_bind_eq_Inr Let_def split: if_splits)
  then have "0 \<le> k * m" using int2bin_negative [of "k * m" bits] by (cases "k * m < 0") auto
  moreover from this v' bits int2bin_spec [of "k * m" bits]
  have "k * m < 2 ^ bits" "v' = bits_msb bits (nat (k * m))" by (auto split: if_splits)
  moreover note bits
  ultimately have "bin2int v' = Inr (k * m)" "take bits v' = v'" by (simp_all add: bin2int_bits_msb)
  with v'(2) \<open>v' = _\<close> show ?thesis by auto
qed

end
