(* ===== verification/Scan_Hooks.thy ===== *)
theory Scan_Hooks
  imports Py_Path Topsort "HOL-Library.Char_ord" "HOL-Library.List_Lexorder"
begin

text \<open>
  The hooks of the API scanners \<^verbatim>\<open>simulation/bindings/python/ns3modulescan.py\<close> (all modules at
  once) and \<^verbatim>\<open>ns3modulescan-modular.py\<close> (one module). The parser calls a hook for every C++
  declaration; the hook fills the dictionaries of annotations from which the bindings are generated.
  A declaration of pygccxml is the record of the attributes the hooks read; the functions of pygccxml
  and pybindgen that they call (\<^verbatim>\<open>templates.args\<close>, \<^verbatim>\<open>templates.is_instantiation\<close>,
  \<^verbatim>\<open>templates.split\<close>, \<^verbatim>\<open>find_declaration_from_name\<close>) are parameters. The scanners are written for
  Python 3 (their first line) in the style of Python 2; where the two differ the definitions take the
  interpreter as the argument \<open>py3\<close>.
\<close>

section \<open>Annotations\<close>

datatype annot = AStr string | ANone | ATrue | AParams "(string, (string, string) dict) dict"

type_synonym annots = "(string, annot) dict"

text \<open>The table of customisations: one global dictionary, shared by both scanners.\<close>

definition type_annotations :: "(string, annots) dict" where
  "type_annotations =
    [(''::ns3::AttributeChecker'',
       [(''automatic_type_narrowing'', AStr ''true''), (''allow_subclassing'', AStr ''false'')]),
     (''::ns3::AttributeValue'',
       [(''automatic_type_narrowing'', AStr ''true''), (''allow_subclassing'', AStr ''false'')]),
     (''::ns3::CommandLine'',
       [(''allow_subclassing'', AStr ''true'')]),
     (''::ns3::NscTcpL4Protocol'',
       [(''ignore'', AStr ''true'')]),
     (''ns3::RandomVariable::RandomVariable(ns3::RandomVariableBase const & variable) [constructor]'',
       [(''ignore'', ANone)]),
     (''ns3::RandomVariableBase * ns3::RandomVariable::Peek() const [member function]'',
       [(''ignore'', ANone)]),
     (''void ns3::RandomVariable::GetSeed(uint32_t * seed) const [member function]'',
       [(''params'', AParams [(''seed'', [(''direction'', ''out''), (''array_length'', ''6'')])])]),
     (''bool ns3::TypeId::LookupAttributeByName(std::string name, ns3::TypeId::AttributeInformation * info) const [member function]'',
       [(''params'', AParams [(''info'', [(''transfer_ownership'', ''false'')])])]),
     (''static bool ns3::TypeId::LookupByNameFailSafe(std::string name, ns3::TypeId * tid) [member function]'',
       [(''ignore'', ANone)]),
     (''bool ns3::TraceSourceAccessor::ConnectWithoutContext(ns3::ObjectBase * obj, ns3::CallbackBase const & cb) const [member function]'',
       [(''params'', AParams [(''obj'', [(''transfer_ownership'', ''false'')])])]),
     (''bool ns3::TraceSourceAccessor::Connect(ns3::ObjectBase * obj, std::string context, ns3::CallbackBase const & cb) const [member function]'',
       [(''params'', AParams [(''obj'', [(''transfer_ownership'', ''false'')])])]),
     (''bool ns3::TraceSourceAccessor::DisconnectWithoutContext(ns3::ObjectBase * obj, ns3::CallbackBase const & cb) const [member function]'',
       [(''params'', AParams [(''obj'', [(''transfer_ownership'', ''false'')])])]),
     (''bool ns3::TraceSourceAccessor::Disconnect(ns3::ObjectBase * obj, std::string context, ns3::CallbackBase const & cb) const [member function]'',
       [(''params'', AParams [(''obj'', [(''transfer_ownership'', ''false'')])])]),
     (''bool ns3::AttributeAccessor::Set(ns3::ObjectBase * object, ns3::AttributeValue const & value) const [member function]'',
       [(''params'', AParams [(''object'', [(''transfer_ownership'', ''false'')])])]),
     (''ns3::EmpiricalVariable::EmpiricalVariable(ns3::RandomVariableBase const & variable) [constructor]'',
       [(''ignore'', ANone)]),
     (''static ns3::AttributeList * ns3::AttributeList::GetGlobal() [member function]'',
       [(''caller_owns_return'', AStr ''false'')]),
     (''void ns3::CommandLine::Parse(int argc, char * * argv) const [member function]'',
       [(''ignore'', ANone)]),
     (''extern void ns3::PythonCompleteConstruct(ns3::Ptr<ns3::Object> object, ns3::TypeId typeId, ns3::AttributeList const & attributes) [free function]'',
       [(''ignore'', ANone)]),
     (''ns3::Ptr<ns3::Ipv4RoutingProtocol> ns3::Ipv4ListRouting::GetRoutingProtocol(uint32_t index, int16_t & priority) const [member function]'',
       [(''params'', AParams [(''priority'', [(''direction'', ''out'')])])]),
     (''ns3::Ipv4RoutingTableEntry * ns3::GlobalRouter::GetInjectedRoute(uint32_t i) [member function]'',
       [(''params'', AParams [(''return'', [(''caller_owns_return'', ''false'')])])]),
     (''ns3::Ipv4RoutingTableEntry * ns3::Ipv4GlobalRouting::GetRoute(uint32_t i) const [member function]'',
       [(''params'', AParams [(''return'', [(''caller_owns_return'', ''false'')])])]),
     (''::ns3::TestCase'',
       [(''ignore'', AStr ''true'')]),
     (''::ns3::TestRunner'',
       [(''ignore'', AStr ''true'')]),
     (''::ns3::TestSuite'',
       [(''ignore'', AStr ''true'')])]"

section \<open>The path of a header inside ns3\<close>

text \<open>\<^verbatim>\<open>os.path.join(*l)\<close>: without arguments a TypeError.\<close>

definition join_all :: "string list \<Rightarrow> py_error + string" where
  "join_all l = (case l of [] \<Rightarrow> Inl TypeError | x # xs \<Rightarrow> Inr (foldl path_join x xs))"

text \<open>
  The loop of \<^verbatim>\<open>ns3modulescan.py\<close>. The head of \<^verbatim>\<open>/\<close> is \<^verbatim>\<open>/\<close> itself, so the loop need not end: the
  value \<open>None\<close>.
\<close>

partial_function (option) relative_path_loop :: "string list \<Rightarrow> string \<Rightarrow> (py_error + string) option" where
  "relative_path_loop l head =
     (if head = '''' then Some (Inl AssertionError)
      else case path_split head of (head, tail) \<Rightarrow>
        if tail = ''ns3'' then Some (join_all l) else relative_path_loop (tail # l) head)"

definition get_ns3_relative_path :: "string \<Rightarrow> (py_error + string) option" where
  "get_ns3_relative_path path = relative_path_loop [] path"

text \<open>
  The loop of \<^verbatim>\<open>ns3modulescan-modular.py\<close>, which stops with a ValueError where the head does not
  change. An empty path has no relative path: the result \<open>None\<close>, as in the code.
\<close>

lemma path_split_shorter:
  assumes "path_split p = (head, tail)" and "head \<noteq> p"
  shows "length head < length p"
proof -
  define h where "h = take (length p - length tail) p"
  define b where "b = rev (dropWhile (\<lambda>c. c = CHR ''/'') (rev h))"
  have head: "head = (if b = '''' then h else b)"
  proof -
    have parts: "head = fst (path_split p)" "tail = basename p"
      using assms(1) by (simp, simp add: path_split_def Let_def)
    show ?thesis unfolding h_def b_def parts path_split_def Let_def by (simp only: fst_conv)
  qed
  have "h = p \<or> length h < length p" by (auto simp: h_def)
  moreover have "b = h \<or> length b < length h"
  proof -
    have "length b \<le> length h" unfolding b_def using length_dropWhile_le [of _ "rev h"] by simp
    moreover have "b = h" if "length b = length h"
    proof -
      have "rev h = takeWhile (\<lambda>c. c = CHR ''/'') (rev h) @ rev b" by (simp add: b_def)
      moreover from this that have "takeWhile (\<lambda>c. c = CHR ''/'') (rev h) = []"
        by (metis add_cancel_left_left length_0_conv length_append length_rev)
      ultimately show ?thesis by simp
    qed
    ultimately show ?thesis by linarith
  qed
  ultimately show ?thesis using head assms(2) by (auto split: if_splits)
qed

function relative_path_modular :: "string list \<Rightarrow> string \<Rightarrow> py_error + string" where
  "relative_path_modular l head =
     (if head = '''' then Inl AssertionError
      else case path_split head of (new_head, tail) \<Rightarrow>
        if new_head = head then Inl ValueError
        else if tail = ''ns3'' then join_all l
        else relative_path_modular (tail # l) new_head)"
  by pat_completeness auto
termination
  by (relation "measure (\<lambda>(l, head). length head)") (auto dest: path_split_shorter [OF sym])

declare relative_path_modular.simps [simp del]

definition get_ns3_relative_path_modular :: "string \<Rightarrow> py_error + string option" where
  "get_ns3_relative_path_modular path =
     (if path = '''' then Inr None else res_bind (relative_path_modular [] path) (\<lambda>p. Inr (Some p)))"

section \<open>Declarations and the state of a hook\<close>

datatype decl_kind =
  MemberFunction | Constructor | FreeFunction | OtherCallable | ClassDecl | Enumeration | OtherDecl

text \<open>The attributes of a declaration that the hooks read; \<open>d_defaults\<close> are the default values of its arguments.\<close>

record decl =
  d_kind :: decl_kind
  d_name :: string
  d_parent :: string
  d_file :: string
  d_str :: string
  d_decl_string :: string
  d_demangled :: string
  d_defaults :: "string option list"

record parser_lib =
  template_args :: "string \<Rightarrow> string list"
  is_instantiation :: "string \<Rightarrow> bool"
  template_split :: "string \<Rightarrow> string \<times> string list"
  location_of :: "string \<Rightarrow> string option"

text \<open>What a call changes: both dictionaries it is given, the arguments of the declaration, the global table.\<close>

record hook_state =
  ann :: annots
  pann :: "(string, (string, string) dict) dict"
  defaults :: "string option list"
  table :: "(string, annots) dict"

definition dupdate :: "('k, 'v) dict \<Rightarrow> ('k, 'v) dict \<Rightarrow> ('k, 'v) dict" where
  "dupdate new d = fold (\<lambda>(k, v). dset k v) new d"

definition mark :: "string \<Rightarrow> annot \<Rightarrow> hook_state \<Rightarrow> hook_state" where
  "mark k v st = st\<lparr>ann := dset k v (ann st)\<rparr>"

definition is_callable :: "decl \<Rightarrow> bool" where
  "is_callable d \<longleftrightarrow> d_kind d \<in> {MemberFunction, Constructor, FreeFunction, OtherCallable}"

definition is_method_of :: "string \<Rightarrow> decl \<Rightarrow> bool" where
  "is_method_of c d \<longleftrightarrow> d_kind d = MemberFunction \<and> d_parent d = c"

section \<open>The steps both hooks share\<close>

definition annotate_get_object :: "(string \<Rightarrow> string list) \<Rightarrow> string \<Rightarrow> decl \<Rightarrow> hook_state \<Rightarrow> hook_state" where
  "annotate_get_object args name d st =
     (if is_method_of ''Object'' d \<and> d_name d = ''GetObject'' \<and> args name = [''ns3::Object'']
      then mark ''template_instance_names'' (AStr ''ns3::Object=>GetObject'') st else st)"

definition annotate_simulator :: "decl \<Rightarrow> hook_state \<Rightarrow> hook_state" where
  "annotate_simulator d st =
     (let st = (if is_method_of ''Simulator'' d \<and> starts_with (d_name d) ''Schedule''
                then mark ''ignore'' ANone st else st)
      in if is_method_of ''Simulator'' d \<and> d_name d = ''Run'' then mark ''ignore'' ATrue st else st)"

definition fix_default :: "string option \<Rightarrow> string option" where
  "fix_default v =
     (if v = Some ''ns3::MilliSeconds( )'' then Some ''ns3::MilliSeconds(0)''
      else if v = Some ''ns3::Seconds( )'' then Some ''ns3::Seconds(0)'' else v)"

definition fix_defaults :: "decl \<Rightarrow> hook_state \<Rightarrow> hook_state" where
  "fix_defaults d st =
     (if is_callable d then st\<lparr>defaults := map fix_default (defaults st)\<rparr> else st)"

text \<open>The rules for a class; the flag says that the hook returns.\<close>

definition class_rules :: "decl \<Rightarrow> hook_state \<Rightarrow> hook_state \<times> bool" where
  "class_rules d st =
     (if starts_with (d_decl_string d) ''::ns3::SimpleRefCount<''
      then (mark ''automatic_type_narrowing'' (AStr ''true'')
             (mark ''peekref_method'' (AStr ''GetReferenceCount'')
               (mark ''decref_method'' (AStr ''Unref'') (mark ''incref_method'' (AStr ''Ref'') st))), True)
      else if starts_with (d_decl_string d) ''::ns3::Callback<'' then (mark ''ignore'' ANone st, True)
      else if starts_with (d_decl_string d) ''::ns3::TracedCallback<'' then (mark ''ignore'' ANone st, True)
      else if starts_with (d_decl_string d) ''::ns3::Ptr<'' then (mark ''ignore'' ANone st, True)
      else case dget (table st) (d_decl_string d) of
             None \<Rightarrow> (st, False)
           | Some annotations \<Rightarrow> (st\<lparr>ann := dupdate annotations (ann st)\<rparr>, False))"

text \<open>
  The loop over the items of a table entry. The entry itself loses its \<^verbatim>\<open>params\<close>; an iterator of
  Python 3 over the entry notices that at its next step, a copy of the items does not.
\<close>

definition move_params :: "annot \<Rightarrow> hook_state \<Rightarrow> hook_state" where
  "move_params v st = (case v of AParams ps \<Rightarrow> st\<lparr>pann := dupdate ps (pann st)\<rparr> | _ \<Rightarrow> st)"

fun items_loop :: "bool \<Rightarrow> nat \<Rightarrow> annots \<Rightarrow> annots \<Rightarrow> hook_state \<Rightarrow> py_error + annots \<times> hook_state" where
  "items_loop live before [] annotations st =
     (if live \<and> length annotations \<noteq> before then Inl SizeChanged else Inr (annotations, st))"
| "items_loop live before ((key, value) # rest) annotations st =
     (if live \<and> length annotations \<noteq> before then Inl SizeChanged
      else if key = ''params''
      then items_loop live before rest (ddel ''params'' annotations) (move_params value st)
      else items_loop live before rest annotations st)"

definition callable_rules :: "bool \<Rightarrow> decl \<Rightarrow> hook_state \<Rightarrow> py_error + hook_state" where
  "callable_rules live d st =
     (if d_kind d \<in> {FreeFunction, MemberFunction, Constructor}
      then case dget (table st) (d_str d) of
             None \<Rightarrow> Inr st
           | Some annotations \<Rightarrow>
               res_bind (items_loop live (length annotations) annotations annotations st) (\<lambda>(annotations', st').
                 Inr (st'\<lparr>ann := dupdate annotations' (ann st'), table := dset (d_str d) annotations' (table st')\<rparr>))
      else Inr st)"

definition peek_pointer :: "decl \<Rightarrow> bool" where
  "peek_pointer d \<longleftrightarrow> d_kind d = FreeFunction \<and> d_name d = ''PeekPointer''"

section \<open>The hook of the scanner of all modules\<close>

definition pre_scan_hook :: "bool \<Rightarrow> parser_lib \<Rightarrow> decl \<Rightarrow> hook_state \<Rightarrow> (py_error + hook_state) option" where
  "pre_scan_hook py3 lib d st =
     map_option (\<lambda>path. res_bind path (\<lambda>ns3_header.
       let st = mark ''pygen_comment'' (AStr (ns3_header @ '': '' @ d_str d)) st;
           st = annotate_get_object (template_args lib) (d_demangled d) d st;
           st = annotate_simulator d st;
           st = fix_defaults d st;
           (st, returned) = (if d_kind d = ClassDecl then class_rules d st else (st, False))
       in if returned then Inr st
          else if peek_pointer d then Inr (mark ''ignore'' ANone st)
          else callable_rules py3 d st))
     (get_ns3_relative_path (d_file d))"

section \<open>The hook of the scanner of one module\<close>

text \<open>\<^verbatim>\<open>repr\<close> of a string, for the characters of a Python 3 string up to U+00FF.\<close>

definition hex_digit :: "nat \<Rightarrow> char" where
  "hex_digit n = ''0123456789abcdef'' ! n"

definition repr_char :: "char \<Rightarrow> char \<Rightarrow> string" where
  "repr_char q c =
     (let n = of_char c :: nat; esc = CHR 0x5C
      in if c = q \<or> c = esc then [esc, c]
         else if n = 9 then [esc, CHR ''t''] else if n = 10 then [esc, CHR ''n'']
         else if n = 13 then [esc, CHR ''r'']
         else if n < 32 \<or> (127 \<le> n \<and> n \<le> 160) \<or> n = 173
         then [esc, CHR ''x'', hex_digit (n div 16), hex_digit (n mod 16)]
         else [c])"

definition py_repr :: "string \<Rightarrow> string" where
  "py_repr s =
     (let single = CHR 0x27; double = CHR 0x22;
          q = (if single \<in> set s \<and> double \<notin> set s then double else single)
      in [q] @ concat (map (repr_char q) s) @ [q])"

definition replace_dash :: "string \<Rightarrow> string" where
  "replace_dash s = map (\<lambda>c. if c = CHR ''-'' then CHR ''_'' else c) s"

fun param_modules :: "parser_lib \<Rightarrow> (string, string) dict \<Rightarrow> string list \<Rightarrow> py_error + string list" where
  "param_modules lib headers_map [] = Inr []"
| "param_modules lib headers_map (t # ts) =
     (case location_of lib t of
        None \<Rightarrow> param_modules lib headers_map ts
      | Some file_name \<Rightarrow>
          (case get_ns3_relative_path_modular file_name of
             Inl e \<Rightarrow> if e = ValueError then param_modules lib headers_map ts else Inl e
           | Inr None \<Rightarrow> Inl KeyError
           | Inr (Some h) \<Rightarrow>
               (case dget headers_map h of
                  None \<Rightarrow> Inl KeyError
                | Some m \<Rightarrow> res_bind (param_modules lib headers_map ts) (\<lambda>ms. Inr (m # ms)))))"

text \<open>An instantiation with a parameter of this module belongs to this module.\<close>

definition class_module ::
  "parser_lib \<Rightarrow> (string, string) dict \<Rightarrow> string \<Rightarrow> decl \<Rightarrow> string \<Rightarrow> py_error + string" where
  "class_module lib headers_map self_module d definition_module =
     (if is_instantiation lib (d_decl_string d)
      then res_bind (param_modules lib headers_map (snd (template_split lib (d_name d)))) (\<lambda>mods.
             Inr (if self_module \<in> set mods then self_module else definition_module))
      else Inr definition_module)"

definition import_class :: "string \<Rightarrow> string \<Rightarrow> hook_state \<Rightarrow> hook_state" where
  "import_class self_module definition_module st =
     (if definition_module \<noteq> self_module
      then mark ''import_from_module'' (AStr (''ns.'' @ replace_dash definition_module)) st else st)"

definition import_enum :: "string \<Rightarrow> string \<Rightarrow> hook_state \<Rightarrow> hook_state" where
  "import_enum self_module definition_module st =
     (if definition_module \<noteq> self_module
      then mark ''import_from_module'' (AStr (''ns.'' @ definition_module)) st else st)"

text \<open>The part of the hook behind the lookup of the module of the header.\<close>

definition module_hook ::
  "parser_lib \<Rightarrow> (string, string) dict \<Rightarrow> string \<Rightarrow> string \<Rightarrow> string \<Rightarrow> decl \<Rightarrow> hook_state \<Rightarrow> py_error + hook_state" where
  "module_hook lib headers_map self_module ns3_header definition_module d st =
     (let st = mark ''pygen_comment''
                 (AStr (ns3_header @ '' (module '' @ py_repr definition_module @ ''): '' @ d_str d)) st;
          st = annotate_get_object (template_args lib) (d_str d) d st;
          st = annotate_simulator d st;
          st = fix_defaults d st
      in case d_kind d of
           ClassDecl \<Rightarrow>
             res_bind (class_module lib headers_map self_module d definition_module) (\<lambda>m.
               Inr (fst (class_rules d (import_class self_module m st))))
         | Enumeration \<Rightarrow> Inr (import_enum self_module definition_module st)
         | FreeFunction \<Rightarrow>
             if definition_module \<noteq> self_module then Inr (mark ''ignore'' ANone st)
             else if peek_pointer d then Inr (mark ''ignore'' ANone st)
             else callable_rules False d st
         | _ \<Rightarrow> callable_rules False d st)"

definition PreScanHook_call ::
  "parser_lib \<Rightarrow> (string, string) dict \<Rightarrow> string \<Rightarrow> decl \<Rightarrow> hook_state \<Rightarrow> py_error + hook_state" where
  "PreScanHook_call lib headers_map self_module d st =
     (case get_ns3_relative_path_modular (d_file d) of
        Inl e \<Rightarrow> if e = ValueError then Inr st else Inl e
      | Inr None \<Rightarrow> Inr st
      | Inr (Some ns3_header) \<Rightarrow>
          if ns3_header = '''' then Inr st
          else (case dget headers_map ns3_header of
                  None \<Rightarrow> Inl KeyError
                | Some definition_module \<Rightarrow>
                    module_hook lib headers_map self_module ns3_header definition_module d st))"

section \<open>The list of callback classes\<close>

text \<open>\<^verbatim>\<open>repr\<close> of a list of strings; a class is its name and its declaration string.\<close>

definition repr_list :: "string list \<Rightarrow> string" where
  "repr_list xs = ''['' @ join '', '' (map py_repr xs) @ '']''"

fun callback_lines :: "parser_lib \<Rightarrow> (string \<times> string) list \<Rightarrow> py_error + string" where
  "callback_lines lib [] = Inr ''''"
| "callback_lines lib ((name, decl_string) # rest) =
     (if \<not> starts_with name ''Callback<'' then callback_lines lib rest
      else if \<not> is_instantiation lib decl_string then Inl AssertionError
      else res_bind (callback_lines lib rest) (\<lambda>text.
             Inr (''    '' @ repr_list (snd (template_split lib decl_string)) @ '','' @ [CHR 0x0A] @ text)))"

definition scan_callback_classes :: "parser_lib \<Rightarrow> (string \<times> string) list \<Rightarrow> py_error + string" where
  "scan_callback_classes lib classes =
     res_bind (callback_lines lib classes) (\<lambda>text.
       Inr (''callback_classes = ['' @ [CHR 0x0A] @ text @ '']'' @ [CHR 0x0A]))"

section \<open>The classifier of headers\<close>

text \<open>The file name of a declaration is reduced to its base name; the keys are the headers as the modules list them.\<close>

definition classify :: "(string, string) dict \<Rightarrow> decl \<Rightarrow> string" where
  "classify headers_map d =
     (case dget headers_map (basename (d_file d)) of Some s \<Rightarrow> s | None \<Rightarrow> ''__main__'')"

definition get_section_precedence :: "(string, nat) dict \<Rightarrow> string \<Rightarrow> py_error + int" where
  "get_section_precedence section_precedences section_name =
     (if section_name = ''__main__'' then Inr (- 1)
      else case dget section_precedences section_name of
             Some n \<Rightarrow> Inr (int n) | None \<Rightarrow> Inl KeyError)"

section \<open>The scan of all modules\<close>

text \<open>What the scanners ask of files and of the parser, in order.\<close>

datatype scan_call =
    OpenFile string
  | CreateParser string string
  | AddHook "(string, string) dict" string
  | ParseInit "string list" "string list" "string list" string
  | ScanTypes
  | WriteFile string string
  | ScanMethods
  | ScanFunctions
  | ParseFinalize
  | CloseFile string
  | Unlink string
  | MakeDirs string
  | Chmod string nat

text \<open>A module is the pair of its dependencies and its headers.\<close>

type_synonym ns3_modules = "(string, string list \<times> string list) dict"

record scan_plan =
  sections :: "(string \<times> string \<times> string option) list"
  header_sections :: "(string, string) dict"
  precedences :: "(string, nat) dict"

definition module_graph :: "ns3_modules \<Rightarrow> (string \<times> string) list" where
  "module_graph ns3_modules =
     concat (map (\<lambda>m. map (\<lambda>dep. (dep, m)) (sort (fst (the (dget ns3_modules m))))) (sort (dkeys ns3_modules)))"

definition section_name_of :: "string \<Rightarrow> string" where
  "section_name_of m = ''ns3_module_'' @ replace_dash m"

definition section_file :: "string \<Rightarrow> string \<Rightarrow> string" where
  "section_file pygen_file_name section_name =
     path_join (fst (path_split pygen_file_name)) (section_name @ ''.py'')"

fun plan_sections :: "string \<Rightarrow> ns3_modules \<Rightarrow> nat \<Rightarrow> string list \<Rightarrow> scan_plan \<Rightarrow> py_error + scan_plan" where
  "plan_sections pygen_file_name ns3_modules prec [] plan = Inr plan"
| "plan_sections pygen_file_name ns3_modules prec (m # ms) plan =
     (let section_name = section_name_of m
      in case dget ns3_modules m of
           None \<Rightarrow> Inl KeyError
         | Some (deps, headers) \<Rightarrow>
             plan_sections pygen_file_name ns3_modules (Suc prec) ms
               \<lparr>sections = sections plan @
                   [(section_name, section_file pygen_file_name section_name, Some (section_name @ ''__local''))],
                header_sections = fold (\<lambda>h. dset h section_name) headers (header_sections plan),
                precedences = dset section_name prec (precedences plan)\<rparr>)"

definition initial_plan :: "string \<Rightarrow> scan_plan" where
  "initial_plan pygen_file_name =
     \<lparr>sections = [(''__main__'', pygen_file_name, None)], header_sections = [], precedences = []\<rparr>"

definition scan_plan_of ::
  "bool \<Rightarrow> (string counts \<Rightarrow> string list) \<Rightarrow> string \<Rightarrow> ns3_modules \<Rightarrow> py_error + scan_plan" where
  "scan_plan_of py3 keys pygen_file_name ns3_modules =
     (if py3 then Inl AttributeError
      else case topsort keys (module_graph ns3_modules) of
             Inl (CycleError answer np ch) \<Rightarrow> Inl DependencyCycle
           | Inl (MissingKey k) \<Rightarrow> Inl KeyError
           | Inr sorted_ns3_modules \<Rightarrow>
               plan_sections pygen_file_name ns3_modules 0 sorted_ns3_modules (initial_plan pygen_file_name))"

definition ns3_module_scan ::
  "bool \<Rightarrow> (string counts \<Rightarrow> string list) \<Rightarrow> parser_lib \<Rightarrow> (string \<times> string) list \<Rightarrow> ns3_modules
    \<Rightarrow> string \<Rightarrow> string \<Rightarrow> string \<Rightarrow> string \<Rightarrow> py_error + scan_call list" where
  "ns3_module_scan py3 keys lib classes ns3_modules top_builddir pygen_file_name everything_h cflags =
     res_bind (scan_plan_of py3 keys pygen_file_name ns3_modules) (\<lambda>plan.
     res_bind (scan_callback_classes lib classes) (\<lambda>callbacks.
       let files = map (fst \<circ> snd) (sections plan);
           callbacks_file = path_join (fst (path_split pygen_file_name)) ''callbacks_list.py''
       in Inr (map OpenFile files
            @ [CreateParser ''ns3'' ''ns3'', AddHook [] '''',
               ParseInit [everything_h] [top_builddir, fst (path_split everything_h)] [top_builddir]
                 (''--gccxml-cxxflags '' @ [CHR 0x22] @ cflags @ '' -DPYTHON_SCAN'' @ [CHR 0x22]),
               ScanTypes, OpenFile callbacks_file, WriteFile callbacks_file callbacks, CloseFile callbacks_file,
               ScanMethods, ScanFunctions, ParseFinalize]
            @ map CloseFile files)))"

section \<open>The scan of one module\<close>

definition scan_header :: "(string \<Rightarrow> bool) \<Rightarrow> string \<Rightarrow> string \<Rightarrow> string \<Rightarrow> string" where
  "scan_header exists_file top_builddir module_name output_file_name =
     (let own = path_join (fst (path_split output_file_name)) ''scan-header.h'';
          module_h = module_name @ ''-module.h'';
          built = path_join (path_join top_builddir ''ns3'') module_h
      in if exists_file own then own
         else if exists_file built then built
         else path_join (path_join (path_join top_builddir ''include'') ''ns3'') module_h)"

definition ns3_module_scan_modular ::
  "(string \<Rightarrow> bool) \<Rightarrow> parser_lib \<Rightarrow> (string \<times> string) list
    \<Rightarrow> string \<Rightarrow> string \<Rightarrow> (string, string) dict \<Rightarrow> string \<Rightarrow> string \<Rightarrow> py_error + scan_call list" where
  "ns3_module_scan_modular exists_file lib classes top_builddir module_name headers_map output_file_name cflags =
     res_bind (scan_callback_classes lib classes) (\<lambda>callbacks.
       let dir = fst (path_split output_file_name);
           callbacks_file = path_join dir ''callbacks_list.py''
       in Inr
           [CreateParser (''ns.'' @ replace_dash module_name) ''ns3'', AddHook headers_map module_name,
            Unlink output_file_name, MakeDirs dir, OpenFile output_file_name,
            ParseInit [scan_header exists_file top_builddir module_name output_file_name] [top_builddir]
              [top_builddir, path_join top_builddir ''include''] (''-std=c++17 '' @ cflags),
            ScanTypes, OpenFile callbacks_file, WriteFile callbacks_file callbacks, CloseFile callbacks_file,
            ScanMethods, ScanFunctions, ParseFinalize, CloseFile output_file_name,
            Chmod output_file_name 256])"

text \<open>
  The main program: the calls and the exit status. The header table is read from a JSON file when
  the third argument names one and evaluated as an expression otherwise.
\<close>

definition scan_main ::
  "(string \<Rightarrow> bool) \<Rightarrow> (string \<Rightarrow> py_error + (string, string) dict) \<Rightarrow> (string \<Rightarrow> py_error + (string, string) dict)
    \<Rightarrow> parser_lib \<Rightarrow> (string \<times> string) list \<Rightarrow> string list \<Rightarrow> py_error + scan_call list \<times> int" where
  "scan_main exists_file load_json eval_dict lib classes argv =
     (case argv of
        [_, top_builddir, module_path, module_headers, output_file_name, cflags] \<Rightarrow>
          res_bind (if exists_file module_headers then load_json module_headers else eval_dict module_headers) (\<lambda>headers.
          res_bind (ns3_module_scan_modular exists_file lib classes top_builddir module_path headers output_file_name cflags)
            (\<lambda>calls. Inr (calls, 0)))
      | _ \<Rightarrow> Inr ([], 1))"

section \<open>The two searches for the relative path\<close>

lemma path_split_fixed: "path_split p = (p, tail) \<Longrightarrow> tail = ''''"
proof -
  assume split: "path_split p = (p, tail)"
  let ?h = "take (length p - length (basename p)) p"
  have "length (fst (path_split p)) \<le> length ?h"
    using length_dropWhile_le [of "\<lambda>c. c = CHR ''/''" "rev ?h"] by (auto simp: path_split_def Let_def)
  then have "length p \<le> length ?h" by (simp add: split)
  then have "basename p = '''' \<or> p = ''''" by (cases "basename p"; cases p) auto
  then show ?thesis using split by (auto simp: path_split_def Let_def basename_def)
qed

lemma relative_path_loop_agrees:
  "relative_path_modular l head \<noteq> Inl ValueError \<Longrightarrow>
     relative_path_loop l head = Some (relative_path_modular l head)"
proof (induction l head rule: relative_path_modular.induct)
  case (1 l head)
  show ?case
  proof (cases "head = ''''")
    case False
    obtain new_head tail where split: "path_split head = (new_head, tail)" by force
    with 1 False show ?thesis
      by (auto simp: relative_path_modular.simps [of l head] relative_path_loop.simps [of l head] split: if_splits)
  qed (simp add: relative_path_modular.simps relative_path_loop.simps)
qed

lemma relative_path_loop_stuck:
  assumes "relative_path_loop l head = Some r" and "head \<noteq> ''''"
  shows "fst (path_split head) \<noteq> head"
proof -
  have "head \<noteq> '''' \<longrightarrow> fst (path_split head) \<noteq> head"
  proof (rule relative_path_loop.raw_induct [where P = "\<lambda>l head r. head \<noteq> '''' \<longrightarrow> fst (path_split head) \<noteq> head"])
    fix f :: "string list \<Rightarrow> string \<Rightarrow> (py_error + string) option" and l :: "string list" and head r
    assume IH: "\<And>l head r. f l head = Some r \<Longrightarrow> head \<noteq> '''' \<longrightarrow> fst (path_split head) \<noteq> head"
      and step: "(if head = '''' then Some (Inl AssertionError)
        else case path_split head of (head, tail) \<Rightarrow>
          if tail = ''ns3'' then Some (join_all l) else f (tail # l) head) = Some r"
    show "head \<noteq> '''' \<longrightarrow> fst (path_split head) \<noteq> head"
    proof (intro impI notI)
      assume "head \<noteq> ''''" and fixed: "fst (path_split head) = head"
      then obtain tail where split: "path_split head = (head, tail)" by (metis prod.collapse)
      with path_split_fixed have "tail \<noteq> ''ns3''" by fastforce
      with step split \<open>head \<noteq> ''''\<close> have "f (tail # l) head = Some r" by simp
      with IH \<open>head \<noteq> ''''\<close> fixed show False by blast
    qed
  qed (rule assms(1))
  with assms(2) show ?thesis by simp
qed

lemma relative_path_loop_None:
  "relative_path_modular l head = Inl ValueError \<Longrightarrow> relative_path_loop l head = None"
proof (induction l head rule: relative_path_modular.induct)
  case (1 l head)
  obtain new_head tail where split: "path_split head = (new_head, tail)" by force
  have head: "head \<noteq> ''''" using "1.prems" by (auto simp: relative_path_modular.simps)
  show ?case
  proof (cases "new_head = head")
    case True
    then show ?thesis
      using head split relative_path_loop_stuck [of l head] by (cases "relative_path_loop l head") auto
  next
    case False
    with "1.prems" head split have "tail \<noteq> ''ns3''"
      by (auto simp: relative_path_modular.simps [of l head] join_all_def split: list.splits)
    with False "1.IH" "1.prems" head split show ?thesis
      by (simp add: relative_path_modular.simps [of l head] relative_path_loop.simps [of l head])
  qed
qed

lemma relative_path_both:
  assumes "get_ns3_relative_path_modular path = Inr (Some p)"
  shows "get_ns3_relative_path path = Some (Inr p)"
proof -
  have "path \<noteq> ''''" "relative_path_modular [] path = Inr p"
    using assms by (auto simp: get_ns3_relative_path_modular_def res_bind_eq_Inr split: if_splits)
  then show ?thesis using relative_path_loop_agrees [of "[]" path] by (simp add: get_ns3_relative_path_def)
qed

text \<open>
  Claim C31: the two scanners find the same path of a header; where the modular one finds
  that the file is not in ns3, the other one never returns.
\<close>
theorem relative_path_scanners_agree:
  "get_ns3_relative_path path =
     (case get_ns3_relative_path_modular path of
        Inr (Some p) \<Rightarrow> Some (Inr p)
      | Inr None \<Rightarrow> Some (Inl AssertionError)
      | Inl e \<Rightarrow> if e = ValueError then None else Some (Inl e))"
proof (cases "path = ''''")
  case True
  then show ?thesis
    by (simp add: get_ns3_relative_path_def get_ns3_relative_path_modular_def relative_path_loop.simps)
next
  case False
  then show ?thesis
    using relative_path_loop_agrees [of "[]" path] relative_path_loop_None [of "[]" path]
    by (cases "relative_path_modular [] path") (auto simp: get_ns3_relative_path_def get_ns3_relative_path_modular_def)
qed

text \<open>A file below a directory \<^verbatim>\<open>ns3\<close>: its path from there is found again.\<close>

definition clean_name :: "string \<Rightarrow> bool" where
  "clean_name c \<longleftrightarrow> c \<noteq> '''' \<and> CHR ''/'' \<notin> set c \<and> c \<noteq> ''ns3''"

lemma path_split_join [simp]:
  assumes "CHR ''/'' \<notin> set c" and "a \<noteq> ''''" and "last a \<noteq> CHR ''/''"
  shows "path_split (a @ ''/'' @ c) = (a, c)"
proof -
  have "basename (a @ ''/'' @ c) = c"
  proof -
    have "takeWhile (\<lambda>x. x \<noteq> CHR ''/'') (rev c @ CHR ''/'' # rev a) = rev c"
      using assms(1) by (subst takeWhile_append2) auto
    then show ?thesis by (simp add: basename_def)
  qed
  moreover have "dropWhile (\<lambda>c. c = CHR ''/'') (''/'' @ rev a) = rev a"
    using assms(2,3) by (cases a rule: rev_cases) auto
  moreover have "\<exists>x \<in> set a. x \<noteq> CHR ''/''" using assms(2,3) last_in_set by blast
  ultimately show ?thesis by (simp add: path_split_def Let_def)
qed

lemma relative_path_modular_step:
  assumes "clean_name c" and "a \<noteq> ''''" and "last a \<noteq> CHR ''/''"
  shows "relative_path_modular l (a @ ''/'' @ c) = relative_path_modular (c # l) a"
proof -
  have "path_split (a @ ''/'' @ c) = (a, c)" using assms by (intro path_split_join) (auto simp: clean_name_def)
  with assms show ?thesis
    by (subst relative_path_modular.simps) (auto simp: clean_name_def)
qed

lemma last_clean_name: "clean_name c \<Longrightarrow> last c \<noteq> CHR ''/''"
  by (auto simp: clean_name_def) (metis last_in_set)

lemma relative_path_modular_walk:
  assumes "list_all clean_name cs" and "a \<noteq> ''''" and "last a \<noteq> CHR ''/''"
  shows "relative_path_modular l (a @ concat (map (\<lambda>c. ''/'' @ c) cs)) = relative_path_modular (cs @ l) a"
  using assms(1)
proof (induction cs arbitrary: l rule: rev_induct)
  case (snoc c cs)
  let ?b = "a @ concat (map (\<lambda>c. ''/'' @ c) cs)"
  have "last ?b \<noteq> CHR ''/''"
  proof (cases cs rule: rev_cases)
    case (snoc cs' c')
    then show ?thesis using snoc.prems last_clean_name by (simp add: clean_name_def)
  qed (use assms in simp)
  then have "relative_path_modular l (?b @ ''/'' @ c) = relative_path_modular (c # l) ?b"
    using snoc.prems assms(2) by (intro relative_path_modular_step) auto
  with snoc show ?case by simp
qed simp

lemma foldl_path_join:
  assumes "list_all clean_name cs" and "p \<noteq> ''''" and "last p \<noteq> CHR ''/''"
  shows "foldl path_join p cs = p @ concat (map (\<lambda>c. ''/'' @ c) cs)"
  using assms
proof (induction cs arbitrary: p)
  case (Cons c cs)
  have "\<not> starts_with c ''/''" using Cons.prems by (cases c) (auto simp: clean_name_def starts_with_def)
  then have "path_join p c = p @ ''/'' @ c" using Cons.prems by (simp add: path_join_def)
  then show ?case
    using Cons.prems Cons.IH [of "p @ ''/'' @ c"] last_clean_name [of c] by (simp add: clean_name_def)
qed simp

lemma join_concat: "join sep (c # cs) = c @ concat (map (\<lambda>c. sep @ c) cs)"
  by (induction cs arbitrary: c) auto



section \<open>The entries of the table with parameters\<close>

lemma items_loop_no_params:
  "''params'' \<notin> set (dkeys items) \<Longrightarrow> length an = before \<Longrightarrow> items_loop live before items an st = Inr (an, st)"
  by (induction items) auto

lemma items_loop_params:
  assumes "distinct (dkeys items)" and "dget items ''params'' = Some v"
    and "length an = n" and "dget an ''params'' \<noteq> None"
  shows "items_loop live n items an st
    = (if live then Inl SizeChanged else Inr (ddel ''params'' an, move_params v st))"
  using assms
proof (induction items)
  case (Cons item rest)
  obtain key val where item: "item = (key, val)" by force
  show ?case
  proof (cases "key = ''params''")
    case True
    with Cons.prems item have v: "val = v" and rest: "''params'' \<notin> set (dkeys rest)" by auto
    have short: "length (ddel ''params'' an) \<noteq> n" using length_ddel [OF Cons.prems(4)] Cons.prems(3) by simp
    show ?thesis
    proof (cases live)
      case True
      with short have "items_loop live n rest (ddel ''params'' an) st' = Inl SizeChanged" for st'
        by (cases rest) auto
      with \<open>key = ''params''\<close> item Cons.prems True show ?thesis by simp
    next
      case False
      have "items_loop False b rest an' st' = Inr (an', st')" for b an' st'
        using rest by (induction rest) auto
      with \<open>key = ''params''\<close> item Cons.prems v False show ?thesis by simp
    qed
  next
    case False
    with Cons item show ?thesis by simp
  qed
qed simp

lemma callable_rules_params:
  assumes "d_kind d \<in> {FreeFunction, MemberFunction, Constructor}"
    and "dget (table st) (d_str d) = Some an" and "distinct (dkeys an)" and "dget an ''params'' = Some v"
  shows "callable_rules True d st = Inl SizeChanged"
    and "\<exists>st'. callable_rules False d st = Inr st' \<and> pann st' = pann (move_params v st)
      \<and> table st' = dset (d_str d) (ddel ''params'' an) (table st)"
proof -
  have table: "table (move_params v st) = table st" by (simp add: move_params_def split: annot.splits)
  show "callable_rules True d st = Inl SizeChanged"
    using assms items_loop_params [of an v an "length an" True st] by (auto simp: callable_rules_def)
  show "\<exists>st'. callable_rules False d st = Inr st' \<and> pann st' = pann (move_params v st)
      \<and> table st' = dset (d_str d) (ddel ''params'' an) (table st)"
    using assms items_loop_params [of an v an "length an" False st] table by (auto simp: callable_rules_def)
qed

lemma callable_rules_no_params:
  assumes "dget (table st) (d_str d) = Some an" and "dget an ''params'' = None"
  shows "\<exists>st'. callable_rules live d st = Inr st' \<and> pann st' = pann st"
  using assms items_loop_no_params [of an an "length an" live st]
  by (auto simp: callable_rules_def dget_None_iff)

lemma prelude_frame [simp]:
  "table (mark k v st) = table st" "pann (mark k v st) = pann st"
  "table (annotate_get_object args name d st) = table st" "pann (annotate_get_object args name d st) = pann st"
  "table (annotate_simulator d st) = table st" "pann (annotate_simulator d st) = pann st"
  "table (fix_defaults d st) = table st" "pann (fix_defaults d st) = pann st"
  by (simp_all add: mark_def annotate_get_object_def annotate_simulator_def fix_defaults_def Let_def)

text \<open>
  For a method or constructor whose entry in the table has parameter annotations,
  the hook of the scanner of all modules fails under Python 3. The hook of the modular scanner adds
  them and removes them from the shared table, so that the next call for the same declaration has
  none to add.
\<close>
theorem params_annotations:
  assumes "d_kind d \<in> {MemberFunction, Constructor}"
    and "dget (table st) (d_str d) = Some an" and "distinct (dkeys an)" and "dget an ''params'' = Some (AParams ps)"
    and "get_ns3_relative_path_modular (d_file d) = Inr (Some header)" and "header \<noteq> ''''"
    and "dget headers_map header = Some m"
  shows "pre_scan_hook True lib d st = Some (Inl SizeChanged)
    \<and> (\<exists>st'. PreScanHook_call lib headers_map self_module d st = Inr st' \<and> pann st' = dupdate ps (pann st)
        \<and> (\<forall>fresh. \<exists>st''. PreScanHook_call lib headers_map self_module d (st'\<lparr>pann := fresh\<rparr>) = Inr st''
              \<and> pann st'' = fresh))"
proof
  have kind: "d_kind d \<in> {FreeFunction, MemberFunction, Constructor}" "d_kind d \<noteq> ClassDecl" "\<not> peek_pointer d"
    using assms(1) by (auto simp: peek_pointer_def)
  have "get_ns3_relative_path (d_file d) = Some (Inr header)"
    using assms(5) by (simp add: relative_path_both)
  with kind assms(2-4) show "pre_scan_hook True lib d st = Some (Inl SizeChanged)"
    by (simp add: pre_scan_hook_def Let_def callable_rules_params(1))
  define pre where "pre st = fix_defaults d (annotate_simulator d (annotate_get_object (template_args lib) (d_str d) d
    (mark ''pygen_comment'' (AStr (header @ '' (module '' @ py_repr m @ ''): '' @ d_str d)) st)))" for st
  have call: "PreScanHook_call lib headers_map self_module d st = callable_rules False d (pre st)" for st
    using assms(1,5-7) by (auto simp: PreScanHook_call_def module_hook_def pre_def Let_def)
  have frame: "table (pre st) = table st" "pann (pre st) = pann st" for st by (simp_all add: pre_def)
  obtain st' where st': "callable_rules False d (pre st) = Inr st'" "pann st' = dupdate ps (pann st)"
    "table st' = dset (d_str d) (ddel ''params'' an) (table st)"
    using callable_rules_params(2) [OF kind(1), of "pre st" an "AParams ps"] assms(2-4)
    by (auto simp: frame move_params_def)
  moreover have "\<exists>st''. callable_rules False d (pre (st'\<lparr>pann := fresh\<rparr>)) = Inr st'' \<and> pann st'' = fresh" for fresh
    using callable_rules_no_params [of "pre (st'\<lparr>pann := fresh\<rparr>)" d "ddel ''params'' an" False] st'(3)
    by (simp add: frame)
  ultimately show "\<exists>st'. PreScanHook_call lib headers_map self_module d st = Inr st' \<and> pann st' = dupdate ps (pann st)
        \<and> (\<forall>fresh. \<exists>st''. PreScanHook_call lib headers_map self_module d (st'\<lparr>pann := fresh\<rparr>) = Inr st''
              \<and> pann st'' = fresh)"
    by (auto simp: call)
qed

definition some_lib :: parser_lib where
  "some_lib = \<lparr>template_args = \<lambda>s. [], is_instantiation = \<lambda>s. False,
     template_split = \<lambda>s. (s, []), location_of = \<lambda>s. None\<rparr>"

definition lookup_decl :: decl where
  "lookup_decl = \<lparr>d_kind = MemberFunction, d_name = ''GetSeed'', d_parent = ''RandomVariable'',
     d_file = ''/b/ns3/a.h'', d_str = ''void ns3::RandomVariable::GetSeed(uint32_t * seed) const [member function]'',
     d_decl_string = '''', d_demangled = '''', d_defaults = [None]\<rparr>"

lemma params_annotations_witness:
  "\<exists>st. pre_scan_hook True some_lib lookup_decl st = Some (Inl SizeChanged)
    \<and> (\<exists>st'. PreScanHook_call some_lib [(''a.h'', ''core'')] ''core'' lookup_decl st = Inr st'
        \<and> pann st' = [(''seed'', [(''direction'', ''out''), (''array_length'', ''6'')])])"
proof -
  let ?ps = "[(''seed'', [(''direction'', ''out''), (''array_length'', ''6'')])]"
  let ?st = "\<lparr>ann = [], pann = [], defaults = [None], table = type_annotations\<rparr>"
  have "d_kind lookup_decl \<in> {MemberFunction, Constructor}" by (simp add: lookup_decl_def)
  moreover have "dget (table ?st) (d_str lookup_decl) = Some [(''params'', AParams ?ps)]" by code_simp
  moreover have "distinct (dkeys [(''params'', AParams ?ps)])"
    "dget [(''params'', AParams ?ps)] ''params'' = Some (AParams ?ps)" by simp_all
  moreover have "get_ns3_relative_path_modular (d_file lookup_decl) = Inr (Some ''a.h'')" by code_simp
  moreover have "''a.h'' \<noteq> ''''" "dget [(''a.h'', ''core'')] ''a.h'' = Some ''core''" by simp_all
  ultimately have "pre_scan_hook True some_lib lookup_decl ?st = Some (Inl SizeChanged)
    \<and> (\<exists>st'. PreScanHook_call some_lib [(''a.h'', ''core'')] ''core'' lookup_decl ?st = Inr st'
        \<and> pann st' = dupdate ?ps (pann ?st)
        \<and> (\<forall>fresh. \<exists>st''. PreScanHook_call some_lib [(''a.h'', ''core'')] ''core'' lookup_decl (st'\<lparr>pann := fresh\<rparr>) = Inr st''
              \<and> pann st'' = fresh))"
    by (rule params_annotations)
  moreover have "dupdate ?ps (pann ?st) = ?ps" by (simp add: dupdate_def)
  ultimately show ?thesis by metis
qed

section \<open>The sections follow the dependencies\<close>

lemma nodes_module_graph:
  "(dep, m) \<in> set (module_graph mods) \<longleftrightarrow> (m \<in> set (dkeys mods) \<and> dep \<in> set (fst (the (dget mods m))))"
  by (auto simp: module_graph_def)

lemma plan_sections_keys: "plan_sections f mods n ms plan = Inr plan' \<Longrightarrow> set ms \<subseteq> set (dkeys mods)"
proof (induction f mods n ms plan rule: plan_sections.induct)
  case (2 f mods n m ms plan)
  obtain deps headers where entry: "dget mods m = Some (deps, headers)"
    using "2.prems"(1) by (auto simp: Let_def split: option.splits)
  from "2.IH" [OF refl entry refl] "2.prems" entry dget_Some_key [OF entry] show ?case by (simp add: Let_def)
qed simp

lemma plan_sections_precedences:
  assumes "plan_sections f mods n ms plan = Inr plan'" and "inj_on section_name_of (set ms)" and "distinct ms"
  shows "(\<forall>i < length ms. dget (precedences plan') (section_name_of (ms ! i)) = Some (n + i))
    \<and> (\<forall>s. s \<notin> section_name_of ` set ms \<longrightarrow> dget (precedences plan') s = dget (precedences plan) s)"
  using assms
proof (induction f mods n ms plan rule: plan_sections.induct)
  case (2 f mods n m ms plan)
  obtain deps headers where entry: "dget mods m = Some (deps, headers)"
    using "2.prems"(1) by (auto simp: Let_def split: option.splits)
  with "2.IH" [OF refl entry refl] "2.prems"
  have IH: "\<forall>i < length ms. dget (precedences plan') (section_name_of (ms ! i)) = Some (Suc n + i)"
    "\<forall>s. s \<notin> section_name_of ` set ms \<longrightarrow>
       dget (precedences plan') s = ((dget (precedences plan))(section_name_of m \<mapsto> n)) s"
    by (auto simp: Let_def)
  have "section_name_of m \<notin> section_name_of ` set ms" using "2.prems"(2,3) by (auto simp: inj_on_def)
  with IH(2) have "dget (precedences plan') (section_name_of m) = Some n" by simp
  with IH(1) have "dget (precedences plan') (section_name_of ((m # ms) ! i)) = Some (n + i)" if "i < length (m # ms)" for i
    using that by (cases i) auto
  then show ?case using IH(2) by auto
qed simp

lemma section_not_main: "section_name_of m \<noteq> ''__main__''"
  by (simp add: section_name_of_def)



text \<open>A module that has no dependency and that no module depends on gets no section at all.\<close>

lemma plan_sections_headers:
  "plan_sections f mods n ms plan = Inr plan' \<Longrightarrow> \<forall>m \<in> set ms. \<forall>deps hs. dget mods m = Some (deps, hs) \<longrightarrow> h \<notin> set hs
    \<Longrightarrow> dget (header_sections plan') h = dget (header_sections plan) h"
proof (induction f mods n ms plan rule: plan_sections.induct)
  case (2 f mods n m ms plan)
  obtain deps headers where entry: "dget mods m = Some (deps, headers)"
    using "2.prems"(1) by (auto simp: Let_def split: option.splits)
  have fresh: "dget (fold (\<lambda>h. dset h s) hs d) h = dget d h" if "h \<notin> set hs" for hs s and d :: "(string, string) dict"
    using that by (induction hs arbitrary: d) auto
  from "2.IH" [OF refl entry refl] "2.prems" entry show ?case by (simp add: Let_def fresh)
qed simp

lemma unconnected_module_unclassified:
  assumes "key_order keys" and "scan_plan_of False keys pygen_file_name mods = Inr plan"
    and "m \<notin> nodes_of (module_graph mods)"
    and "\<And>m' deps hs. dget mods m' = Some (deps, hs) \<Longrightarrow> m' \<noteq> m \<Longrightarrow> basename (d_file d) \<notin> set hs"
  shows "classify (header_sections plan) d = ''__main__''"
proof -
  obtain answer where answer: "topsort keys (module_graph mods) = Inr answer"
    and plan: "plan_sections pygen_file_name mods 0 answer (initial_plan pygen_file_name) = Inr plan"
    using assms(2) by (auto simp: scan_plan_of_def split: sum.splits topsort_error.splits)
  have "m \<notin> set answer" using topsort_answer(2) [OF assms(1) answer] assms(3) by simp
  then have "dget (header_sections plan) (basename (d_file d)) = None"
    using plan_sections_headers [OF plan, of "basename (d_file d)"] assms(4)
    by (auto simp: initial_plan_def)
  then show ?thesis by (simp add: classify_def)
qed

end
