(* ===== verification/Gen_Callbacks.thy ===== *)
theory Gen_Callbacks
  imports Py_Prelude
begin

text \<open>
  Smart pointers and callbacks in the generated bindings, from
  \<^verbatim>\<open>simulation/bindings/python/ns3modulegen_core_customizations.py\<close>: the type transformation of
  \<^verbatim>\<open>Ptr<T>\<close>, the handlers that turn a Python callable into a \<^verbatim>\<open>ns3::Callback\<close>, and the C++ classes
  behind them. What the code asks of pybindgen (type lookups, parsing of C types, fresh variable
  names) is a parameter; what it writes into a wrapper is the list of its calls.
\<close>

section \<open>Characters of generated text\<close>

abbreviation nl :: string where "nl \<equiv> [CHR 0x0A]"
abbreviation dq :: string where "dq \<equiv> [CHR 0x22]"
abbreviation sq :: string where "sq \<equiv> [CHR 0x27]"
abbreviation bs :: string where "bs \<equiv> [CHR 0x5C]"

definition ends_with :: "string \<Rightarrow> string \<Rightarrow> bool" where
  "ends_with s t \<longleftrightarrow> length t \<le> length s \<and> drop (length s - length t) s = t"

definition drop_last :: "nat \<Rightarrow> string \<Rightarrow> string" where
  "drop_last n s = take (length s - n) s"

section \<open>The transformation of smart pointers\<close>

text \<open>
  The pattern \<^verbatim>\<open>(ns3::|::ns3::|)Ptr<([^>]+)>\s*$\<close>, matched from the start of the name: its second
  group.
\<close>

definition ptr_prefix :: "string \<Rightarrow> string option" where
  "ptr_prefix name =
     (if starts_with name ''ns3::Ptr<'' then Some (drop 9 name)
      else if starts_with name ''::ns3::Ptr<'' then Some (drop 11 name)
      else if starts_with name ''Ptr<'' then Some (drop 4 name)
      else None)"

definition match_ptr :: "string \<Rightarrow> string option" where
  "match_ptr name =
     (case ptr_prefix name of
        None \<Rightarrow> None
      | Some rest \<Rightarrow>
          let body = takeWhile (\<lambda>c. c \<noteq> CHR ''>'') rest
          in case dropWhile (\<lambda>c. c \<noteq> CHR ''>'') rest of
               [] \<Rightarrow> None
             | _ # tail \<Rightarrow> if body \<noteq> '''' \<and> list_all py_space tail then Some body else None)"

definition untransformed_type_traits :: "string \<Rightarrow> string option \<times> bool" where
  "untransformed_type_traits name =
     (case match_ptr name of
        None \<Rightarrow> (None, False)
      | Some inner \<Rightarrow>
          let name1 = py_strip inner;
              (name1, is_const) = (if starts_with name1 ''const '' then (drop 6 name1, True) else (name1, False));
              (name1, is_const) = (if ends_with name1 '' const'' then (drop_last 6 name1, True) else (name1, is_const));
              new_name = name1 @ '' *'';
              new_name = (if starts_with new_name ''::'' then drop 2 new_name else new_name)
          in (Some new_name, is_const))"

definition get_untransformed_name :: "string \<Rightarrow> string option" where
  "get_untransformed_name name = fst (untransformed_type_traits name)"

datatype handler_kind = ParameterHandler | ReturnHandler | OtherHandler

definition correct_ctype :: "string \<Rightarrow> bool \<Rightarrow> string" where
  "correct_ctype orig_ctype is_const =
     (if is_const then ''ns3::Ptr< '' @ drop_last 2 orig_ctype @ '' const >''
      else ''ns3::Ptr< '' @ drop_last 2 orig_ctype @ '' >'')"

text \<open>
  The type the handler is made with, the keyword it gets, and the type it is transformed to. A name
  the pattern does not match has no type, and taking a slice of that raises.
\<close>

definition create_type_handler :: "handler_kind \<Rightarrow> string \<Rightarrow> py_error + string \<times> (string \<times> bool) \<times> string" where
  "create_type_handler kind name =
     res_bind (case kind of
                 ParameterHandler \<Rightarrow> Inr (''transfer_ownership'', False)
               | ReturnHandler \<Rightarrow> Inr (''caller_owns_return'', False)
               | OtherHandler \<Rightarrow> Inl AssertionError) (\<lambda>keyword.
       case untransformed_type_traits name of
         (None, is_const) \<Rightarrow> Inl TypeError
       | (Some orig_ctype, is_const) \<Rightarrow> Inr (correct_ctype orig_ctype is_const, keyword, orig_ctype))"

definition untransform :: "string \<Rightarrow> string \<Rightarrow> string" where
  "untransform untransformed_ctype expression =
     ''const_cast<'' @ untransformed_ctype @ ''> (ns3::PeekPointer ('' @ expression @ ''))''"

definition transform :: "string \<Rightarrow> string \<Rightarrow> py_error + string" where
  "transform untransformed_ctype expression =
     (if untransformed_ctype = '''' then Inl IndexError
      else if last untransformed_ctype \<noteq> CHR ''*'' then Inl AssertionError
      else Inr (''ns3::Ptr< '' @ butlast untransformed_ctype @ '' > ('' @ expression @ '')''))"

section \<open>Calls into a wrapper\<close>

datatype wrapper_call =
    DeclareVariable string string "string option"   \<comment> \<open>type, wished name, initial value\<close>
  | ParseParameter string "string list" string bool  \<comment> \<open>format, targets, name, optional\<close>
  | BuildParameter string "string list"
  | WriteCode string
  | ErrorCheck string "string option"                \<comment> \<open>condition, code on failure\<close>
  | CleanupCode string
  | CallParam string
  | Indent
  | Unindent

text \<open>
  \<^verbatim>\<open>declare_variable\<close> answers with the name the variable really gets: the parameter \<open>fresh\<close>.
\<close>

definition generate_python_call :: "(string \<Rightarrow> string) \<Rightarrow> string list \<Rightarrow> py_error + wrapper_call list" where
  "generate_python_call fresh build_params =
     (case build_params of
        [] \<Rightarrow> Inl IndexError
      | p # ps \<Rightarrow>
          if p = '''' then Inl IndexError
          else
            let p = (if hd p = CHR 0x22 then ''(char *) '' @ p else p);
                args = fresh ''args''
            in Inr
                [DeclareVariable ''PyObject*'' ''args'' None,
                 WriteCode (args @ '' = Py_BuildValue('' @ join '', '' (p # ps) @ '');''),
                 CleanupCode (''Py_DECREF('' @ args @ '');''),
                 WriteCode (''py_retval = PyObject_CallObject(m_callback, '' @ args @ '');''),
                 ErrorCheck ''py_retval == NULL'' None,
                 CleanupCode ''Py_DECREF(py_retval);''])"

section \<open>Handlers of callback parameters\<close>

record callback_handler =
  cb_ctype :: string
  cb_impl :: string
  cb_args :: "string list"

definition callback_name :: "string list \<Rightarrow> string" where
  "callback_name template_parameters = ''ns3::Callback< '' @ join '', '' template_parameters @ '' >''"

definition impl_name :: "nat \<Rightarrow> string" where
  "impl_name n = ''PythonCallbackImpl'' @ str_nat n"

definition register_callback_classes :: "string list list \<Rightarrow> callback_handler list" where
  "register_callback_classes callbacks =
     map (\<lambda>(callback_impl_num, template_parameters).
            \<lparr>cb_ctype = callback_name template_parameters, cb_impl = impl_name callback_impl_num,
             cb_args = template_parameters\<rparr>)
       (enumerate 0 callbacks)"

definition not_callable :: "string \<Rightarrow> string \<Rightarrow> wrapper_call" where
  "not_callable py_callback name =
     ErrorCheck (''!PyCallable_Check('' @ py_callback @ '')'')
       (Some (''PyErr_SetString(PyExc_TypeError, '' @ dq @ ''parameter '' @ sq @ name @ sq @
       '' must be callbale'' @ dq @ '');''))"

text \<open>The handler for one parameter: its name and default value, and whether the handler is disabled.\<close>

definition convert_python_to_c ::
  "(string \<Rightarrow> string) \<Rightarrow> callback_handler \<Rightarrow> bool \<Rightarrow> string \<Rightarrow> string option \<Rightarrow> py_error + wrapper_call list" where
  "convert_python_to_c fresh h disabled name default_value =
     (if disabled then Inl (CodeGenerationError ''wrapper could not be generated'')
      else
        let py_callback = fresh name;
            targs = join '', '' (cb_args h)
        in case default_value of
             None \<Rightarrow>
               let callback_impl = fresh (name @ ''_cb_impl'')
               in Inr
                   [DeclareVariable ''PyObject*'' name None,
                    ParseParameter ''O'' [''&'' @ py_callback] name False,
                    not_callable py_callback name,
                    DeclareVariable (''ns3::Ptr<'' @ cb_impl h @ ''>'') (name @ ''_cb_impl'') None,
                    WriteCode (callback_impl @ '' = ns3::Create<'' @ cb_impl h @ ''> ('' @ py_callback @ '');''),
                    CallParam (''ns3::Callback<'' @ targs @ ''> ('' @ callback_impl @ '')'')]
           | Some v \<Rightarrow>
               let val = fresh (name @ ''_value'')
               in Inr
                   [DeclareVariable ''PyObject*'' name (Some ''NULL''),
                    ParseParameter ''O'' [''&'' @ py_callback] name True,
                    DeclareVariable (''ns3::Callback<'' @ targs @ ''>'') (name @ ''_value'') (Some v),
                    WriteCode (''if ('' @ py_callback @ '') {''), Indent,
                    not_callable py_callback name,
                    WriteCode (val @ '' = ns3::Callback<'' @ targs @ ''> (ns3::Create<'' @ cb_impl h @ ''> (''
                               @ py_callback @ ''));''),
                    Unindent, WriteCode ''}'', CallParam val])"

section \<open>The classes behind the handlers\<close>

text \<open>
  What the code asks of pybindgen: how a C type is written and whether it is const, whether a return
  type and a parameter type are known, and for a parameter of a class with a helper class whether
  that helper cannot be constructed.
\<close>

record type_lib =
  ctype_of :: "string \<Rightarrow> string \<times> bool"
  return_known :: "string \<times> bool \<Rightarrow> bool"
  param_known :: "string \<times> bool \<Rightarrow> bool"
  helper_unusable :: "string \<times> bool \<Rightarrow> bool"
  proxy_text :: "string \<times> bool \<Rightarrow> (string \<times> string \<times> bool) list \<Rightarrow> string"

definition class_text :: "string \<Rightarrow> string list \<Rightarrow> string" where
  "class_text class_name template_parameters =
     (nl @ ''class '' @ class_name @ '' : public ns3::CallbackImpl<'' @ join '', '' template_parameters @
     ''>'' @ nl @ ''{'' @ nl @ ''public:'' @ nl @ ''    PyObject *m_callback;'' @ nl @ ''    '' @
     class_name @ ''(PyObject *callback)'' @ nl @ ''    {'' @ nl @ ''        Py_INCREF(callback);'' @ nl @
     ''        m_callback = callback;'' @ nl @ ''    }'' @ nl @ ''    virtual ~'' @ class_name @ ''()'' @
     nl @ ''    {'' @ nl @ ''        PyGILState_STATE __py_gil_state;'' @ nl @
     ''        __py_gil_state = (PyEval_ThreadsInitialized() ? PyGILState_Ensure() : (PyGILState_STATE) 0);'' @ nl @
     ''        Py_DECREF(m_callback);'' @ nl @ ''        m_callback = NULL;'' @ nl @
     ''        PyGILState_Release(__py_gil_state);'' @ nl @ ''    }'' @ nl @ nl @
     ''    virtual bool IsEqual(ns3::Ptr<const ns3::CallbackImplBase> other_base) const'' @ nl @ ''    {'' @
     nl @ ''        const '' @ class_name @ '' *other = dynamic_cast<const '' @ class_name @
     ''*> (ns3::PeekPointer (other_base));'' @ nl @ ''        if (other != NULL)'' @ nl @
     ''            return (other->m_callback == m_callback);'' @ nl @ ''        else'' @ nl @
     ''            return false;'' @ nl @ ''    }'' @ nl @ nl)"

definition callback_arguments :: "type_lib \<Rightarrow> string list \<Rightarrow> (string \<times> string \<times> bool) list" where
  "callback_arguments lib template_parameters =
     map (\<lambda>(arg_num, arg_type). (''arg'' @ str_nat (arg_num + 1), ctype_of lib arg_type))
       (enumerate 0 (filter (\<lambda>arg. arg \<noteq> ''ns3::empty'') (tl template_parameters)))"

text \<open>
  The result for one callback: its class is written, its handlers are disabled because a parameter
  type is not known, or it is left out because its return type is not known. The helper classes that
  cannot be constructed are dropped on the way.
\<close>

datatype callback_result = Written string "string list" | Disabled "string list" | LeftOut

definition generate_callback_class :: "type_lib \<Rightarrow> nat \<Rightarrow> string list \<Rightarrow> py_error + callback_result" where
  "generate_callback_class lib callback_impl_num template_parameters =
     (case template_parameters of
        [] \<Rightarrow> Inl IndexError
      | callback_return # _ \<Rightarrow>
          let class_name = impl_name callback_impl_num;
              return_ctype = ctype_of lib callback_return;
              arguments = callback_arguments lib template_parameters;
              dropped = map (\<lambda>(name, t). fst t) (filter (\<lambda>(name, t). param_known lib t \<and> helper_unusable lib t) arguments)
          in if \<not> return_known lib return_ctype then Inr LeftOut
             else if \<not> list_all (\<lambda>(name, t). param_known lib t) arguments then Inr (Disabled dropped)
             else Inr (Written (class_text class_name template_parameters @ nl @ proxy_text lib return_ctype arguments
                                @ ''};'' @ nl @ nl) dropped))"

definition generate_callback_classes :: "type_lib \<Rightarrow> string list list \<Rightarrow> py_error + callback_result list" where
  "generate_callback_classes lib callbacks =
     res_map (\<lambda>(callback_impl_num, template_parameters). generate_callback_class lib callback_impl_num template_parameters)
       (enumerate 0 callbacks)"

text \<open>The C++ types whose handlers are disabled afterwards, and the names of the classes that exist.\<close>

definition disabled_ctypes :: "string list list \<Rightarrow> callback_result list \<Rightarrow> string list" where
  "disabled_ctypes callbacks results =
     map (callback_name \<circ> fst) (filter (\<lambda>(c, r). case r of Disabled _ \<Rightarrow> True | _ \<Rightarrow> False) (zip callbacks results))"

definition written_classes :: "callback_result list \<Rightarrow> string list" where
  "written_classes results =
     map (impl_name \<circ> fst) (filter (\<lambda>(n, r). case r of Written _ _ \<Rightarrow> True | _ \<Rightarrow> False) (enumerate 0 results))"


section \<open>All spellings of a smart pointer have one normal form\<close>

text \<open>A class name: no space, no angle bracket, not the keyword, without a leading \<^verbatim>\<open>::\<close>.\<close>

definition plain_type :: "string \<Rightarrow> bool" where
  "plain_type t \<longleftrightarrow> t \<noteq> [] \<and> t \<noteq> ''const'' \<and> list_all (\<lambda>c. \<not> py_space c \<and> c \<noteq> CHR ''>'') t \<and> \<not> starts_with t ''::''"

lemma ends_with_append [simp]: "ends_with (s @ t) t"
  by (simp add: ends_with_def)

lemma ends_with_iff: "ends_with s t \<longleftrightarrow> (\<exists>p. s = p @ t)"
proof
  assume "ends_with s t"
  then have "s = take (length s - length t) s @ t" by (metis append_take_drop_id ends_with_def)
  then show "\<exists>p. s = p @ t" ..
qed auto

lemma drop_last_append [simp]: "n = length t \<Longrightarrow> drop_last n (s @ t) = s"
  by (simp add: drop_last_def)

lemma first_word: "CHR '' '' \<notin> set t \<Longrightarrow> takeWhile (\<lambda>c. c \<noteq> CHR '' '') (t @ CHR '' '' # s) = t"
  by (subst takeWhile_append2) auto

lemma starts_withE:
  assumes "starts_with s t"
  obtains z where "s = t @ z"
  using assms by (metis append_take_drop_id starts_with_def)

lemma not_starts_const:
  assumes "CHR '' '' \<notin> set t" and "t \<noteq> ''const''"
  shows "\<not> starts_with t ''const ''" and "\<not> starts_with (t @ CHR '' '' # s) ''const ''"
proof -
  show "\<not> starts_with t ''const ''" using assms(1) by (auto elim!: starts_withE)
  show "\<not> starts_with (t @ CHR '' '' # s) ''const ''"
  proof
    assume "starts_with (t @ CHR '' '' # s) ''const ''"
    then obtain z where z: "t @ CHR '' '' # s = ''const'' @ CHR '' '' # z" by (auto elim: starts_withE)
    have "takeWhile (\<lambda>c. c \<noteq> CHR '' '') (''const'' @ CHR '' '' # z) = ''const''" by (rule first_word) simp
    then show False using first_word [OF assms(1), of s] assms(2) unfolding z by simp
  qed
qed

lemma not_ends_const:
  assumes "CHR '' '' \<notin> set t" and "t \<noteq> ''const''"
  shows "\<not> ends_with t '' const''" and "\<not> ends_with (p @ CHR '' '' # t) '' const''"
proof -
  show "\<not> ends_with t '' const''" using assms(1) by (auto simp: ends_with_iff)
  show "\<not> ends_with (p @ CHR '' '' # t) '' const''"
  proof
    assume "ends_with (p @ CHR '' '' # t) '' const''"
    then obtain q where "p @ CHR '' '' # t = q @ CHR '' '' # ''const''" by (auto simp: ends_with_iff)
    then have q: "rev t @ CHR '' '' # rev p = rev ''const'' @ CHR '' '' # rev q"
      by (metis append.assoc append_Cons append_Nil rev.simps(2) rev_append)
    have "takeWhile (\<lambda>c. c \<noteq> CHR '' '') (rev ''const'' @ CHR '' '' # rev q) = rev ''const''" by (rule first_word) simp
    then have "rev t = rev ''const''" using first_word [of "rev t" "rev p"] assms(1) unfolding q by simp
    with assms(2) show False by (simp only: rev_is_rev_conv)
  qed
qed

lemma dropWhile_around:
  "list_all P a \<Longrightarrow> s \<noteq> [] \<Longrightarrow> \<not> P (hd s) \<Longrightarrow> dropWhile P (a @ s) = s"
  by (induction a) (cases s; simp)+

lemma py_strip_around:
  assumes "list_all py_space a" and "list_all py_space b" and "s \<noteq> []" and "\<not> py_space (hd s)" and "\<not> py_space (last s)"
  shows "py_strip (a @ s @ b) = s"
proof -
  have "dropWhile py_space (a @ s @ b) = s @ b"
    using assms by (intro dropWhile_around) auto
  moreover have "dropWhile py_space (rev b @ rev s) = rev s"
    using assms by (intro dropWhile_around) (auto simp: hd_rev)
  ultimately show ?thesis by (simp add: py_strip_def)
qed

lemma match_ptr_spelling:
  assumes "p \<in> {[], ''ns3::'', ''::ns3::''}" and "CHR ''>'' \<notin> set body" and "body \<noteq> []" and "list_all py_space tail"
  shows "match_ptr (p @ ''Ptr<'' @ body @ CHR ''>'' # tail) = Some body"
proof -
  have "ptr_prefix (p @ ''Ptr<'' @ body @ CHR ''>'' # tail) = Some (body @ CHR ''>'' # tail)"
    using assms(1) by (elim insertE emptyE) (simp_all add: ptr_prefix_def starts_with_def)
  moreover have "takeWhile (\<lambda>c. c \<noteq> CHR ''>'') (body @ CHR ''>'' # tail) = body"
    using assms(2) by (subst takeWhile_append2) auto
  moreover have "dropWhile (\<lambda>c. c \<noteq> CHR ''>'') (body @ CHR ''>'' # tail) = CHR ''>'' # tail"
    using assms(2) by (subst dropWhile_append2) auto
  ultimately show ?thesis using assms(3,4) by (simp add: match_ptr_def)
qed

lemma traits_of_body:
  assumes "plain_type t" and "(q, c) \<in> {(t, False), (''const '' @ t, True), (t @ '' const'', True)}"
    and "list_all py_space a" and "list_all py_space b" and "match_ptr name = Some (a @ q @ b)"
  shows "untransformed_type_traits name = (Some (t @ '' *''), c)"
proof -
  have all: "\<And>c. c \<in> set t \<Longrightarrow> \<not> py_space c" and ne: "t \<noteq> []" and const: "t \<noteq> ''const''"
    and colons: "\<not> starts_with t ''::''"
    using assms(1) by (auto simp: plain_type_def list_all_iff)
  have space: "CHR '' '' \<notin> set t" using all by (auto simp: py_space_def)
  have colons': "\<not> starts_with (t @ '' *'') ''::''"
    using colons ne by (cases t; cases "tl t") (auto simp: starts_with_def)
  have hd_q: "\<not> py_space (hd q)" "\<not> py_space (last q)" "q \<noteq> []"
    using assms(2) all ne by (auto simp: py_space_def)
  then have strip: "py_strip (a @ q @ b) = q" using assms(3,4) by (intro py_strip_around)
  consider "q = t" "c = False" | "q = ''const '' @ t" "c = True" | "q = t @ '' const''" "c = True"
    using assms(2) by auto
  then show ?thesis
  proof cases
    case 1
    then show ?thesis
      using assms(5) strip not_starts_const [OF space const] not_ends_const [OF space const] colons'
      by (simp add: untransformed_type_traits_def)
  next
    case 2
    have "starts_with q ''const ''" unfolding 2 by (rule starts_with_append)
    moreover have "drop 6 q = t" by (simp add: 2)
    ultimately show ?thesis
      using assms(5) strip 2(2) not_ends_const(1) [OF space const] colons'
      by (simp add: untransformed_type_traits_def)
  next
    case 3
    have "\<not> starts_with q ''const ''" unfolding 3 using not_starts_const(2) [OF space const, of "''const''"] by simp
    moreover have "ends_with q '' const''" "drop_last 6 q = t" by (simp_all add: 3)
    ultimately show ?thesis
      using assms(5) strip 3(2) colons' by (simp add: untransformed_type_traits_def)
  qed
qed

lemma no_bracket_space:
  assumes "list_all py_space s"
  shows "CHR ''>'' \<notin> set s"
proof -
  have "\<not> py_space (CHR ''>'')" by (simp add: py_space_def)
  with assms show ?thesis by (auto simp: list_all_iff)
qed

lemma traits_of_spelling:
  assumes "plain_type t" and "(q, c) \<in> {(t, False), (''const '' @ t, True), (t @ '' const'', True)}"
    and "p \<in> {[], ''ns3::'', ''::ns3::''}"
    and "list_all py_space a" and "list_all py_space b" and "list_all py_space d"
  shows "untransformed_type_traits (p @ ''Ptr<'' @ a @ q @ b @ CHR ''>'' # d) = (Some (t @ '' *''), c)"
proof -
  have t: "CHR ''>'' \<notin> set t" "t \<noteq> []" using assms(1) by (auto simp: plain_type_def list_all_iff)
  consider "q = t" | "q = ''const '' @ t" | "q = t @ '' const''" using assms(2) by auto
  then have "CHR ''>'' \<notin> set q" "q \<noteq> []" by (cases; use t in simp)+
  then have "CHR ''>'' \<notin> set (a @ q @ b)" "a @ q @ b \<noteq> []"
    using no_bracket_space [OF assms(4)] no_bracket_space [OF assms(5)] by simp_all
  then have "match_ptr (p @ ''Ptr<'' @ (a @ q @ b) @ CHR ''>'' # d) = Some (a @ q @ b)"
    using assms(3,6) by (intro match_ptr_spelling)
  then show ?thesis using assms(1,2,4,5) by (intro traits_of_body [where a = a and b = b and q = q]) simp_all
qed

lemma traits_of_correct_ctype:
  assumes "plain_type t"
  shows "untransformed_type_traits (correct_ctype (t @ '' *'') c) = (Some (t @ '' *''), c)"
proof -
  have drop: "drop_last 2 (t @ '' *'') = t" by simp
  have eq: "correct_ctype (t @ '' *'') c
      = ''ns3::'' @ ''Ptr<'' @ '' '' @ (if c then t @ '' const'' else t) @ '' '' @ CHR ''>'' # ''''"
    unfolding correct_ctype_def drop by simp
  show ?thesis
    unfolding eq using assms by (intro traits_of_spelling) (simp_all add: py_space_def)
qed



text \<open>A nested template is not matched, and then no handler can be made.\<close>

lemma nested_pointer_unmatched: "create_type_handler kind ''ns3::Ptr< ns3::Foo<int> >'' \<in> {Inl TypeError, Inl AssertionError}"
proof -
  have "untransformed_type_traits ''ns3::Ptr< ns3::Foo<int> >'' = (None, False)" by code_simp
  then show ?thesis by (cases kind) (simp_all add: create_type_handler_def)
qed

section \<open>Which handlers have a class\<close>

lemma generate_callback_classes_nth:
  assumes "generate_callback_classes lib callbacks = Inr results" and "n < length callbacks"
  shows "length results = length callbacks" and "generate_callback_class lib n (callbacks ! n) = Inr (results ! n)"
proof -
  have gen: "length rs = length xs \<and> (\<forall>i < length xs. f (xs ! i) = Inr (rs ! i))"
    if "res_map f xs = Inr rs" for f and xs :: "(nat \<times> string list) list" and rs :: "callback_result list"
    using that
  proof (induction xs arbitrary: rs)
    case (Cons x xs)
    then obtain r rs' where "f x = Inr r" "res_map f xs = Inr rs'" "rs = r # rs'" by (auto simp: res_bind_eq_Inr)
    with Cons.IH [of rs'] show ?case by (auto simp: nth_Cons split: nat.split)
  qed simp
  show "length results = length callbacks" and "generate_callback_class lib n (callbacks ! n) = Inr (results ! n)"
    using gen [OF assms(1) [unfolded generate_callback_classes_def]] assms(2) by (auto simp: nth_enumerate_eq)
qed

lemma impl_name_inject [simp]: "impl_name m = impl_name n \<longleftrightarrow> m = n"
  by (simp add: impl_name_def)

lemma written_classes_iff:
  "n < length results \<Longrightarrow> impl_name n \<in> set (written_classes results) \<longleftrightarrow> (\<exists>text dropped. results ! n = Written text dropped)"
  by (force simp: written_classes_def in_set_enumerate_eq split: callback_result.splits)

lemma disabled_ctypes_iff:
  assumes "length results = length callbacks" and "n < length callbacks" and "distinct (map callback_name callbacks)"
  shows "callback_name (callbacks ! n) \<in> set (disabled_ctypes callbacks results) \<longleftrightarrow> (\<exists>dropped. results ! n = Disabled dropped)"
proof
  assume "callback_name (callbacks ! n) \<in> set (disabled_ctypes callbacks results)"
  then obtain m where m: "m < length callbacks" "callback_name (callbacks ! m) = callback_name (callbacks ! n)"
    "\<exists>dropped. results ! m = Disabled dropped"
    using assms(1) by (auto simp: disabled_ctypes_def in_set_zip split: callback_result.splits)
  then have "m = n" using assms(2,3) by (simp add: distinct_conv_nth) (metis nth_map)
  with m(3) show "\<exists>dropped. results ! n = Disabled dropped" by simp
next
  assume "\<exists>dropped. results ! n = Disabled dropped"
  then have "(callbacks ! n, results ! n) \<in> set (filter (\<lambda>(c, r). case r of Disabled _ \<Rightarrow> True | _ \<Rightarrow> False) (zip callbacks results))"
    using assms(1,2) by (auto simp: in_set_zip)
  then show "callback_name (callbacks ! n) \<in> set (disabled_ctypes callbacks results)"
    by (force simp: disabled_ctypes_def)
qed

text \<open>
  Claim C29: the handler of a callback has a class exactly when its return type and all its
  parameter types are known, and it is disabled exactly when a parameter type is the reason that it
  has none. So for a callback with an unknown return type the enabled handler still writes code that
  names the missing class.
\<close>
theorem callback_classes_and_handlers:
  assumes "generate_callback_classes lib callbacks = Inr results" and "distinct (map callback_name callbacks)"
    and "n < length callbacks" and "h = register_callback_classes callbacks ! n"
  shows "let known = return_known lib (ctype_of lib (hd (callbacks ! n)));
             args = list_all (\<lambda>(name, t). param_known lib t) (callback_arguments lib (callbacks ! n))
    in (cb_impl h \<in> set (written_classes results) \<longleftrightarrow> known \<and> args)
     \<and> (cb_ctype h \<in> set (disabled_ctypes callbacks results) \<longleftrightarrow> known \<and> \<not> args)
     \<and> (\<not> known \<longrightarrow> (\<exists>calls. convert_python_to_c fresh h (cb_ctype h \<in> set (disabled_ctypes callbacks results)) name None = Inr calls
          \<and> WriteCode (fresh (name @ ''_cb_impl'') @ '' = ns3::Create<'' @ impl_name n @ ''> ('' @ fresh name @ '');'') \<in> set calls))"
proof -
  note res = generate_callback_classes_nth [OF assms(1,3)]
  have h: "cb_impl h = impl_name n" "cb_ctype h = callback_name (callbacks ! n)"
    using assms(3,4) by (simp_all add: register_callback_classes_def nth_enumerate_eq)
  obtain ret rest where "callbacks ! n = ret # rest"
    using res(2) by (auto simp: generate_callback_class_def split: list.splits)
  then have "results ! n =
      (if \<not> return_known lib (ctype_of lib (hd (callbacks ! n))) then LeftOut
       else let dropped = map (\<lambda>(name, t). fst t) (filter (\<lambda>(name, t). param_known lib t \<and> helper_unusable lib t)
                            (callback_arguments lib (callbacks ! n)))
            in if list_all (\<lambda>(name, t). param_known lib t) (callback_arguments lib (callbacks ! n))
               then Written (class_text (impl_name n) (callbacks ! n) @ nl
                      @ proxy_text lib (ctype_of lib (hd (callbacks ! n))) (callback_arguments lib (callbacks ! n))
                      @ ''};'' @ nl @ nl) dropped
               else Disabled dropped)"
    using res(2) by (simp add: generate_callback_class_def Let_def split: if_splits)
  moreover have "cb_impl h \<in> set (written_classes results) \<longleftrightarrow> (\<exists>text dropped. results ! n = Written text dropped)"
    "cb_ctype h \<in> set (disabled_ctypes callbacks results) \<longleftrightarrow> (\<exists>dropped. results ! n = Disabled dropped)"
    using res(1) assms(2,3) by (simp_all add: h written_classes_iff disabled_ctypes_iff)
  ultimately show ?thesis by (simp add: h Let_def convert_python_to_c_def)
qed

definition few_types :: type_lib where
  "few_types = \<lparr>ctype_of = (\<lambda>t. (t, False)), return_known = (\<lambda>(t, c). t = ''void''), param_known = (\<lambda>(t, c). t = ''int''),
     helper_unusable = (\<lambda>_. False), proxy_text = (\<lambda>_ _. [])\<rparr>"

definition three_callbacks :: "string list list" where
  "three_callbacks = [[''void'', ''int'', ''ns3::empty''], [''ns3::Odd'', ''int''], [''void'', ''ns3::Odd'']]"

lemma callback_classes_and_handlers_witness:
  "\<exists>results. generate_callback_classes few_types three_callbacks = Inr results
    \<and> ''PythonCallbackImpl1'' \<notin> set (written_classes results)
    \<and> ''ns3::Callback< ns3::Odd, int >'' \<notin> set (disabled_ctypes three_callbacks results)"
proof -
  have names: "distinct (map callback_name three_callbacks)" by code_simp
  have "\<exists>results. generate_callback_classes few_types three_callbacks = Inr results"
    by (simp add: generate_callback_classes_def generate_callback_class_def three_callbacks_def few_types_def Let_def)
  then obtain results where run: "generate_callback_classes few_types three_callbacks = Inr results" ..
  have len: "1 < length three_callbacks" by (simp add: three_callbacks_def)
  have handler: "cb_impl (register_callback_classes three_callbacks ! 1) = ''PythonCallbackImpl1''"
    "cb_ctype (register_callback_classes three_callbacks ! 1) = ''ns3::Callback< ns3::Odd, int >''"
    "\<not> return_known few_types (ctype_of few_types (hd (three_callbacks ! 1)))"
    by code_simp+
  from callback_classes_and_handlers [OF run names len refl, of id "[]"] run handler
  show ?thesis by (auto simp: Let_def)
qed

end
