(* ===== verification/Gen_Driver.thy ===== *)
theory Gen_Driver
  imports Gen_Callbacks Py_Path
begin

text \<open>
  The program that generates the bindings of one module,
  \<^verbatim>\<open>simulation/bindings/python/ns3modulegen-modular.py\<close>, the customisations of
  \<^verbatim>\<open>ns3modulegen_core_customizations.py\<close> and of the modules core and wifi
  (\<^verbatim>\<open>src/*/bindings/modulegen_customizations.py\<close>). The module object of pybindgen is known by
  what is called on it: an operation on it is the list of its calls, and the lookup \<^verbatim>\<open>module[name]\<close>,
  which raises a KeyError for a name that is not registered, is the parameter \<open>has_item\<close>.
\<close>

section \<open>Calls on a module\<close>

text \<open>A parameter is its type, its name and its default value.\<close>

type_synonym gen_param = "string \<times> string \<times> string option"

datatype mod_call =
    AddInclude string
  | AddClass string string "string option"                 \<comment> \<open>name, namespace, parent\<close>
  | CannotBeConstructed string string
  | AddEnum string string "(string \<times> string) list"
  | AddConstructor string "gen_param list"
  | AddMethod string string "string option" "gen_param list"
  | AddArgvMethod string string
  | CustomWrapper string string string "string list"
  | TypeAlias string string
  | AfterInit string
  | BodyLine string
  | HeaderLine string
  | SetSlot string string string
  | RemoveClass string
  | RemoveEnum string
  | HelperHook string
  | CreationFunction string
  | PostCreationFunction string

definition with_item :: "(string \<Rightarrow> bool) \<Rightarrow> string \<Rightarrow> mod_call list \<Rightarrow> py_error + mod_call list" where
  "with_item has_item name calls = (if has_item name then Inr calls else Inl KeyError)"

definition static_flags :: "string list" where
  "static_flags = [''METH_VARARGS'', ''METH_KEYWORDS'', ''METH_STATIC'']"

definition simulator_wrapper :: "string \<Rightarrow> mod_call" where
  "simulator_wrapper name = CustomWrapper ''ns3::Simulator'' name (''_wrap_Simulator_'' @ name) static_flags"

section \<open>Customisations of the main script\<close>

definition Simulator_customizations :: "(string \<Rightarrow> bool) \<Rightarrow> py_error + mod_call list" where
  "Simulator_customizations has_item =
     with_item has_item ''ns3::Simulator''
       [simulator_wrapper ''Schedule'', simulator_wrapper ''ScheduleNow'',
        simulator_wrapper ''ScheduleDestroy'', simulator_wrapper ''Run'']"

text \<open>
  This copy names \<^verbatim>\<open>ArgvParam\<close>, which its file neither defines nor imports, once the class has been
  looked up.
\<close>

definition CommandLine_customizations :: "(string \<Rightarrow> bool) \<Rightarrow> py_error + mod_call list" where
  "CommandLine_customizations has_item =
     (if has_item ''ns3::CommandLine'' then Inl NameError else Inl KeyError)"

definition helper_class_hook :: "string \<Rightarrow> string \<Rightarrow> string \<times> string" where
  "helper_class_hook name class_full_name =
     ((nl @ ''static ns3::TypeId GetTypeId (void)'' @ nl @ ''{'' @ nl @
     ''  static ns3::TypeId tid = ns3::TypeId ('' @ dq @ name @ dq @ '')'' @ nl @ ''    .SetParent< '' @
     class_full_name @ '' > ()'' @ nl @ ''    ;'' @ nl @ ''  return tid;'' @ nl @ ''}''),
      ''NS_OBJECT_ENSURE_REGISTERED ('' @ name @ '');'')"

record cpp_class =
  full_name :: string
  cannot_be_constructed :: bool
  incomplete_type :: bool

text \<open>
  The first message has two places for one string, so formatting it raises before the error is
  made.
\<close>

definition ns3_object_instance_creation_function ::
  "cpp_class \<Rightarrow> string \<Rightarrow> string \<Rightarrow> string \<Rightarrow> py_error + wrapper_call list" where
  "ns3_object_instance_creation_function c lvalue parameters construct_type_name =
     (if lvalue = '''' then Inl AssertionError
      else if starts_with lvalue ''None'' then Inl AssertionError
      else if cannot_be_constructed c then Inl TypeError
      else if incomplete_type c
      then Inl (CodeGenerationError (full_name c @ '' cannot be constructed (incomplete type)''))
      else Inr [WriteCode (lvalue @ '' = new '' @ construct_type_name @ ''('' @ parameters @ '');''),
                WriteCode (lvalue @ ''->Ref ();'')])"

definition ns3_object_post_instance_creation_function :: "string \<Rightarrow> wrapper_call list" where
  "ns3_object_post_instance_creation_function lvalue = [WriteCode (''ns3::CompleteConstruct('' @ lvalue @ '');'')]"

definition Object_customizations :: "(string \<Rightarrow> bool) \<Rightarrow> mod_call list" where
  "Object_customizations has_item =
     (if has_item ''ns3::Object''
      then [HelperHook ''ns3::Object'', CreationFunction ''ns3::Object'', PostCreationFunction ''ns3::Object'']
      else [])"

text \<open>The parameters of all methods of all classes.\<close>

record attr_param =
  is_class_ref :: bool
  param_class :: string
  default_value :: "string option"
  default_value_type :: "string option"

definition fix_attribute :: "attr_param \<Rightarrow> attr_param" where
  "fix_attribute p =
     (if is_class_ref p \<and> param_class p = ''AttributeValue'' \<and> default_value p \<noteq> None \<and> default_value_type p = None
      then p\<lparr>default_value_type := Some ''ns3::EmptyAttributeValue''\<rparr> else p)"

definition Attribute_customizations :: "attr_param list list list \<Rightarrow> attr_param list list list" where
  "Attribute_customizations classes = map (map (map fix_attribute)) classes"

definition TypeId_customizations :: "(string \<Rightarrow> bool) \<Rightarrow> py_error + mod_call list" where
  "TypeId_customizations has_item =
     with_item has_item ''ns3::TypeId''
       [CustomWrapper ''ns3::TypeId'' ''LookupByNameFailSafe'' ''_wrap_TypeId_LookupByNameFailSafe'' static_flags]"

definition openmode_flags :: "string list" where
  "openmode_flags = [''in'', ''out'', ''ate'', ''app'', ''trunc'', ''binary'']"

definition flag_constant :: "string \<Rightarrow> mod_call" where
  "flag_constant flag =
     AfterInit ((''PyModule_AddIntConstant(m, (char *) '' @ dq @ ''STD_IOS_'' @ py_upper flag @ dq @
     '', std::ios::'' @ flag @ '');''))"

definition add_std_ios_openmode :: "mod_call list" where
  "add_std_ios_openmode = map flag_constant openmode_flags"

definition ofstream_class :: "mod_call list" where
  "ofstream_class =
     [AddInclude ''<fstream>'', AddClass ''ostream'' ''::std'' None,
      CannotBeConstructed ''ostream'' ''abstract base class'',
      AddClass ''ofstream'' ''::std'' (Some ''ostream''),
      AddEnum ''ofstream'' ''openmode''
        [(''app'', ''std::ios_base::app''), (''ate'', ''std::ios_base::ate''),
         (''binary'', ''std::ios_base::binary''), (''in'', ''std::ios_base::in''),
         (''out'', ''std::ios_base::out''), (''trunc'', ''std::ios_base::trunc'')],
      AddConstructor ''ofstream''
        [(''const char *'', ''filename'', None),
         (''::std::ofstream::openmode'', ''mode'', Some ''std::ios_base::out'')],
      AddMethod ''ofstream'' ''close'' None []]"

definition add_std_ofstream :: "mod_call list" where
  "add_std_ofstream = ofstream_class @ add_std_ios_openmode"

text \<open>
  The conversions of an open mode. The first one tests the wrapper against \<^verbatim>\<open>ReverseWrapperBase\<close>,
  which the file does not import. In the second an absent and an empty default value make the
  parameter mandatory.
\<close>

definition IosOpenmode_c_to_python :: "string \<Rightarrow> py_error + wrapper_call list" where
  "IosOpenmode_c_to_python v = Inl NameError"

definition IosOpenmode_python_to_c :: "(string \<Rightarrow> string) \<Rightarrow> string \<Rightarrow> string option \<Rightarrow> wrapper_call list" where
  "IosOpenmode_python_to_c fresh param_name v =
     (let name = fresh param_name
      in [DeclareVariable ''std::ios_base::openmode'' param_name v,
          ParseParameter ''i'' [''&'' @
          name] param_name (v \<noteq> None \<and> v \<noteq> Some ''''), CallParam name])"

definition add_ipv4_address_tp_hash :: "(string \<Rightarrow> bool) \<Rightarrow> py_error + mod_call list" where
  "add_ipv4_address_tp_hash has_item =
     with_item has_item ''Ipv4Address''
       [BodyLine ((nl @ ''long'' @ nl @ ''_ns3_Ipv4Address_tp_hash (PyObject *obj)'' @ nl @ ''{'' @ nl @
       ''   PyNs3Ipv4Address *addr = reinterpret_cast<PyNs3Ipv4Address *> (obj);'' @ nl @
       ''   return static_cast<long> (ns3::Ipv4AddressHash () (*addr->obj));'' @ nl @ ''}'' @ nl)),
        HeaderLine ''long _ns3_Ipv4Address_tp_hash (PyObject *obj);'',
        SetSlot ''Ipv4Address'' ''tp_hash'' ''_ns3_Ipv4Address_tp_hash'']"

section \<open>Customisations of the module core\<close>

text \<open>
  \<^verbatim>\<open>ArgvParam\<close>: one list of strings becomes a count and a vector. The handler writes the loop that
  fills the vector.
\<close>

definition argv_python_to_c :: "(string \<Rightarrow> string) \<Rightarrow> string \<Rightarrow> wrapper_call list" where
  "argv_python_to_c fresh param_name =
     (let py_name = fresh (''py_'' @ param_name);
          argc_var = fresh ''argc'';
          name = fresh param_name;
          idx = fresh ''idx''
      in [DeclareVariable ''PyObject*'' (''py_'' @ param_name) None,
          DeclareVariable ''int'' ''argc'' None,
          DeclareVariable ''char**'' param_name None,
          DeclareVariable ''Py_ssize_t'' ''idx'' None,
          ParseParameter ''O!'' [''&PyList_Type'', ''&'' @ py_name] param_name False,
          WriteCode ((name @ '' = (char **) malloc(sizeof(char*)*PyList_Size('' @ py_name @ ''));'')),
          CleanupCode (''free('' @ name @ '');''),
          WriteCode ((nl @ ''for ('' @ idx @ '' = 0; '' @ idx @ '' < PyList_Size('' @ py_name @ ''); '' @
          idx @ ''++)'' @ nl @ ''{'' @ nl)),
          Indent,
          WriteCode ((nl @ ''PyObject *item = PyList_GET_ITEM('' @ py_name @ '', '' @ idx @ '');'' @ nl)),
          ErrorCheck ((nl @ ''#if PY_VERSION_HEX >= 0x03000000'' @ nl @ ''!PyUnicode_Check(item)'' @ nl @
          ''#else'' @ nl @ ''!PyString_Check(item)'' @ nl @ ''#endif'' @ nl))
            (Some ((''PyErr_SetString(PyExc_TypeError, '' @ dq @ ''argument '' @ param_name @
            '' must be a list of strings'' @ dq @ '');''))),
          WriteCode ((''#if PY_VERSION_HEX >= 0x03000000'' @ nl @ name @ ''['' @ idx @
          ''] = const_cast<char *> (PyUnicode_AsUTF8(item));'' @ nl @ ''#else'' @ nl @ name @ ''['' @ idx @
          ''] = PyString_AsString(item);'' @ nl @ ''#endif'' @ nl)),
          Unindent,
          WriteCode ''}'',
          WriteCode (argc_var @ '' = PyList_Size('' @ py_name @ '');''),
          CallParam argc_var,
          CallParam name])"

definition core_Simulator_customizations :: "(string \<Rightarrow> bool) \<Rightarrow> py_error + mod_call list" where
  "core_Simulator_customizations has_item =
     with_item has_item ''ns3::Simulator''
       [simulator_wrapper ''Schedule'', simulator_wrapper ''ScheduleNow'', simulator_wrapper ''ScheduleWithContext'',
        simulator_wrapper ''ScheduleDestroy'', simulator_wrapper ''Run'']"

definition core_CommandLine_customizations :: "(string \<Rightarrow> bool) \<Rightarrow> py_error + mod_call list" where
  "core_CommandLine_customizations has_item =
     with_item has_item ''ns3::CommandLine''
       [AddArgvMethod ''ns3::CommandLine'' ''Parse'',
        CustomWrapper ''ns3::CommandLine'' ''AddValue'' ''_wrap_CommandLine_AddValue'' [''METH_VARARGS'', ''METH_KEYWORDS'']]"

definition core_TypeId_customizations :: "(string \<Rightarrow> bool) \<Rightarrow> py_error + mod_call list" where
  "core_TypeId_customizations has_item =
     with_item has_item ''ns3::TypeId''
       [CustomWrapper ''ns3::TypeId'' ''LookupByNameFailSafe'' ''_wrap_TypeId_LookupByNameFailSafe'' static_flags]"

definition core_add_std_ofstream :: "mod_call list" where
  "core_add_std_ofstream =
     ofstream_class
     @ map (\<lambda>alias. TypeAlias alias ''int'') [''std::_Ios_Openmode'', ''std::ios::openmode'']
     @ map flag_constant openmode_flags"

definition remove_realtime :: "(string \<Rightarrow> bool) \<Rightarrow> py_error + mod_call list" where
  "remove_realtime has_item =
     res_bind (res_map (\<lambda>clsname. with_item has_item (''ns3::'' @ clsname) [RemoveClass (''ns3::'' @ clsname)])
                 [''WallClockSynchronizer'', ''RealtimeSimulatorImpl'']) (\<lambda>classes.
     res_bind (with_item has_item ''ns3::RealtimeSimulatorImpl::SynchronizationMode''
                 [RemoveEnum ''ns3::RealtimeSimulatorImpl::SynchronizationMode'']) (\<lambda>enums.
       Inr (concat classes @ enums)))"

text \<open>\<open>features\<close> is the environment variable \<^verbatim>\<open>NS3_ENABLED_FEATURES\<close>, if it is set.\<close>

definition core_post_register_types ::
  "(string \<Rightarrow> bool) \<Rightarrow> string option \<Rightarrow> nat \<Rightarrow> py_error + mod_call list" where
  "core_post_register_types has_item features hexversion =
     res_bind (core_Simulator_customizations has_item) (\<lambda>simulator.
     res_bind (core_CommandLine_customizations has_item) (\<lambda>command_line.
     res_bind (core_TypeId_customizations has_item) (\<lambda>type_id.
       case features of
         None \<Rightarrow> Inl KeyError
       | Some fs \<Rightarrow>
           res_bind (if ''RealTime'' \<in> set (split_char (CHR '','') fs) then Inr [] else remove_realtime has_item) (\<lambda>removed.
             Inr (simulator @ command_line @ type_id @ core_add_std_ofstream @ removed
                  @ (if hexversion < 0x03070000 then [AfterInit ''PyEval_InitThreads();''] else []))))))"

section \<open>Customisations of the module wifi\<close>

text \<open>The overloads of three methods of \<^verbatim>\<open>WifiMacHelper\<close>, each with its list of parameters.\<close>

definition wifi_SetType :: "(string \<times> string) list list" where
  "wifi_SetType =
    [[(''std::string'', ''type'')],
     [(''std::string'', ''type''), (''std::string &'', ''param1_name''),
        (''ns3::AttributeValue const &'', ''param1_value'')],
     [(''std::string'', ''type''), (''std::string &'', ''param1_name''),
        (''ns3::AttributeValue const &'', ''param1_value''), (''std::string &'', ''param2_name''),
        (''ns3::AttributeValue const &'', ''param2_value'')],
     [(''std::string'', ''type''), (''std::string &'', ''param1_name''),
        (''ns3::AttributeValue const &'', ''param1_value''), (''std::string &'', ''param2_name''),
        (''ns3::AttributeValue const &'', ''param2_value''), (''std::string &'', ''param3_name''),
        (''ns3::AttributeValue const &'', ''param3_value'')],
     [(''std::string'', ''type''), (''std::string &'', ''param1_name''),
        (''ns3::AttributeValue const &'', ''param1_value''), (''std::string &'', ''param2_name''),
        (''ns3::AttributeValue const &'', ''param2_value''), (''std::string &'', ''param3_name''),
        (''ns3::AttributeValue const &'', ''param3_value''), (''std::string &'', ''param4_name''),
        (''ns3::AttributeValue const &'', ''param4_value'')],
     [(''std::string'', ''type''), (''std::string &'', ''param1_name''),
        (''ns3::AttributeValue const &'', ''param1_value''), (''std::string &'', ''param2_name''),
        (''ns3::AttributeValue const &'', ''param2_value''), (''std::string &'', ''param3_name''),
        (''ns3::AttributeValue const &'', ''param3_value''), (''std::string &'', ''param4_name''),
        (''ns3::AttributeValue const &'', ''param4_value''), (''std::string &'', ''param5_name''),
        (''ns3::AttributeValue const &'', ''param5_value'')],
     [(''std::string'', ''type''), (''std::string &'', ''param1_name''),
        (''ns3::AttributeValue const &'', ''param1_value''), (''std::string &'', ''param2_name''),
        (''ns3::AttributeValue const &'', ''param2_value''), (''std::string &'', ''param3_name''),
        (''ns3::AttributeValue const &'', ''param3_value''), (''std::string &'', ''param4_name''),
        (''ns3::AttributeValue const &'', ''param4_value''), (''std::string &'', ''param5_name''),
        (''ns3::AttributeValue const &'', ''param5_value''), (''std::string &'', ''param6_name''),
        (''ns3::AttributeValue const &'', ''param6_value'')]]"

definition wifi_SetProtectionManager :: "(string \<times> string) list list" where
  "wifi_SetProtectionManager =
    [[(''std::string'', ''type'')],
     [(''std::string'', ''type''), (''std::string &'', ''param1_name''),
        (''ns3::AttributeValue const &'', ''param1_value'')],
     [(''std::string'', ''type''), (''std::string &'', ''param1_name''),
        (''ns3::AttributeValue const &'', ''param1_value''), (''std::string &'', ''param2_name''),
        (''ns3::AttributeValue const &'', ''param2_value'')],
     [(''std::string'', ''type''), (''std::string &'', ''param1_name''),
        (''ns3::AttributeValue const &'', ''param1_value''), (''std::string &'', ''param2_name''),
        (''ns3::AttributeValue const &'', ''param2_value''), (''std::string &'', ''param3_name''),
        (''ns3::AttributeValue const &'', ''param3_value'')],
     [(''std::string'', ''type''), (''std::string &'', ''param1_name''),
        (''ns3::AttributeValue const &'', ''param1_value''), (''std::string &'', ''param2_name''),
        (''ns3::AttributeValue const &'', ''param2_value''), (''std::string &'', ''param3_name''),
        (''ns3::AttributeValue const &'', ''param3_value''), (''std::string &'', ''param4_name''),
        (''ns3::AttributeValue const &'', ''param4_value'')],
     [(''std::string'', ''type''), (''std::string &'', ''param1_name''),
        (''ns3::AttributeValue const &'', ''param1_value''), (''std::string &'', ''param2_name''),
        (''ns3::AttributeValue const &'', ''param2_value''), (''std::string &'', ''param3_name''),
        (''ns3::AttributeValue const &'', ''param3_value''), (''std::string &'', ''param4_name''),
        (''ns3::AttributeValue const &'', ''param4_value''), (''std::string &'', ''param5_name''),
        (''ns3::AttributeValue const &'', ''param5_value'')],
     [(''std::string'', ''type''), (''std::string &'', ''param1_name''),
        (''ns3::AttributeValue const &'', ''param1_value''), (''std::string &'', ''param2_name''),
        (''ns3::AttributeValue const &'', ''param2_value''), (''std::string &'', ''param3_name''),
        (''ns3::AttributeValue const &'', ''param3_value''), (''std::string &'', ''param4_name''),
        (''ns3::AttributeValue const &'', ''param4_value''), (''std::string &'', ''param5_name''),
        (''ns3::AttributeValue const &'', ''param5_value''), (''std::string &'', ''param6_name''),
        (''ns3::AttributeValue const &'', ''param6_value'')]]"

definition wifi_SetAckManager :: "(string \<times> string) list list" where
  "wifi_SetAckManager =
    [[(''std::string'', ''type'')],
     [(''std::string'', ''type''), (''std::string &'', ''param1_name''),
        (''ns3::AttributeValue const &'', ''param1_value'')],
     [(''std::string'', ''type''), (''std::string &'', ''param1_name''),
        (''ns3::AttributeValue const &'', ''param1_value''), (''std::string &'', ''param2_name''),
        (''ns3::AttributeValue const &'', ''param2_value'')],
     [(''std::string'', ''type''), (''std::string &'', ''param1_name''),
        (''ns3::AttributeValue const &'', ''param1_value''), (''std::string &'', ''param2_name''),
        (''ns3::AttributeValue const &'', ''param2_value''), (''std::string &'', ''param3_name''),
        (''ns3::AttributeValue const &'', ''param3_value'')],
     [(''std::string'', ''type''), (''std::string &'', ''param1_name''),
        (''ns3::AttributeValue const &'', ''param1_value''), (''std::string &'', ''param2_name''),
        (''ns3::AttributeValue const &'', ''param2_value''), (''std::string &'', ''param3_name''),
        (''ns3::AttributeValue const &'', ''param3_value''), (''std::string &'', ''param4_name''),
        (''ns3::AttributeValue const &'', ''param4_value'')],
     [(''std::string'', ''type''), (''std::string &'', ''param1_name''),
        (''ns3::AttributeValue const &'', ''param1_value''), (''std::string &'', ''param2_name''),
        (''ns3::AttributeValue const &'', ''param2_value''), (''std::string &'', ''param3_name''),
        (''ns3::AttributeValue const &'', ''param3_value''), (''std::string &'', ''param4_name''),
        (''ns3::AttributeValue const &'', ''param4_value''), (''std::string &'', ''param5_name''),
        (''ns3::AttributeValue const &'', ''param5_value'')],
     [(''std::string'', ''type''), (''std::string &'', ''param1_name''),
        (''ns3::AttributeValue const &'', ''param1_value''), (''std::string &'', ''param2_name''),
        (''ns3::AttributeValue const &'', ''param2_value''), (''std::string &'', ''param3_name''),
        (''ns3::AttributeValue const &'', ''param3_value''), (''std::string &'', ''param4_name''),
        (''ns3::AttributeValue const &'', ''param4_value''), (''std::string &'', ''param5_name''),
        (''ns3::AttributeValue const &'', ''param5_value''), (''std::string &'', ''param6_name''),
        (''ns3::AttributeValue const &'', ''param6_value'')]]"

definition wifi_post_register_types :: "(string \<Rightarrow> bool) \<Rightarrow> py_error + mod_call list" where
  "wifi_post_register_types has_item =
     with_item has_item ''WifiMacHelper''
       (let add = (\<lambda>name params. AddMethod ''WifiMacHelper'' name (Some ''void'') (map (\<lambda>(t, n). (t, n, None)) params))
        in AddInclude ((dq @ ''ns3/propagation-module.h'' @ dq))
           # map (add ''SetType'') wifi_SetType
           @ map (add ''SetProtectionManager'') wifi_SetProtectionManager
           @ map (add ''SetAckManager'') wifi_SetAckManager)"

section \<open>The program\<close>

text \<open>
  The error handler: the stack of the wrapper, which \<^verbatim>\<open>reverse\<close> turns round in place, is searched
  for the first entry of the file of definitions. The result is the place the warning names, if
  any, and the stack the wrapper is left with; the error counts as handled.
\<close>

definition handle_error :: "string \<Rightarrow> (string \<times> nat) list \<Rightarrow> (string \<times> nat) option \<times> (string \<times> nat) list" where
  "handle_error apidefs_file stack =
     (let stack = rev stack in (List.find (\<lambda>l. fst l = apidefs_file) stack, stack))"

text \<open>The files the generated code goes to: every section into the main one, the declarations into a header beside it.\<close>

record section_factory =
  main_sink :: string
  header_sink :: string
  header_name :: string

definition MyMultiSectionFactory :: "string \<Rightarrow> section_factory" where
  "MyMultiSectionFactory main_file_name =
     (let header = ''ns3module.h''
      in \<lparr>main_sink = main_file_name,
          header_sink = path_join (dirname main_file_name) header, header_name = header\<rparr>)"

definition get_section_code_sink :: "section_factory \<Rightarrow> string \<Rightarrow> string" where
  "get_section_code_sink f section_name = main_sink f"

definition get_common_header_include :: "section_factory \<Rightarrow> string" where
  "get_common_header_include f = dq @ header_name f @ dq"

text \<open>
  What the program finds to import: the definitions of the module, its customisations with the
  hooks they define, and its list of callbacks.
\<close>

record importable =
  apidefs :: bool
  customization :: "string list option"
  callbacks_list :: "string list list option"

text \<open>The steps of a run, in order.\<close>

datatype gen_step =
    ModuleInit
  | SetName string
  | ModuleCalls "mod_call list"
  | RegisterTypes
  | RegisterMethods
  | RegisterFunctions
  | Hook string
  | RegisterCallbacks "callback_handler list"
  | CustomizeAttributes
  | GenerateCallbacks "string list list"
  | Generate section_factory

text \<open>
  The imports run with the directory of the bindings at the head of the search path, which is taken
  off again whether they succeed or not. The result has the path afterwards.
\<close>

definition import_definitions ::
  "string list \<Rightarrow> string \<Rightarrow> importable \<Rightarrow> string list \<times> (py_error + string list \<times> string list list)" where
  "import_definitions sys_path bindings_dir found =
     (let sys_path = bindings_dir # sys_path;
          result = (if apidefs found
                    then Inr (case customization found of None \<Rightarrow> [] | Some hooks \<Rightarrow> hooks,
                              case callbacks_list found of None \<Rightarrow> [] | Some cbs \<Rightarrow> cbs)
                    else Inl ImportError)
      in (tl sys_path, result))"

definition hook_step :: "string list \<Rightarrow> string \<Rightarrow> gen_step list" where
  "hook_step hooks h = (if h \<in> set hooks then [Hook h] else [])"

definition gen_main ::
  "(string \<Rightarrow> bool) \<Rightarrow> string list \<Rightarrow> string list \<Rightarrow> importable \<Rightarrow> string list \<times> (py_error + gen_step list)" where
  "gen_main has_item argv sys_path found =
     (case tl argv of
        [module_abs_src_path, target, extension_name, output_cc_file_name] \<Rightarrow>
          (let module_name = basename module_abs_src_path;
               out = MyMultiSectionFactory output_cc_file_name;
               (sys_path, imported) = import_definitions sys_path (path_join module_abs_src_path ''bindings'') found
           in (sys_path, res_bind imported (\<lambda>(hooks, callback_classes).
                Inr ([ModuleInit, SetName extension_name,
                      ModuleCalls [AddInclude (dq @ ''ns3/'' @ module_name @ ''-module.h'' @ dq)],
                      ModuleCalls add_std_ios_openmode, RegisterTypes]
                     @ hook_step hooks ''post_register_types''
                     @ [RegisterCallbacks (register_callback_classes callback_classes), RegisterMethods]
                     @ hook_step hooks ''post_register_methods''
                     @ [ModuleCalls (Object_customizations has_item), CustomizeAttributes,
                        GenerateCallbacks callback_classes, RegisterFunctions]
                     @ hook_step hooks ''post_register_functions''
                     @ [Generate out]))))
      | _ \<Rightarrow> (sys_path, Inl ValueError))"

section \<open>What the definitions guarantee\<close>

text \<open>The overload with \<open>k\<close> attributes, as a helper of ns-3 takes them: a type and \<open>k\<close> pairs of a name and a value.\<close>

definition attribute_overload :: "nat \<Rightarrow> (string \<times> string) list" where
  "attribute_overload k =
     (''std::string'', ''type'')
     # concat (map (\<lambda>i. [(''std::string &'', ''param'' @ str_nat i @ ''_name''),
                         (''ns3::AttributeValue const &'', ''param'' @ str_nat i @ ''_value'')]) [1..<Suc k])"

text \<open>
  The hand written overloads of each of the three methods of the wifi helper are
  those with 0 to 6 attributes, in this order, one of each.
\<close>
theorem wifi_overloads_complete:
  "wifi_SetType = map attribute_overload [0..<7]
   \<and> wifi_SetProtectionManager = map attribute_overload [0..<7]
   \<and> wifi_SetAckManager = map attribute_overload [0..<7]"
  by code_simp

text \<open>
  Errors of one wrapper are reported by turns at the innermost and at the outermost
  place of its definition in the generated file, because each report turns the stack of the wrapper
  round.
\<close>
theorem handle_error_alternates:
  "fst (handle_error f stack) = List.find (\<lambda>l. fst l = f) (rev stack)
   \<and> fst (handle_error f (snd (handle_error f stack))) = List.find (\<lambda>l. fst l = f) stack
   \<and> snd (handle_error f (snd (handle_error f stack))) = stack"
  by (simp add: handle_error_def Let_def)

lemma sys_path_restored: "fst (gen_main has_item argv sys_path found) = sys_path"
  by (simp add: gen_main_def import_definitions_def Let_def split: list.split)

lemma fix_attribute_idem: "fix_attribute (fix_attribute p) = fix_attribute p"
  by (simp add: fix_attribute_def)

lemma Attribute_customizations_idem:
  "Attribute_customizations (Attribute_customizations classes) = Attribute_customizations classes"
  by (simp add: Attribute_customizations_def fix_attribute_idem comp_def)

lemma is_ok_with_item [simp]: "is_ok (with_item has_item name calls) \<longleftrightarrow> has_item name"
  by (simp add: with_item_def)

text \<open>
  The customisations of core can be made exactly when the environment variable with
  the features is set, the three customised classes are registered, and, without the feature
  \<^verbatim>\<open>RealTime\<close>, so are the classes and the enumeration that are then removed.
\<close>
theorem core_post_register_types_ok:
  "is_ok (core_post_register_types has_item features hexversion) \<longleftrightarrow>
     has_item ''ns3::Simulator'' \<and> has_item ''ns3::CommandLine'' \<and> has_item ''ns3::TypeId''
     \<and> (\<exists>fs. features = Some fs
          \<and> (''RealTime'' \<in> set (split_char (CHR '','') fs)
             \<or> (has_item ''ns3::WallClockSynchronizer'' \<and> has_item ''ns3::RealtimeSimulatorImpl''
                \<and> has_item ''ns3::RealtimeSimulatorImpl::SynchronizationMode'')))"
proof -
  have realtime: "is_ok (remove_realtime has_item) \<longleftrightarrow>
      has_item ''ns3::WallClockSynchronizer'' \<and> has_item ''ns3::RealtimeSimulatorImpl''
      \<and> has_item ''ns3::RealtimeSimulatorImpl::SynchronizationMode''"
    by (simp add: remove_realtime_def with_item_def)
  have "is_ok (core_Simulator_customizations has_item) \<longleftrightarrow> has_item ''ns3::Simulator''"
    "is_ok (core_CommandLine_customizations has_item) \<longleftrightarrow> has_item ''ns3::CommandLine''"
    "is_ok (core_TypeId_customizations has_item) \<longleftrightarrow> has_item ''ns3::TypeId''"
    by (simp_all add: core_Simulator_customizations_def core_CommandLine_customizations_def core_TypeId_customizations_def)
  with realtime show ?thesis
    unfolding core_post_register_types_def
    by (cases "core_Simulator_customizations has_item"; cases "core_CommandLine_customizations has_item";
        cases "core_TypeId_customizations has_item"; cases features; cases "remove_realtime has_item") simp_all
qed

lemma cannot_be_constructed_raises_TypeError:
  "lvalue \<noteq> '''' \<Longrightarrow> \<not> starts_with lvalue ''None'' \<Longrightarrow> cannot_be_constructed c \<Longrightarrow>
     ns3_object_instance_creation_function c lvalue params ctn = Inl TypeError"
  by (simp add: ns3_object_instance_creation_function_def)

end
