(* ===== verification/Viz_Svg.thy ===== *)
theory Viz_Svg
  imports Py_Prelude Complex_Main
begin

text \<open>
  The SVG image of a node, \<^verbatim>\<open>simulation/src/visualizer/visualizer/svgitem.py\<close>: its size under the
  custom sizes it is given, what its properties answer, its bounds, and the cache of image handles.
  A handle is known by the size of its picture; lengths are exact rationals.
\<close>

record svg_handle =
  h_width :: rat
  h_height :: rat

record svg_item =
  sv_x :: rat
  sv_y :: rat
  sv_sx :: rat
  sv_sy :: rat
  sv_handle :: svg_handle
  sv_width :: rat
  sv_height :: rat
  sv_custom_width :: "rat option"
  sv_custom_height :: "rat option"
  sv_changes :: nat   \<comment> \<open>how often the canvas was told of a change\<close>

definition new_svg_item :: "rat \<Rightarrow> rat \<Rightarrow> svg_handle \<Rightarrow> svg_item" where
  "new_svg_item x y h =
     \<lparr>sv_x = x, sv_y = y, sv_sx = 1, sv_sy = 1, sv_handle = h, sv_width = h_width h, sv_height = h_height h,
      sv_custom_width = None, sv_custom_height = None, sv_changes = 0\<rparr>"

text \<open>A picture without extent makes the scale a division by zero.\<close>

definition safe_div :: "rat \<Rightarrow> rat \<Rightarrow> py_error + rat" where
  "safe_div a b = (if b = 0 then Inl ZeroDivisionError else Inr (a / b))"

definition size_changed :: "svg_item \<Rightarrow> py_error + svg_item" where
  "size_changed s =
     (let w0 = h_width (sv_handle s); h0 = h_height (sv_handle s)
      in case (sv_custom_width s, sv_custom_height s) of
           (None, None) \<Rightarrow> Inr (s\<lparr>sv_width := w0, sv_height := h0, sv_sx := 1, sv_sy := 1\<rparr>)
         | (Some cw, None) \<Rightarrow>
             res_bind (safe_div cw w0) (\<lambda>sx. Inr (s\<lparr>sv_width := cw, sv_sx := sx, sv_sy := sx, sv_height := h0 * sx\<rparr>))
         | (None, Some ch) \<Rightarrow>
             res_bind (safe_div ch h0) (\<lambda>sy. Inr (s\<lparr>sv_height := ch, sv_sy := sy, sv_sx := sy, sv_width := w0 * sy\<rparr>))
         | (Some cw, Some ch) \<Rightarrow>
             res_bind (safe_div cw w0) (\<lambda>sx. res_bind (safe_div ch h0) (\<lambda>sy.
               Inr (s\<lparr>sv_width := cw, sv_height := ch, sv_sx := sx, sv_sy := sy\<rparr>))))"

definition changed :: "svg_item \<Rightarrow> svg_item" where
  "changed s = s\<lparr>sv_changes := Suc (sv_changes s)\<rparr>"

definition do_set_property :: "string \<Rightarrow> rat \<Rightarrow> svg_item \<Rightarrow> py_error + svg_item" where
  "do_set_property name v s =
     (if name = ''x'' then Inr (changed (s\<lparr>sv_x := v\<rparr>))
      else if name = ''y'' then Inr (changed (s\<lparr>sv_y := v\<rparr>))
      else if name = ''width''
      then res_bind (size_changed (s\<lparr>sv_custom_width := Some v\<rparr>)) (\<lambda>s. Inr (changed s))
      else if name = ''height''
      then res_bind (size_changed (s\<lparr>sv_custom_height := Some v\<rparr>)) (\<lambda>s. Inr (changed s))
      else Inl AttributeError)"

text \<open>Asking for the width resets both extents to those of the picture.\<close>

definition do_get_property :: "string \<Rightarrow> svg_item \<Rightarrow> py_error + rat \<times> svg_item" where
  "do_get_property name s =
     (if name = ''x'' then Inr (sv_x s, s)
      else if name = ''y'' then Inr (sv_y s, s)
      else if name = ''width''
      then (let s = s\<lparr>sv_width := h_width (sv_handle s), sv_height := h_height (sv_handle s)\<rparr> in Inr (sv_width s, s))
      else if name = ''height'' then Inr (sv_height s, s)
      else Inl AttributeError)"

definition do_simple_update :: "svg_item \<Rightarrow> (rat \<times> rat) \<times> (rat \<times> rat)" where
  "do_simple_update s = ((sv_x s, sv_y s), (sv_x s + sv_width s, sv_y s + sv_height s))"

definition do_simple_is_item_at :: "rat \<Rightarrow> rat \<Rightarrow> svg_item \<Rightarrow> bool" where
  "do_simple_is_item_at x y s =
     (if (x < sv_x s \<or> x > sv_x s + sv_width s) \<or> (y < sv_y s \<or> y > sv_y s + sv_height s) then False else True)"

text \<open>What the item paints: the picture moved and then scaled.\<close>

definition do_simple_paint :: "svg_item \<Rightarrow> rat \<times> rat \<Rightarrow> rat \<times> rat" where
  "do_simple_paint s p = (sv_x s + sv_sx s * fst p, sv_y s + sv_sy s * snd p)"

text \<open>The cache of handles; \<open>load\<close> reads the file of the picture, and fails when it cannot.\<close>

definition rsvg_handle_factory ::
  "(string \<Rightarrow> py_error + svg_handle) \<Rightarrow> string \<Rightarrow> (string, svg_handle) dict \<Rightarrow> py_error + svg_handle \<times> (string, svg_handle) dict" where
  "rsvg_handle_factory load base_file_name cache =
     (case dget cache base_file_name of
        Some h \<Rightarrow> Inr (h, cache)
      | None \<Rightarrow> res_bind (load base_file_name) (\<lambda>h. Inr (h, dset base_file_name h cache)))"

section \<open>The extent and the scale agree\<close>

text \<open>The invariant: the extent of the item is the extent of the picture times the scale.\<close>

definition svg_ok :: "svg_item \<Rightarrow> bool" where
  "svg_ok s \<longleftrightarrow> sv_width s = h_width (sv_handle s) * sv_sx s \<and> sv_height s = h_height (sv_handle s) * sv_sy s"

lemma svg_ok_new: "svg_ok (new_svg_item x y h)"
  by (simp add: svg_ok_def new_svg_item_def)

lemma safe_div_Inr: "safe_div a b = Inr q \<longleftrightarrow> b \<noteq> 0 \<and> q = a / b"
  by (auto simp: safe_div_def)

lemma size_changed_ok: "size_changed s = Inr s' \<Longrightarrow> svg_ok s'"
  by (auto simp: size_changed_def Let_def svg_ok_def res_bind_eq_Inr safe_div_Inr split: option.splits)

lemma size_changed_custom:
  "size_changed s = Inr s' \<Longrightarrow> sv_handle s' = sv_handle s
    \<and> (case sv_custom_width s of Some cw \<Rightarrow> sv_width s' = cw | None \<Rightarrow> True)
    \<and> (case sv_custom_height s of Some ch \<Rightarrow> sv_height s' = ch | None \<Rightarrow> True)
    \<and> (sv_custom_width s = None \<or> sv_custom_height s = None \<longrightarrow> sv_sx s' = sv_sy s')"
  by (auto simp: size_changed_def Let_def res_bind_eq_Inr split: option.splits)

lemma svg_ok_changed [simp]: "svg_ok (changed s) = svg_ok s"
  by (simp add: svg_ok_def changed_def)

lemma set_property_keeps_ok: "do_set_property name v s = Inr s' \<Longrightarrow> svg_ok s \<Longrightarrow> svg_ok s'"
  by (auto simp: do_set_property_def res_bind_eq_Inr svg_ok_def changed_def
      dest: size_changed_ok split: if_splits)

text \<open>
  An image that is given one extent keeps the proportions of its picture, and its
  painted picture fills exactly its bounds; but asking for its width takes the custom size away while the
  picture is still painted at the custom scale.
\<close>
theorem svg_width_property:
  assumes "do_set_property ''width'' v (new_svg_item x y h) = Inr s"
  shows "sv_width s = v \<and> sv_width s * h_height h = sv_height s * h_width h
    \<and> do_simple_update s = (do_simple_paint s (0, 0), do_simple_paint s (h_width h, h_height h))
    \<and> (\<exists>s'. do_get_property ''width'' s = Inr (h_width h, s') \<and> sv_width s' = h_width h \<and> sv_sx s' = v / h_width h)"
proof -
  have "size_changed ((new_svg_item x y h)\<lparr>sv_custom_width := Some v\<rparr>)
      = (if h_width h = 0 then Inl ZeroDivisionError
         else Inr ((new_svg_item x y h)\<lparr>sv_custom_width := Some v, sv_width := v, sv_sx := v / h_width h,
                     sv_sy := v / h_width h, sv_height := h_height h * (v / h_width h)\<rparr>))"
    by (simp add: size_changed_def new_svg_item_def safe_div_def Let_def)
  with assms have "h_width h \<noteq> 0" "s = changed ((new_svg_item x y h)\<lparr>sv_custom_width := Some v, sv_width := v,
      sv_sx := v / h_width h, sv_sy := v / h_width h, sv_height := h_height h * (v / h_width h)\<rparr>)"
    by (auto simp: do_set_property_def split: if_splits)
  then show ?thesis
    by (simp add: changed_def new_svg_item_def do_simple_update_def do_simple_paint_def do_get_property_def)
qed

lemma svg_width_property_witness:
  "\<exists>s. do_set_property ''width'' 30 (new_svg_item 0 0 \<lparr>h_width = 10, h_height = 20\<rparr>) = Inr s \<and> sv_height s = 60"
proof -
  obtain s where s: "do_set_property ''width'' 30 (new_svg_item 0 0 \<lparr>h_width = 10, h_height = 20\<rparr>) = Inr s"
    by (simp add: do_set_property_def size_changed_def new_svg_item_def safe_div_def)
  with svg_width_property [OF s] show ?thesis by simp
qed

lemma is_item_at_bounds:
  "do_simple_is_item_at px py s \<longleftrightarrow>
     fst (fst (do_simple_update s)) \<le> px \<and> px \<le> fst (snd (do_simple_update s))
     \<and> snd (fst (do_simple_update s)) \<le> py \<and> py \<le> snd (snd (do_simple_update s))"
  by (auto simp: do_simple_is_item_at_def do_simple_update_def not_less)

lemma handle_factory_cached:
  "rsvg_handle_factory load f cache = Inr (h, cache') \<Longrightarrow> rsvg_handle_factory load' f cache' = Inr (h, cache')"
  by (auto simp: rsvg_handle_factory_def res_bind_eq_Inr split: option.splits)

end
