(* ===== verification/Viz_Scene.thy ===== *)
theory Viz_Scene
  imports Viz_Svg Py_Float
begin

unbundle bit_operations_syntax

text \<open>
  The picture the visualizer keeps of a network: \<^verbatim>\<open>visualizer/visualizer/base.py\<close> (traits of
  devices, transformation of coordinates) and the classes \<^verbatim>\<open>Node\<close>, \<^verbatim>\<open>Channel\<close>, \<^verbatim>\<open>WiredLink\<close> and
  \<^verbatim>\<open>Visualizer\<close> of \<^verbatim>\<open>core.py\<close> as far as they build, move, select and draw. The objects of the
  canvas are the properties the code sets on them; the simulated network, the layout program
  and the window are arguments. Coordinates are exact rationals.
\<close>

section \<open>Devices and coordinates\<close>

type_synonym point = "rat \<times> rat"

record traits =
  is_wireless :: "bool option"
  is_virtual :: bool

definition make_traits :: "bool option \<Rightarrow> bool \<Rightarrow> py_error + traits" where
  "make_traits wireless virt =
     (if virt \<or> wireless \<noteq> None then Inr \<lparr>is_wireless = wireless, is_virtual = virt\<rparr> else Inl AssertionError)"

definition netdevice_traits :: "(string, traits) dict" where
  "netdevice_traits =
     [(''PointToPointNetDevice'', \<lparr>is_wireless = Some False, is_virtual = False\<rparr>),
      (''CsmaNetDevice'', \<lparr>is_wireless = Some False, is_virtual = False\<rparr>),
      (''WifiNetDevice'', \<lparr>is_wireless = Some True, is_virtual = False\<rparr>),
      (''BridgeNetDevice'', \<lparr>is_wireless = None, is_virtual = True\<rparr>),
      (''LoopbackNetDevice'', \<lparr>is_wireless = Some False, is_virtual = True\<rparr>),
      (''MeshPointDevice'', \<lparr>is_wireless = None, is_virtual = True\<rparr>),
      (''SubscriberStationNetDevice'', \<lparr>is_wireless = Some True, is_virtual = False\<rparr>),
      (''BaseStationNetDevice'', \<lparr>is_wireless = Some True, is_virtual = False\<rparr>),
      (''LteUeNetDevice'', \<lparr>is_wireless = Some True, is_virtual = False\<rparr>),
      (''LteEnbNetDevice'', \<lparr>is_wireless = Some True, is_virtual = False\<rparr>)]"

text \<open>An unknown type is entered into the table as a wireless device.\<close>

definition lookup_netdevice_traits :: "(string, traits) dict \<Rightarrow> string \<Rightarrow> (string, traits) dict \<times> traits" where
  "lookup_netdevice_traits tab class_type =
     (case dget tab class_type of
        Some t \<Rightarrow> (tab, t)
      | None \<Rightarrow> (let t = \<lparr>is_wireless = Some True, is_virtual = False\<rparr> in (dset class_type t tab, t)))"

definition pixels_per_meter :: rat where
  "pixels_per_meter = 3"

definition transform_distance_simulation_to_canvas :: "rat \<Rightarrow> rat" where
  "transform_distance_simulation_to_canvas d = d * pixels_per_meter"

definition transform_point_simulation_to_canvas :: "rat \<Rightarrow> rat \<Rightarrow> point" where
  "transform_point_simulation_to_canvas x y = (x * pixels_per_meter, y * pixels_per_meter)"

definition transform_distance_canvas_to_simulation :: "rat \<Rightarrow> rat" where
  "transform_distance_canvas_to_simulation d = d / pixels_per_meter"

definition transform_point_canvas_to_simulation :: "rat \<Rightarrow> rat \<Rightarrow> point" where
  "transform_point_canvas_to_simulation x y = (x / pixels_per_meter, y / pixels_per_meter)"

section \<open>Nodes, channels and links\<close>

text \<open>What the canvas shows of a node, and the node. Its links are numbers of links of the scene.\<close>

record look =
  radius :: rat
  fill_color :: int
  line_width :: rat
  stroke_color :: string

record node_view =
  nv_pos :: point
  nv_links :: "nat list"
  nv_selected :: bool
  nv_highlighted :: bool
  nv_color :: int
  nv_size :: rat
  nv_svg :: "svg_item option"
  nv_align :: point
  nv_label :: "string option"
  nv_label_pos :: "point option"
  nv_mobility :: "bool option"
  nv_look :: look

record channel_view =
  cv_pos :: point
  cv_links :: "nat list"

datatype link_end = ToNode nat | ToChannel nat

record link =
  l_node1 :: nat
  l_end :: link_end
  l_data :: "(point \<times> point) option"   \<comment> \<open>the drawn line\<close>

datatype show_mode = ShowAll | ShowNone | ShowSelected

record scene =
  s_nodes :: "(nat, node_view) dict"
  s_channels :: "(nat, channel_view) dict"
  s_links :: "link list"
  s_selected :: "nat option"
  s_mode :: show_mode
  s_interest :: "nat list"
  s_bounds :: "(point \<times> point) option"   \<comment> \<open>\<open>None\<close> where the canvas cannot tell its bounds\<close>
  s_traits :: "(string, traits) dict"

definition look_of :: "node_view \<Rightarrow> look" where
  "look_of n =
     (let sz = transform_distance_simulation_to_canvas (nv_size n);
          alpha = (if nv_svg n \<noteq> None then 0x80 else 0xff)
      in \<lparr>radius = sz, fill_color = (nv_color n AND 0xffffff00) OR alpha,
          line_width = (if nv_selected n then sz * (3 / 10) else sz * (15 / 100)),
          stroke_color = (if nv_highlighted n then ''yellow'' else ''black'')\<rparr>)"

definition node_of :: "scene \<Rightarrow> nat \<Rightarrow> node_view" where
  "node_of s k = the (dget (s_nodes s) k)"

definition put_node :: "nat \<Rightarrow> node_view \<Rightarrow> scene \<Rightarrow> scene" where
  "put_node k n s = s\<lparr>s_nodes := dset k n (s_nodes s)\<rparr>"

definition put_channel :: "nat \<Rightarrow> channel_view \<Rightarrow> scene \<Rightarrow> scene" where
  "put_channel c v s = s\<lparr>s_channels := dset c v (s_channels s)\<rparr>"

definition end_pos :: "scene \<Rightarrow> link_end \<Rightarrow> point" where
  "end_pos s e =
     (case e of ToNode k \<Rightarrow> nv_pos (node_of s k) | ToChannel c \<Rightarrow> cv_pos (the (dget (s_channels s) c)))"

definition update_points :: "nat \<Rightarrow> scene \<Rightarrow> scene" where
  "update_points l s =
     (let lk = s_links s ! l
      in s\<lparr>s_links := (s_links s)[l := lk\<lparr>l_data := Some (end_pos s (ToNode (l_node1 lk)), end_pos s (l_end lk))\<rparr>]\<rparr>)"

definition update_svg_position :: "point \<Rightarrow> node_view \<Rightarrow> node_view" where
  "update_svg_position p n =
     (case nv_svg n of
        None \<Rightarrow> n
      | Some sv \<Rightarrow> n\<lparr>nv_svg := Some (changed (changed (sv\<lparr>sv_x := fst p - (1 - fst (nv_align n)) * sv_width sv,
                                       sv_y := snd p - (1 - snd (nv_align n)) * sv_height sv\<rparr>)))\<rparr>)"

definition grow_bounds :: "point \<Rightarrow> (point \<times> point) option \<Rightarrow> (point \<times> point) option" where
  "grow_bounds p b =
     (case b of
        None \<Rightarrow> None
      | Some ((min_x, min_y), (max_x, max_y)) \<Rightarrow>
          Some ((min (fst p) min_x, min (snd p) min_y), (max (fst p) max_x, max (snd p) max_y)))"

text \<open>\<^verbatim>\<open>Node.set_position\<close>: the ellipse, the image, the links, the label, the bounds of the canvas.\<close>

definition set_position :: "nat \<Rightarrow> point \<Rightarrow> scene \<Rightarrow> scene" where
  "set_position k p s =
     (let n = update_svg_position p ((node_of s k)\<lparr>nv_pos := p\<rparr>);
          s = put_node k n s;
          s = fold update_points (nv_links n) s;
          s = (case nv_label_pos n of
                 None \<Rightarrow> s
               | Some _ \<Rightarrow> put_node k (n\<lparr>nv_label_pos := Some (fst p, snd p + nv_size n * 3)\<rparr>) s)
      in s\<lparr>s_bounds := grow_bounds p (s_bounds s)\<rparr>)"

definition set_channel_position :: "nat \<Rightarrow> point \<Rightarrow> scene \<Rightarrow> scene" where
  "set_channel_position c p s =
     (let v = (the (dget (s_channels s) c))\<lparr>cv_pos := p\<rparr>
      in fold update_points (cv_links v) (put_channel c v s))"

definition update_appearance :: "nat \<Rightarrow> scene \<Rightarrow> scene" where
  "update_appearance k s =
     (let n = (node_of s k)\<lparr>nv_look := look_of (node_of s k)\<rparr>
      in case nv_label n of
           None \<Rightarrow> put_node k n s
         | Some _ \<Rightarrow>
             (let n = n\<lparr>nv_label_pos := (case nv_label_pos n of None \<Rightarrow> Some (0, 0) | p \<Rightarrow> p)\<rparr>
              in set_position k (nv_pos n) (put_node k n s)))"

definition set_selected :: "nat \<Rightarrow> bool \<Rightarrow> scene \<Rightarrow> scene" where
  "set_selected k v s = update_appearance k (put_node k ((node_of s k)\<lparr>nv_selected := v\<rparr>) s)"

definition set_highlighted :: "nat \<Rightarrow> bool \<Rightarrow> scene \<Rightarrow> scene" where
  "set_highlighted k v s = update_appearance k (put_node k ((node_of s k)\<lparr>nv_highlighted := v\<rparr>) s)"

definition set_size :: "nat \<Rightarrow> rat \<Rightarrow> scene \<Rightarrow> scene" where
  "set_size k v s = update_appearance k (put_node k ((node_of s k)\<lparr>nv_size := v\<rparr>) s)"

text \<open>A colour is a number or a name, which the toolkit resolves into three 16 bit components.\<close>

datatype color = ColorNumber int | ColorName string

definition color_number :: "(string \<Rightarrow> nat \<times> nat \<times> nat) \<Rightarrow> color \<Rightarrow> int" where
  "color_number color_parse c =
     (case c of
        ColorNumber n \<Rightarrow> n
      | ColorName name \<Rightarrow>
          (case color_parse name of (red, green, blue) \<Rightarrow>
             push_bit 24 (drop_bit 8 (int red)) OR push_bit 16 (drop_bit 8 (int green))
             OR push_bit 8 (drop_bit 8 (int blue)) OR 0xff))"

definition set_color :: "(string \<Rightarrow> nat \<times> nat \<times> nat) \<Rightarrow> nat \<Rightarrow> color \<Rightarrow> scene \<Rightarrow> scene" where
  "set_color color_parse k c s =
     update_appearance k (put_node k ((node_of s k)\<lparr>nv_color := color_number color_parse c\<rparr>) s)"

text \<open>The label is tested against \<^verbatim>\<open>basestring\<close>, a name Python 3 does not have.\<close>

definition set_label :: "bool \<Rightarrow> nat \<Rightarrow> string \<Rightarrow> scene \<Rightarrow> py_error + scene" where
  "set_label py3 k label s =
     (if py3 then Inl NameError
      else Inr (update_appearance k (put_node k ((node_of s k)\<lparr>nv_label := Some label\<rparr>) s)))"

text \<open>
  The module of images is found only by Python 2: \<open>svg_load\<close> is \<open>None\<close> otherwise. The handle comes
  from its cache or the file.
\<close>

definition set_svg_icon ::
  "(string \<Rightarrow> py_error + svg_handle) option \<Rightarrow> nat \<Rightarrow> string \<Rightarrow> rat option \<Rightarrow> rat option \<Rightarrow> point \<Rightarrow> scene
    \<Rightarrow> py_error + scene" where
  "set_svg_icon svg_load k file_base_name w h align s =
     (if w = None \<and> h = None then Inl ValueError
      else case svg_load of
             None \<Rightarrow> Inl AttributeError
           | Some load \<Rightarrow>
               res_bind (load file_base_name) (\<lambda>handle.
                 let (x, y) = nv_pos (node_of s k); sv = new_svg_item x y handle
                 in res_bind (case w of None \<Rightarrow> Inr sv
                                | Some v \<Rightarrow> do_set_property ''width'' (transform_distance_simulation_to_canvas v) sv) (\<lambda>sv.
                    res_bind (case h of None \<Rightarrow> Inr sv
                                | Some v \<Rightarrow> do_set_property ''height'' (transform_distance_simulation_to_canvas v) sv) (\<lambda>sv.
                      Inr (update_appearance k
                            (put_node k (update_svg_position (x, y) ((node_of s k)\<lparr>nv_svg := Some sv, nv_align := align\<rparr>)) s))))))"

section \<open>Building the scene\<close>

definition default_node_size :: rat where
  "default_node_size = 1"

definition new_node :: node_view where
  "new_node =
     (let n = \<lparr>nv_pos = (0, 0), nv_links = [], nv_selected = False, nv_highlighted = False, nv_color = 0x808080ff,
               nv_size = default_node_size, nv_svg = None, nv_align = (0, 0), nv_label = None, nv_label_pos = None,
               nv_mobility = None, nv_look = \<lparr>radius = 0, fill_color = 0, line_width = 0, stroke_color = ''''\<rparr>\<rparr>
      in n\<lparr>nv_look := look_of n\<rparr>)"

definition get_node :: "nat \<Rightarrow> scene \<Rightarrow> scene" where
  "get_node index s = (case dget (s_nodes s) index of Some _ \<Rightarrow> s | None \<Rightarrow> put_node index new_node s)"

definition get_channel :: "nat \<Rightarrow> scene \<Rightarrow> scene" where
  "get_channel c s =
     (case dget (s_channels s) c of
        Some _ \<Rightarrow> s | None \<Rightarrow> put_channel c \<lparr>cv_pos = (0, 0), cv_links = []\<rparr> s)"

text \<open>A new link gets the next number and is entered at both of its ends; it is not drawn yet.\<close>

definition attach :: "nat \<Rightarrow> link_end \<Rightarrow> scene \<Rightarrow> scene" where
  "attach l e s =
     (case e of
        ToNode k \<Rightarrow> put_node k ((node_of s k)\<lparr>nv_links := nv_links (node_of s k) @ [l]\<rparr>) s
      | ToChannel c \<Rightarrow>
          (let v = the (dget (s_channels s) c) in put_channel c (v\<lparr>cv_links := cv_links v @ [l]\<rparr>) s))"

definition create_link :: "nat \<Rightarrow> link_end \<Rightarrow> scene \<Rightarrow> scene" where
  "create_link k e s =
     (let l = length (s_links s);
          s = s\<lparr>s_links := s_links s @ [\<lparr>l_node1 = k, l_end = e, l_data = None\<rparr>]\<rparr>
      in attach l e (attach l (ToNode k) s))"

section \<open>Scanning the topology\<close>

record sim_device =
  sd_type :: string
  sd_channel :: "nat option"

record sim_node =
  sn_pos :: "point option"        \<comment> \<open>the position of its mobility model, if it has one\<close>
  sn_devices :: "sim_device list"

text \<open>\<open>net_channels c\<close> are the nodes of the devices on the channel \<open>c\<close>, in the order of the devices.\<close>

record sim_net =
  net_nodes :: "sim_node list"
  net_channels :: "nat \<Rightarrow> nat list"

text \<open>What the layout program is given: names of nodes and edges between names.\<close>

record layout_graph =
  g_nodes :: "string list"
  g_edges :: "(string \<times> string) list"

definition node_name :: "nat \<Rightarrow> string" where
  "node_name i = ''Node '' @ str_nat i"

definition channel_name :: "nat \<Rightarrow> string" where
  "channel_name c = ''Channel '' @ str_nat c"

definition mobile :: "sim_net \<Rightarrow> nat \<Rightarrow> bool" where
  "mobile net i \<longleftrightarrow> sn_pos (net_nodes net ! i) \<noteq> None"

text \<open>The property \<^verbatim>\<open>has_mobility\<close> asks the network once and keeps the answer.\<close>

definition has_mobility :: "sim_net \<Rightarrow> nat \<Rightarrow> scene \<Rightarrow> bool \<times> scene" where
  "has_mobility net i s =
     (case nv_mobility (node_of s i) of
        Some b \<Rightarrow> (b, s)
      | None \<Rightarrow> (mobile net i, put_node i ((node_of s i)\<lparr>nv_mobility := Some (mobile net i)\<rparr>) s))"

definition add_edge :: "string \<Rightarrow> string \<Rightarrow> layout_graph \<Rightarrow> layout_graph" where
  "add_edge a b g = g\<lparr>g_edges := g_edges g @ [(a, b)]\<rparr>"

definition scan_other_end :: "sim_net \<Rightarrow> nat \<Rightarrow> nat \<Rightarrow> scene \<times> layout_graph \<Rightarrow> scene \<times> layout_graph" where
  "scan_other_end net nodeI other sg =
     (case sg of (s, g) \<Rightarrow>
        let s = get_node other s
        in if other = nodeI then (s, g)
           else
             (let (s, g) = (if mobile net nodeI then (s, g)
                            else (case has_mobility net other s of (b, s) \<Rightarrow>
                                    (s, if b then g else add_edge (node_name nodeI) (node_name other) g)))
              in (create_link nodeI (ToNode other) s, g)))"

definition scan_device ::
  "sim_net \<Rightarrow> nat \<Rightarrow> sim_device \<Rightarrow> scene \<times> layout_graph \<Rightarrow> py_error + scene \<times> layout_graph" where
  "scan_device net nodeI dev sg =
     (case sg of (s, g) \<Rightarrow>
        let (tab, t) = lookup_netdevice_traits (s_traits s) (sd_type dev);
            s = s\<lparr>s_traits := tab\<rparr>
        in if is_wireless t = Some True \<or> is_virtual t then Inr (s, g)
           else case sd_channel dev of
                  None \<Rightarrow> Inl AttributeError
                | Some c \<Rightarrow>
                    if length (net_channels net c) > 2
                    then Inr (create_link nodeI (ToChannel c) (get_channel c s),
                              if mobile net nodeI then g else add_edge (node_name nodeI) (channel_name c) g)
                    else Inr (fold (scan_other_end net nodeI) (net_channels net c) (s, g)))"

definition scan_node ::
  "(string \<Rightarrow> nat \<times> nat \<times> nat) \<Rightarrow> sim_net \<Rightarrow> nat \<Rightarrow> scene \<times> layout_graph \<Rightarrow> py_error + scene \<times> layout_graph" where
  "scan_node color_parse net nodeI sg =
     (case sg of (s, g) \<Rightarrow>
        let s = get_node nodeI s
        in res_fold (scan_device net nodeI) (sn_devices (net_nodes net ! nodeI))
             (case sn_pos (net_nodes net ! nodeI) of
                None \<Rightarrow> (s, g\<lparr>g_nodes := g_nodes g @ [node_name nodeI]\<rparr>)
              | Some (x, y) \<Rightarrow>
                  (set_position nodeI (transform_point_simulation_to_canvas x y)
                     (set_color color_parse nodeI (ColorName ''red'') s), g)))"

text \<open>
  A node of the finished layout is a name and a position in text. The variable \<^verbatim>\<open>obj\<close> keeps its last
  value when the name has neither of the two kinds.
\<close>

definition place_object :: "link_end \<Rightarrow> point \<Rightarrow> scene \<Rightarrow> scene" where
  "place_object obj p s = (case obj of ToNode k \<Rightarrow> set_position k p s | ToChannel c \<Rightarrow> set_channel_position c p s)"

definition find_object :: "string \<Rightarrow> link_end option \<Rightarrow> scene \<Rightarrow> py_error + link_end" where
  "find_object name obj s =
     (case split_char (CHR '' '') name of
        [node_type, node_id] \<Rightarrow>
          if node_type = ''Node''
          then res_bind (parse_int node_id) (\<lambda>i.
                 if 0 \<le> i \<and> dget (s_nodes s) (nat i) \<noteq> None then Inr (ToNode (nat i)) else Inl KeyError)
          else if node_type = ''Channel''
          then res_bind (parse_int node_id) (\<lambda>i.
                 if 0 \<le> i \<and> dget (s_channels s) (nat i) \<noteq> None then Inr (ToChannel (nat i)) else Inl KeyError)
          else (case obj of None \<Rightarrow> Inl UnboundLocalError | Some e \<Rightarrow> Inr e)
      | _ \<Rightarrow> Inl ValueError)"

definition parse_position :: "string \<Rightarrow> py_error + point" where
  "parse_position pos =
     res_bind (res_map parse_float (split_char (CHR '','') pos)) (\<lambda>fs.
       case fs of [x, y] \<Rightarrow> Inr (x, y) | _ \<Rightarrow> Inl ValueError)"

definition place_node :: "string \<times> string \<Rightarrow> scene \<times> link_end option \<Rightarrow> py_error + scene \<times> link_end option" where
  "place_node item so =
     (case item of (name, pos) \<Rightarrow> case so of (s, obj) \<Rightarrow>
        res_bind (if length (split_char (CHR '' '') name) = 2 then parse_position pos else Inl ValueError) (\<lambda>p.
        res_bind (find_object name obj s) (\<lambda>e. Inr (place_object e p s, Some e))))"

definition scan_topology ::
  "(string \<Rightarrow> nat \<times> nat \<times> nat) \<Rightarrow> (layout_graph \<Rightarrow> (string \<times> string) list) \<Rightarrow> sim_net \<Rightarrow> scene \<Rightarrow> py_error + scene" where
  "scan_topology color_parse layout net s =
     res_bind (res_fold (scan_node color_parse net) [0..<length (net_nodes net)] (s, \<lparr>g_nodes = [], g_edges = []\<rparr>)) (\<lambda>(s, g).
     res_bind (res_fold place_node (layout g) (s, None)) (\<lambda>(s, obj). Inr s))"

text \<open>\<^verbatim>\<open>_update_node_positions\<close>, without the scroll bars, which follow one node.\<close>

definition update_node_position :: "sim_net \<Rightarrow> nat \<Rightarrow> scene \<Rightarrow> scene" where
  "update_node_position net k s =
     (case has_mobility net k s of (b, s) \<Rightarrow>
        case (b, sn_pos (net_nodes net ! k)) of
          (True, Some (x, y)) \<Rightarrow> set_position k (transform_point_simulation_to_canvas x y) s
        | _ \<Rightarrow> s)"

definition update_node_positions :: "sim_net \<Rightarrow> scene \<Rightarrow> scene" where
  "update_node_positions net s = fold (update_node_position net) (dkeys (s_nodes s)) s"

section \<open>Selection\<close>

definition set_nodes_of_interest :: "nat list \<Rightarrow> scene \<Rightarrow> scene" where
  "set_nodes_of_interest ks s = s\<lparr>s_interest := ks\<rparr>"

definition interest_of_selection :: "scene \<Rightarrow> scene" where
  "interest_of_selection s =
     set_nodes_of_interest (case s_selected s of None \<Rightarrow> [] | Some k \<Rightarrow> [k]) s"

definition set_show_transmissions_mode :: "nat \<Rightarrow> show_mode \<Rightarrow> scene \<Rightarrow> scene" where
  "set_show_transmissions_mode n_nodes mode s =
     (let s = s\<lparr>s_mode := mode\<rparr>
      in case mode of
           ShowAll \<Rightarrow> set_nodes_of_interest [0..<n_nodes] s
         | ShowNone \<Rightarrow> set_nodes_of_interest [] s
         | ShowSelected \<Rightarrow> interest_of_selection s)"

text \<open>
  A node to select is given as nothing, as a number or simulated node (both looked up), as the
  node of the scene, or as something else.
\<close>

datatype node_arg = ArgNone | ArgIndex nat | ArgNode nat | ArgOther

definition resolve_node :: "node_arg \<Rightarrow> scene \<Rightarrow> py_error + nat option" where
  "resolve_node a s =
     (case a of
        ArgNone \<Rightarrow> Inr None
      | ArgIndex k \<Rightarrow> if dget (s_nodes s) k = None then Inl KeyError else Inr (Some k)
      | ArgNode k \<Rightarrow> Inr (Some k)
      | ArgOther \<Rightarrow> Inl TypeError)"

definition select_node :: "node_arg \<Rightarrow> scene \<Rightarrow> py_error + scene" where
  "select_node a s =
     res_bind (resolve_node a s) (\<lambda>node.
       if node = s_selected s then Inr s
       else
         (let s = (case s_selected s of None \<Rightarrow> s | Some k \<Rightarrow> set_selected k False s);
              s = s\<lparr>s_selected := node\<rparr>;
              s = (case node of None \<Rightarrow> s | Some k \<Rightarrow> set_selected k True s)
          in Inr (if s_mode s = ShowSelected then interest_of_selection s else s)))"

definition on_root_button_press_event :: "nat \<Rightarrow> scene \<Rightarrow> py_error + bool \<times> scene" where
  "on_root_button_press_event button s =
     (if button = 1 then res_bind (select_node ArgNone s) (\<lambda>s. Inr (True, s)) else Inr (False, s))"

end
