(* ===== verification/Viz_Invariant.thy ===== *)
theory Viz_Invariant
  imports Viz_Scene
begin

text \<open>
  The invariant of the scene: every link is entered at both of its ends and nowhere else, a drawn
  line joins the present positions of its ends, every node looks as its state says, and exactly the
  selected node is marked. All operations of \<^verbatim>\<open>Viz_Scene\<close> keep it.
\<close>

named_theorems scene_simps "projections of scene updates"

section \<open>The invariant\<close>

text \<open>The part that does not depend on which node the visualizer takes as selected is stated for any choice \<open>sel\<close>.\<close>

definition node_ok :: "nat option \<Rightarrow> scene \<Rightarrow> nat \<Rightarrow> node_view \<Rightarrow> bool" where
  "node_ok sel s k n \<longleftrightarrow> nv_look n = look_of n \<and> (nv_selected n \<longleftrightarrow> sel = Some k)
     \<and> (\<forall>l \<in> set (nv_links n). l < length (s_links s) \<and> (l_node1 (s_links s ! l) = k \<or> l_end (s_links s ! l) = ToNode k))"

definition channel_ok :: "scene \<Rightarrow> nat \<Rightarrow> channel_view \<Rightarrow> bool" where
  "channel_ok s c v \<longleftrightarrow> (\<forall>l \<in> set (cv_links v). l < length (s_links s) \<and> l_end (s_links s ! l) = ToChannel c)"

definition entered :: "scene \<Rightarrow> nat \<Rightarrow> link_end \<Rightarrow> bool" where
  "entered s l e =
     (case e of
        ToNode k \<Rightarrow> (case dget (s_nodes s) k of None \<Rightarrow> False | Some n \<Rightarrow> l \<in> set (nv_links n))
      | ToChannel c \<Rightarrow> (case dget (s_channels s) c of None \<Rightarrow> False | Some v \<Rightarrow> l \<in> set (cv_links v)))"

definition link_ok :: "scene \<Rightarrow> nat \<Rightarrow> link \<Rightarrow> bool" where
  "link_ok s l lk \<longleftrightarrow> entered s l (ToNode (l_node1 lk)) \<and> entered s l (l_end lk)
     \<and> (l_data lk = None \<or> l_data lk = Some (end_pos s (ToNode (l_node1 lk)), end_pos s (l_end lk)))"

definition scene_inv :: "nat option \<Rightarrow> scene \<Rightarrow> bool" where
  "scene_inv sel s \<longleftrightarrow>
     (\<forall>k n. dget (s_nodes s) k = Some n \<longrightarrow> node_ok sel s k n)
     \<and> (\<forall>c v. dget (s_channels s) c = Some v \<longrightarrow> channel_ok s c v)
     \<and> (\<forall>l < length (s_links s). link_ok s l (s_links s ! l))"

definition selection_ok :: "scene \<Rightarrow> bool" where
  "selection_ok s \<longleftrightarrow> (\<forall>k. s_selected s = Some k \<longrightarrow> dget (s_nodes s) k \<noteq> None)
     \<and> (s_mode s = ShowSelected \<longrightarrow> s_interest s = (case s_selected s of None \<Rightarrow> [] | Some k \<Rightarrow> [k]))"

definition scene_ok :: "scene \<Rightarrow> bool" where
  "scene_ok s \<longleftrightarrow> scene_inv (s_selected s) s \<and> selection_ok s"

section \<open>Projections\<close>

lemma put_node_simps [simp]:
  "s_nodes (put_node k n s) = dset k n (s_nodes s)" "s_channels (put_node k n s) = s_channels s"
  "s_links (put_node k n s) = s_links s" "s_selected (put_node k n s) = s_selected s"
  "s_mode (put_node k n s) = s_mode s" "s_interest (put_node k n s) = s_interest s"
  by (simp_all add: put_node_def)

lemma put_channel_simps [simp]:
  "s_nodes (put_channel c v s) = s_nodes s" "s_channels (put_channel c v s) = dset c v (s_channels s)"
  "s_links (put_channel c v s) = s_links s" "s_selected (put_channel c v s) = s_selected s"
  "s_mode (put_channel c v s) = s_mode s" "s_interest (put_channel c v s) = s_interest s"
  by (simp_all add: put_channel_def)

lemma dset_dset [simp]: "dset k v (dset k w d) = dset k v d"
  by (induction k w d rule: dset.induct) auto

lemma node_of_put [simp]: "node_of (put_node k n s) j = (if j = k then n else node_of s j)"
  by (simp add: node_of_def)

lemma put_node_put_node [simp]: "put_node k n (put_node k m s) = put_node k n s"
  by (simp add: put_node_def)

lemma node_of_get: "dget (s_nodes s) k = Some n \<Longrightarrow> node_of s k = n"
  by (simp add: node_of_def)

lemma end_pos_put_node:
  "end_pos (put_node k n s) e = (if e = ToNode k then nv_pos n else end_pos s e)"
  by (cases e) (auto simp: end_pos_def)

lemma update_points_simps [simp]:
  "s_nodes (update_points l s) = s_nodes s" "s_channels (update_points l s) = s_channels s"
  "s_selected (update_points l s) = s_selected s" "s_mode (update_points l s) = s_mode s"
  "s_interest (update_points l s) = s_interest s" "length (s_links (update_points l s)) = length (s_links s)"
  by (simp_all add: update_points_def Let_def)

lemma fold_update_points_simps [simp]:
  "s_nodes (fold update_points ls s) = s_nodes s" "s_channels (fold update_points ls s) = s_channels s"
  "s_selected (fold update_points ls s) = s_selected s" "s_mode (fold update_points ls s) = s_mode s"
  "s_interest (fold update_points ls s) = s_interest s"
  "length (s_links (fold update_points ls s)) = length (s_links s)"
  by (induction ls arbitrary: s) simp_all

lemma end_pos_cong: "s_nodes s = s_nodes t \<Longrightarrow> s_channels s = s_channels t \<Longrightarrow> end_pos s e = end_pos t e"
  by (cases e) (simp_all add: end_pos_def node_of_def)

lemma entered_cong: "s_nodes s = s_nodes t \<Longrightarrow> s_channels s = s_channels t \<Longrightarrow> entered s l e = entered t l e"
  by (cases e) (simp_all add: entered_def)

definition redraw :: "scene \<Rightarrow> link \<Rightarrow> link" where
  "redraw s lk = lk\<lparr>l_data := Some (end_pos s (ToNode (l_node1 lk)), end_pos s (l_end lk))\<rparr>"

lemma redraw_simps [simp]: "l_node1 (redraw s lk) = l_node1 lk" "l_end (redraw s lk) = l_end lk"
  by (simp_all add: redraw_def)

lemma fold_update_points_nth:
  "l < length (s_links s) \<Longrightarrow>
     s_links (fold update_points ls s) ! l = (if l \<in> set ls then redraw s (s_links s ! l) else s_links s ! l)"
proof (induction ls arbitrary: s)
  case (Cons m ls)
  have pos: "end_pos (update_points m s) e = end_pos s e" for e by (rule end_pos_cong) simp_all
  have step: "s_links (update_points m s) ! l = (if l = m then redraw s (s_links s ! l) else s_links s ! l)"
    using Cons.prems by (auto simp: update_points_def redraw_def Let_def nth_list_update)
  show ?case
    using Cons.IH [of "update_points m s"] Cons.prems step by (auto simp: redraw_def pos)
qed simp

section \<open>Changing one node\<close>

lemma put_node_inv:
  assumes inv: "scene_inv sel s" and get: "dget (s_nodes s) k = Some n"
    and same: "nv_pos n' = nv_pos n" "nv_links n' = nv_links n" and look: "nv_look n' = look_of n'"
    and sel: "nv_selected n' \<longleftrightarrow> sel' = Some k" "\<And>j. j \<noteq> k \<Longrightarrow> sel = Some j \<longleftrightarrow> sel' = Some j"
  shows "scene_inv sel' (put_node k n' s)"
proof -
  let ?s = "put_node k n' s"
  have pos: "end_pos ?s e = end_pos s e" for e
    using get same(1) by (cases e) (auto simp: end_pos_put_node end_pos_def node_of_get)
  have ent: "entered ?s l e = entered s l e" for l e
    using get same(2) by (cases e) (auto simp: entered_def)
  have "node_ok sel' ?s j m" if "dget (s_nodes ?s) j = Some m" for j m
  proof (cases "j = k")
    case True
    with that have "m = n'" by simp
    moreover have "node_ok sel s k n" using inv get by (simp add: scene_inv_def)
    ultimately show ?thesis using True same look sel by (simp add: node_ok_def)
  next
    case False
    with that have "node_ok sel s j m" using inv by (simp add: scene_inv_def)
    with False sel(2) show ?thesis by (simp add: node_ok_def)
  qed
  moreover have "channel_ok ?s c v \<longleftrightarrow> channel_ok s c v" "link_ok ?s l lk \<longleftrightarrow> link_ok s l lk" for c v l lk
    by (simp_all add: channel_ok_def link_ok_def pos ent)
  ultimately show ?thesis using inv by (simp add: scene_inv_def)
qed

lemma scene_inv_cong:
  assumes "s_nodes s = s_nodes t" and "s_channels s = s_channels t" and "s_links s = s_links t"
  shows "scene_inv sel s \<longleftrightarrow> scene_inv sel t"
  using assms end_pos_cong [OF assms(1,2)] entered_cong [OF assms(1,2)]
  by (simp add: scene_inv_def node_ok_def channel_ok_def link_ok_def)

section \<open>Moving\<close>

text \<open>
  A node or channel that gets a new position: the links at other places keep their ends, the ones at
  this place are drawn again. Both cases are one lemma about the two scenes before the drawing.
\<close>

lemma redraw_inv:
  assumes nodes: "\<And>j m. dget (s_nodes t) j = Some m \<Longrightarrow> node_ok sel s j m"
    and channels: "\<And>c v. dget (s_channels t) c = Some v \<Longrightarrow> channel_ok s c v"
    and links: "\<And>l. l < length (s_links s) \<Longrightarrow> link_ok s l (s_links s ! l)"
    and same: "s_links t = s_links s" "\<And>l e. entered t l e = entered s l e"
    and pos: "\<And>d. d \<noteq> e \<Longrightarrow> end_pos t d = end_pos s d"
    and ls: "\<And>l. entered s l e \<longleftrightarrow> l \<in> set ls"
  shows "scene_inv sel (fold update_points ls t)"
proof -
  let ?u = "fold update_points ls t"
  have u_pos: "end_pos ?u d = end_pos t d" for d by (rule end_pos_cong) simp_all
  have u_ent: "entered ?u l d = entered s l d" for l d
    using entered_cong [of ?u t l d] same(2) by simp
  have shape: "l_node1 (s_links ?u ! l) = l_node1 (s_links s ! l)" "l_end (s_links ?u ! l) = l_end (s_links s ! l)"
    if "l < length (s_links s)" for l
    using that fold_update_points_nth [of l t ls] by (simp_all add: same(1))
  have "link_ok ?u l (s_links ?u ! l)" if l: "l < length (s_links s)" for l
  proof (cases "l \<in> set ls")
    case True
    then have "s_links ?u ! l = redraw t (s_links s ! l)"
      using l fold_update_points_nth [of l t ls] by (simp add: same(1))
    then show ?thesis
      using links [OF l] by (simp add: link_ok_def u_ent u_pos) (simp add: redraw_def)
  next
    case False
    then have eq: "s_links ?u ! l = s_links s ! l"
      using l fold_update_points_nth [of l t ls] by (simp add: same(1))
    have "\<not> entered s l e" using False ls by simp
    then have "ToNode (l_node1 (s_links s ! l)) \<noteq> e" "l_end (s_links s ! l) \<noteq> e"
      using links [OF l] by (auto simp: link_ok_def)
    then have "end_pos t (ToNode (l_node1 (s_links s ! l))) = end_pos s (ToNode (l_node1 (s_links s ! l)))"
      "end_pos t (l_end (s_links s ! l)) = end_pos s (l_end (s_links s ! l))" using pos by simp_all
    then show ?thesis
      unfolding eq using links [OF l] by (simp add: link_ok_def u_ent u_pos)
  qed
  moreover have "node_ok sel ?u j m" if "dget (s_nodes t) j = Some m" for j m
    using nodes [OF that] shape by (auto simp: node_ok_def same(1))
  moreover have "channel_ok ?u c v" if "dget (s_channels t) c = Some v" for c v
    using channels [OF that] shape by (auto simp: channel_ok_def same(1))
  ultimately show ?thesis by (simp add: scene_inv_def same(1))
qed

lemma look_of_svg_position [simp]: "look_of (update_svg_position p n) = look_of n"
  by (simp add: update_svg_position_def look_of_def split: option.split)

lemma update_svg_position_simps [simp]:
  "nv_pos (update_svg_position p n) = nv_pos n" "nv_links (update_svg_position p n) = nv_links n"
  "nv_look (update_svg_position p n) = nv_look n" "nv_selected (update_svg_position p n) = nv_selected n"
  "nv_label (update_svg_position p n) = nv_label n" "nv_label_pos (update_svg_position p n) = nv_label_pos n"
  by (simp_all add: update_svg_position_def split: option.split)

lemma look_of_pos [simp]:
  "look_of (n\<lparr>nv_pos := p\<rparr>) = look_of n" "look_of (n\<lparr>nv_label_pos := q\<rparr>) = look_of n"
  "look_of (n\<lparr>nv_links := ls\<rparr>) = look_of n" "look_of (n\<lparr>nv_mobility := b\<rparr>) = look_of n"
  "look_of (n\<lparr>nv_look := x\<rparr>) = look_of n"
  by (simp_all add: look_of_def)

lemma set_position_inv:
  assumes inv: "scene_inv sel s" and get: "dget (s_nodes s) k = Some n"
  shows "scene_inv sel (set_position k p s)"
proof -
  define n1 where "n1 = update_svg_position p (n\<lparr>nv_pos := p\<rparr>)"
  define t where "t = put_node k n1 s"
  define u where "u = fold update_points (nv_links n) t"
  have n: "node_ok sel s k n" using inv get by (simp add: scene_inv_def)
  have "scene_inv sel u"
    unfolding u_def
  proof (rule redraw_inv [where s = s and e = "ToNode k"])
    show "node_ok sel s j m" if "dget (s_nodes t) j = Some m" for j m
    proof (cases "j = k")
      case True
      with that have "m = n1" by (simp add: t_def)
      with n True show ?thesis by (simp add: node_ok_def n1_def)
    next
      case False
      with that inv show ?thesis by (simp add: t_def scene_inv_def)
    qed
    show "entered t l e = entered s l e" for l e
      using get by (cases e) (auto simp: entered_def t_def n1_def)
  qed (use inv get in \<open>auto simp: scene_inv_def t_def end_pos_put_node entered_def\<close>)
  have get_u: "dget (s_nodes u) k = Some n1" by (simp add: u_def t_def)
  have "nv_look n1 = look_of n1" "nv_selected n1 \<longleftrightarrow> sel = Some k" using n by (simp_all add: n1_def node_ok_def)
  with \<open>scene_inv sel u\<close> have label: "scene_inv sel (put_node k (n1\<lparr>nv_label_pos := q\<rparr>) u)" for q
    by (intro put_node_inv [OF _ get_u]) simp_all
  have "scene_inv sel (set_position k p s) \<longleftrightarrow>
      scene_inv sel (case nv_label_pos n1 of None \<Rightarrow> u
        | Some _ \<Rightarrow> put_node k (n1\<lparr>nv_label_pos := Some (fst p, snd p + nv_size n1 * 3)\<rparr>) u)"
    unfolding set_position_def Let_def node_of_get [OF get] u_def t_def n1_def
    by (rule scene_inv_cong) (simp_all split: option.split)
  with label \<open>scene_inv sel u\<close> show ?thesis by (simp split: option.split)
qed

lemma set_position_simps [simp]:
  "s_channels (set_position k p s) = s_channels s" "s_selected (set_position k p s) = s_selected s"
  "s_mode (set_position k p s) = s_mode s" "s_interest (set_position k p s) = s_interest s"
  by (simp_all add: set_position_def Let_def split: option.split)

lemma set_position_keys [simp]: "fst ` set (s_nodes (set_position k p s)) = insert k (fst ` set (s_nodes s))"
  by (simp add: set_position_def Let_def split: option.split)

lemma set_channel_position_inv:
  assumes inv: "scene_inv sel s" and get: "dget (s_channels s) c = Some v"
  shows "scene_inv sel (set_channel_position c p s)"
proof -
  define t where "t = put_channel c (v\<lparr>cv_pos := p\<rparr>) s"
  have "scene_inv sel (fold update_points (cv_links v) t)"
  proof (rule redraw_inv [where s = s and e = "ToChannel c"])
    show "channel_ok s d w" if "dget (s_channels t) d = Some w" for d w
    proof (cases "d = c")
      case True
      with that have "w = v\<lparr>cv_pos := p\<rparr>" by (simp add: t_def)
      moreover have "channel_ok s c v" using inv get by (simp add: scene_inv_def)
      ultimately show ?thesis using True by (simp add: channel_ok_def)
    next
      case False
      with that inv show ?thesis by (simp add: t_def scene_inv_def)
    qed
    show "entered t l e = entered s l e" for l e
      using get by (cases e) (auto simp: entered_def t_def)
    show "end_pos t d = end_pos s d" if "d \<noteq> ToChannel c" for d
      using that by (cases d) (auto simp: end_pos_def t_def node_of_def)
  qed (use inv get in \<open>auto simp: scene_inv_def t_def entered_def\<close>)
  then show ?thesis by (simp add: set_channel_position_def get t_def Let_def)
qed

section \<open>Changing the looks\<close>

lemma update_appearance_inv:
  assumes inv: "scene_inv sel s" and get: "dget (s_nodes s) k = Some n"
    and same: "nv_pos n' = nv_pos n" "nv_links n' = nv_links n"
    and sel: "nv_selected n' \<longleftrightarrow> sel' = Some k" "\<And>j. j \<noteq> k \<Longrightarrow> sel = Some j \<longleftrightarrow> sel' = Some j"
  shows "scene_inv sel' (update_appearance k (put_node k n' s))"
proof -
  have put: "scene_inv sel' (put_node k (n'\<lparr>nv_look := look_of n', nv_label_pos := q\<rparr>) s)"
    "scene_inv sel' (put_node k (n'\<lparr>nv_look := look_of n'\<rparr>) s)" for q
    using same sel by (auto intro!: put_node_inv [OF inv get])
  show ?thesis
  proof (cases "nv_label n'")
    case None
    with put(2) show ?thesis by (simp add: update_appearance_def Let_def)
  next
    case (Some label)
    then show ?thesis
      using set_position_inv [OF put(1), where k = k] by (simp add: update_appearance_def Let_def)
  qed
qed

lemma update_appearance_simps [simp]:
  "s_channels (update_appearance k s) = s_channels s" "s_selected (update_appearance k s) = s_selected s"
  "s_mode (update_appearance k s) = s_mode s" "s_interest (update_appearance k s) = s_interest s"
  "fst ` set (s_nodes (update_appearance k s)) = insert k (fst ` set (s_nodes s))"
  by (simp_all add: update_appearance_def Let_def split: option.split)

text \<open>The setters that leave the selection alone.\<close>

lemma setter_inv:
  assumes "scene_inv sel s" and "dget (s_nodes s) k = Some n"
  shows "scene_inv sel (set_highlighted k b s)" and "scene_inv sel (set_size k z s)"
    and "scene_inv sel (set_color cp k col s)"
proof -
  have "nv_selected n \<longleftrightarrow> sel = Some k" using assms by (simp add: scene_inv_def node_ok_def)
  then show "scene_inv sel (set_highlighted k b s)" "scene_inv sel (set_size k z s)" "scene_inv sel (set_color cp k col s)"
    unfolding set_highlighted_def set_size_def set_color_def node_of_get [OF assms(2)]
    by (auto intro!: update_appearance_inv [OF assms])
qed

lemma set_selected_inv:
  assumes "scene_inv sel s" and "dget (s_nodes s) k = Some n" and "sel \<in> {None, Some k}"
  shows "scene_inv (if b then Some k else None) (set_selected k b s)"
  unfolding set_selected_def node_of_get [OF assms(2)]
  using assms(3) by (intro update_appearance_inv [OF assms(1,2)]) auto

section \<open>Building\<close>

lemma get_node_inv:
  assumes "scene_inv sel s" and "\<And>k. sel = Some k \<Longrightarrow> dget (s_nodes s) k \<noteq> None"
  shows "scene_inv sel (get_node i s)"
proof (cases "dget (s_nodes s) i")
  case None
  let ?t = "put_node i new_node s"
  have new: "nv_look new_node = look_of new_node" "nv_links new_node = []" "\<not> nv_selected new_node"
    by (simp_all add: new_node_def Let_def) (simp add: look_of_def)
  have ent: "entered s l e \<Longrightarrow> entered ?t l e \<and> end_pos ?t e = end_pos s e" for l e
    using None by (cases e) (auto simp: entered_def end_pos_def)
  have "link_ok ?t l (s_links s ! l)" if "l < length (s_links s)" for l
  proof -
    have "link_ok s l (s_links s ! l)" using assms(1) that by (simp add: scene_inv_def)
    then show ?thesis using ent by (auto simp: link_ok_def)
  qed
  moreover have "node_ok sel ?t k n" if "dget (s_nodes ?t) k = Some n" for k n
    using that assms None new by (cases "k = i") (auto simp: scene_inv_def node_ok_def)
  moreover have "channel_ok ?t c v" if "dget (s_channels s) c = Some v" for c v
    using that assms(1) by (auto simp: scene_inv_def channel_ok_def)
  ultimately show ?thesis by (simp add: get_node_def None scene_inv_def)
qed (use assms(1) in \<open>simp add: get_node_def\<close>)

lemma get_channel_inv:
  assumes "scene_inv sel s"
  shows "scene_inv sel (get_channel c s)"
proof (cases "dget (s_channels s) c")
  case None
  let ?t = "put_channel c \<lparr>cv_pos = (0, 0), cv_links = []\<rparr> s"
  have ent: "entered s l e \<Longrightarrow> entered ?t l e \<and> end_pos ?t e = end_pos s e" for l e
    using None by (cases e) (auto simp: entered_def end_pos_def node_of_def)
  have "link_ok ?t l (s_links s ! l)" if "l < length (s_links s)" for l
  proof -
    have "link_ok s l (s_links s ! l)" using assms that by (simp add: scene_inv_def)
    then show ?thesis using ent by (auto simp: link_ok_def)
  qed
  then show ?thesis using assms None
    by (auto simp: get_channel_def scene_inv_def channel_ok_def node_ok_def)
qed (use assms in \<open>simp add: get_channel_def\<close>)

definition present :: "scene \<Rightarrow> link_end \<Rightarrow> bool" where
  "present s e = (case e of ToNode k \<Rightarrow> dget (s_nodes s) k \<noteq> None | ToChannel c \<Rightarrow> dget (s_channels s) c \<noteq> None)"

lemma present_simps [simp]:
  "present s (ToNode k) \<longleftrightarrow> (\<exists>n. dget (s_nodes s) k = Some n)"
  "present s (ToChannel c) \<longleftrightarrow> (\<exists>v. dget (s_channels s) c = Some v)"
  by (auto simp: present_def)

lemma attach_frame [simp]:
  "s_links (attach l e s) = s_links s" "s_selected (attach l e s) = s_selected s"
  "s_mode (attach l e s) = s_mode s" "s_interest (attach l e s) = s_interest s"
  by (simp_all add: attach_def Let_def split: link_end.split)

lemma attach_entered:
  "present s e \<Longrightarrow> entered (attach l e s) m d \<longleftrightarrow> entered s m d \<or> (m = l \<and> d = e)"
  by (cases e; cases d) (auto simp: attach_def entered_def node_of_def Let_def)

lemma attach_end_pos: "present s e \<Longrightarrow> end_pos (attach l e s) d = end_pos s d"
  by (cases e; cases d) (auto simp: attach_def end_pos_def node_of_def Let_def)

lemma attach_node:
  assumes "present s e" and "dget (s_nodes (attach l e s)) k = Some n"
  shows "\<exists>n0 ls. dget (s_nodes s) k = Some n0 \<and> n = n0\<lparr>nv_links := nv_links n0 @ ls\<rparr> \<and> set ls \<subseteq> {l}
    \<and> (ls \<noteq> [] \<longrightarrow> e = ToNode k)"
proof (cases "e = ToNode k")
  case True
  with assms obtain n0 where "dget (s_nodes s) k = Some n0" "n = n0\<lparr>nv_links := nv_links n0 @ [l]\<rparr>"
    by (auto simp: attach_def node_of_def)
  with True show ?thesis by (intro exI [of _ n0] exI [of _ "[l]"]) simp
next
  case False
  with assms(2) have "dget (s_nodes s) k = Some n" by (cases e) (auto simp: attach_def Let_def)
  then show ?thesis by (intro exI [of _ n] exI [of _ "[]"]) simp
qed

lemma attach_channel:
  assumes "present s e" and "dget (s_channels (attach l e s)) c = Some v"
  shows "\<exists>v0 ls. dget (s_channels s) c = Some v0 \<and> v = v0\<lparr>cv_links := cv_links v0 @ ls\<rparr> \<and> set ls \<subseteq> {l}
    \<and> (ls \<noteq> [] \<longrightarrow> e = ToChannel c)"
proof (cases "e = ToChannel c")
  case True
  with assms obtain v0 where "dget (s_channels s) c = Some v0" "v = v0\<lparr>cv_links := cv_links v0 @ [l]\<rparr>"
    by (auto simp: attach_def Let_def)
  with True show ?thesis by (intro exI [of _ v0] exI [of _ "[l]"]) simp
next
  case False
  with assms(2) have "dget (s_channels s) c = Some v" by (cases e) (auto simp: attach_def Let_def)
  then show ?thesis by (intro exI [of _ v] exI [of _ "[]"]) simp
qed

lemma attach_present [simp]: "present s e \<Longrightarrow> present (attach l e s) d \<longleftrightarrow> present s d"
  by (cases e; cases d) (auto simp: attach_def Let_def)

lemma create_link_frame [simp]:
  "s_links (create_link k e s) = s_links s @ [\<lparr>l_node1 = k, l_end = e, l_data = None\<rparr>]"
  "s_selected (create_link k e s) = s_selected s" "s_mode (create_link k e s) = s_mode s"
  "s_interest (create_link k e s) = s_interest s"
  by (simp_all add: create_link_def Let_def)

lemma create_link_present [simp]:
  "present s (ToNode k) \<Longrightarrow> present s e \<Longrightarrow> present (create_link k e s) d \<longleftrightarrow> present s d"
proof -
  assume "present s (ToNode k)" "present s e"
  moreover have "present (s\<lparr>s_links := x\<rparr>) d \<longleftrightarrow> present s d" for x d by (cases d) simp_all
  ultimately show ?thesis by (simp add: create_link_def Let_def del: present_simps)
qed

lemma create_link_inv:
  assumes inv: "scene_inv sel s" and k: "present s (ToNode k)" and e: "present s e"
  shows "scene_inv sel (create_link k e s)"
proof -
  define l where "l = length (s_links s)"
  define r where "r = s\<lparr>s_links := s_links s @ [\<lparr>l_node1 = k, l_end = e, l_data = None\<rparr>]\<rparr>"
  define t where "t = attach l e (attach l (ToNode k) r)"
  have t: "create_link k e s = t" by (simp add: create_link_def t_def r_def l_def Let_def)
  have pres: "present r (ToNode k)" "present (attach l (ToNode k) r) e"
  proof -
    show "present r (ToNode k)" using k by (simp add: r_def)
    moreover have "present r e" using e by (cases e) (simp_all add: r_def)
    ultimately show "present (attach l (ToNode k) r) e" by (simp del: present_simps)
  qed
  have ent: "entered t m d \<longleftrightarrow> entered s m d \<or> (m = l \<and> (d = ToNode k \<or> d = e))" for m d
    using attach_entered [OF pres(1)] attach_entered [OF pres(2)] entered_cong [of r s]
    by (auto simp: t_def r_def)
  have pos: "end_pos t d = end_pos s d" for d
    using attach_end_pos [OF pres(1)] attach_end_pos [OF pres(2)] end_pos_cong [of r s] by (simp add: t_def r_def)
  have links: "s_links t = s_links s @ [\<lparr>l_node1 = k, l_end = e, l_data = None\<rparr>]" by (simp add: t_def r_def)
  have "node_ok sel t j n" if get: "dget (s_nodes t) j = Some n" for j n
  proof -
    obtain n1 ls1 where 1: "dget (s_nodes (attach l (ToNode k) r)) j = Some n1" "n = n1\<lparr>nv_links := nv_links n1 @ ls1\<rparr>"
      "set ls1 \<subseteq> {l}" "ls1 \<noteq> [] \<longrightarrow> e = ToNode j"
      using attach_node [OF pres(2) get [unfolded t_def]] by blast
    obtain n0 ls0 where 0: "dget (s_nodes r) j = Some n0" "n1 = n0\<lparr>nv_links := nv_links n0 @ ls0\<rparr>"
      "set ls0 \<subseteq> {l}" "ls0 \<noteq> [] \<longrightarrow> ToNode k = ToNode j"
      using attach_node [OF pres(1) 1(1)] by blast
    have "node_ok sel s j n0" using inv 0(1) by (simp add: scene_inv_def r_def)
    moreover have "l \<in> set ls0 \<Longrightarrow> k = j" "l \<in> set ls1 \<Longrightarrow> e = ToNode j" using 0(4) 1(4) by auto
    ultimately show ?thesis
      using 0(2,3) 1(2,3) by (auto simp: node_ok_def links nth_append l_def dest!: subsetD)
  qed
  moreover have "channel_ok t c v" if get: "dget (s_channels t) c = Some v" for c v
  proof -
    obtain v1 ls1 where 1: "dget (s_channels (attach l (ToNode k) r)) c = Some v1" "v = v1\<lparr>cv_links := cv_links v1 @ ls1\<rparr>"
      "set ls1 \<subseteq> {l}" "ls1 \<noteq> [] \<longrightarrow> e = ToChannel c"
      using attach_channel [OF pres(2) get [unfolded t_def]] by blast
    have "dget (s_channels s) c = Some v1" using 1(1) by (simp add: attach_def r_def)
    then have "channel_ok s c v1" using inv by (simp add: scene_inv_def)
    moreover have "l \<in> set ls1 \<Longrightarrow> e = ToChannel c" using 1(4) by auto
    ultimately show ?thesis
      using 1(2,3) by (auto simp: channel_ok_def links nth_append l_def dest!: subsetD)
  qed
  moreover have "link_ok t m (s_links t ! m)" if "m < length (s_links t)" for m
  proof (cases "m = l")
    case True
    then show ?thesis by (simp add: link_ok_def ent links l_def nth_append)
  next
    case False
    with that have m: "m < length (s_links s)" by (simp add: links l_def)
    then have "link_ok s m (s_links s ! m)" using inv by (simp add: scene_inv_def)
    with m show ?thesis by (simp add: link_ok_def ent pos links nth_append)
  qed
  ultimately show ?thesis by (simp add: t scene_inv_def)
qed

section \<open>The operations of the visualizer\<close>

text \<open>What all operations but the selection do to the rest of the scene: objects stay, the selection is not touched.\<close>

definition grows :: "scene \<Rightarrow> scene \<Rightarrow> bool" where
  "grows s t \<longleftrightarrow> (\<forall>e. present s e \<longrightarrow> present t e) \<and> s_selected t = s_selected s \<and> s_mode t = s_mode s
     \<and> s_interest t = s_interest s"

definition keeps :: "scene \<Rightarrow> scene \<Rightarrow> bool" where
  "keeps s t \<longleftrightarrow> (scene_ok s \<longrightarrow> scene_ok t) \<and> grows s t"

lemma grows_refl [simp]: "grows s s" and grows_trans: "grows s t \<Longrightarrow> grows t u \<Longrightarrow> grows s u"
  by (simp_all add: grows_def)

lemma keeps_refl [simp]: "keeps s s"
  by (simp add: keeps_def)

lemma keeps_trans [trans]: "keeps s t \<Longrightarrow> keeps t u \<Longrightarrow> keeps s u"
  using grows_trans by (auto simp: keeps_def)

lemma keeps_present: "keeps s t \<Longrightarrow> present s e \<Longrightarrow> present t e"
  by (simp add: keeps_def grows_def)

lemma present_node_iff: "present s (ToNode k) \<longleftrightarrow> k \<in> fst ` set (s_nodes s)"
  using dget_None_iff [of "s_nodes s" k] by (auto simp del: not_None_eq)

lemma keepsI:
  assumes "grows s t" and "scene_ok s \<Longrightarrow> scene_inv (s_selected s) t"
  shows "keeps s t"
proof -
  have "selection_ok s \<Longrightarrow> selection_ok t"
  proof -
    assume sel: "selection_ok s"
    have "dget (s_nodes t) k \<noteq> None" if "s_selected s = Some k" for k
    proof -
      have "present s (ToNode k)" using sel that by (simp add: selection_ok_def)
      then have "present t (ToNode k)" using assms(1) by (simp add: grows_def del: present_simps)
      then show ?thesis by simp
    qed
    with sel assms(1) show "selection_ok t" by (auto simp: selection_ok_def grows_def)
  qed
  moreover have "s_selected t = s_selected s" using assms(1) by (simp add: grows_def)
  ultimately show ?thesis using assms by (simp add: keeps_def scene_ok_def)
qed

lemma scene_ok_inv: "scene_ok s \<Longrightarrow> scene_inv (s_selected s) s"
  by (simp add: scene_ok_def)

lemma presentE:
  assumes "present s (ToNode k)"
  obtains n where "dget (s_nodes s) k = Some n"
  using assms by auto

lemma keeps_set_position: "present s (ToNode k) \<Longrightarrow> keeps s (set_position k p s)"
proof (rule keepsI)
  assume "present s (ToNode k)"
  then show "grows s (set_position k p s)"
    unfolding grows_def
  proof (intro conjI allI impI)
    fix e assume "present s e"
    then show "present (set_position k p s) e"
      by (cases e) (simp_all add: present_node_iff del: present_simps(1))
  qed simp_all
  assume "scene_ok s"
  with \<open>present s (ToNode k)\<close> show "scene_inv (s_selected s) (set_position k p s)"
    by (auto elim!: presentE intro: set_position_inv scene_ok_inv)
qed

lemma fold_update_points_present [simp]: "present (fold update_points ls s) e = present s e"
  by (cases e) simp_all

lemma keeps_set_channel_position: "present s (ToChannel c) \<Longrightarrow> keeps s (set_channel_position c p s)"
proof (rule keepsI)
  assume c: "present s (ToChannel c)"
  then have "present (put_channel c w s) e = present s e" for w e by (cases e) auto
  then show "grows s (set_channel_position c p s)"
    by (simp add: grows_def set_channel_position_def Let_def del: present_simps)
  assume "scene_ok s"
  with c show "scene_inv (s_selected s) (set_channel_position c p s)"
    by (auto intro: set_channel_position_inv scene_ok_inv)
qed

lemma keeps_appearance:
  assumes "present s (ToNode k)" and "nv_pos n = nv_pos (node_of s k)" and "nv_links n = nv_links (node_of s k)"
    and "nv_selected n = nv_selected (node_of s k)"
  shows "keeps s (update_appearance k (put_node k n s))"
proof (rule keepsI)
  show "grows s (update_appearance k (put_node k n s))"
    unfolding grows_def
  proof (intro conjI allI impI)
    fix e assume "present s e"
    then show "present (update_appearance k (put_node k n s)) e"
      by (cases e) (simp_all add: present_node_iff del: present_simps(1))
  qed simp_all
  obtain m where m: "dget (s_nodes s) k = Some m" using assms(1) by (rule presentE)
  assume "scene_ok s"
  then have inv: "scene_inv (s_selected s) s" by (rule scene_ok_inv)
  with m have "nv_selected m \<longleftrightarrow> s_selected s = Some k" by (simp add: scene_inv_def node_ok_def)
  with assms(2-) show "scene_inv (s_selected s) (update_appearance k (put_node k n s))"
    by (intro update_appearance_inv [OF inv m]) (simp_all add: node_of_get [OF m])
qed

lemma keeps_setter:
  assumes "present s (ToNode k)"
  shows "keeps s (set_highlighted k b s)" and "keeps s (set_size k z s)" and "keeps s (set_color cp k col s)"
  using assms by (simp_all add: set_highlighted_def set_size_def set_color_def keeps_appearance del: present_simps)

lemma keeps_set_label: "present s (ToNode k) \<Longrightarrow> set_label py3 k label s = Inr t \<Longrightarrow> keeps s t"
  by (auto simp: set_label_def simp del: present_simps split: if_splits intro: keeps_appearance)

lemma keeps_set_svg_icon:
  assumes "present s (ToNode k)" and "set_svg_icon svg_load k file w h align s = Inr t"
  shows "keeps s t"
proof -
  obtain x y where "nv_pos (node_of s k) = (x, y)" by force
  with assms(2) obtain sv p where "t = update_appearance k
      (put_node k (update_svg_position p ((node_of s k)\<lparr>nv_svg := Some sv, nv_align := align\<rparr>)) s)"
    by (auto simp: set_svg_icon_def res_bind_eq_Inr Let_def split: if_splits option.splits)
  with assms(1) show ?thesis by (simp add: keeps_appearance del: present_simps)
qed

lemma keeps_get_node: "keeps s (get_node i s)" and present_get_node: "present (get_node i s) (ToNode i)"
proof -
  show "keeps s (get_node i s)"
  proof (rule keepsI)
    show "grows s (get_node i s)"
      unfolding grows_def
    proof (intro conjI allI impI)
      fix e assume "present s e"
      then show "present (get_node i s) e" by (cases e) (auto simp: get_node_def split: option.split)
    qed (simp_all add: get_node_def split: option.split)
    show "scene_ok s \<Longrightarrow> scene_inv (s_selected s) (get_node i s)"
      by (rule get_node_inv) (auto simp: scene_ok_def selection_ok_def)
  qed
  show "present (get_node i s) (ToNode i)" by (auto simp: get_node_def split: option.split)
qed

lemma keeps_get_channel: "keeps s (get_channel c s)" and present_get_channel: "present (get_channel c s) (ToChannel c)"
proof -
  show "keeps s (get_channel c s)"
  proof (rule keepsI)
    show "grows s (get_channel c s)"
      unfolding grows_def
    proof (intro conjI allI impI)
      fix e assume "present s e"
      then show "present (get_channel c s) e" by (cases e) (auto simp: get_channel_def split: option.split)
    qed (simp_all add: get_channel_def split: option.split)
  qed (simp add: get_channel_inv scene_ok_inv)
  show "present (get_channel c s) (ToChannel c)" by (auto simp: get_channel_def split: option.split)
qed

lemma keeps_create_link:
  "present s (ToNode k) \<Longrightarrow> present s e \<Longrightarrow> keeps s (create_link k e s)"
  by (rule keepsI) (auto simp: grows_def create_link_inv scene_ok_inv simp del: present_simps)

lemma keeps_has_mobility: "present s (ToNode k) \<Longrightarrow> keeps s (snd (has_mobility net k s))"
proof (rule keepsI)
  assume "present s (ToNode k)"
  then obtain n where get: "dget (s_nodes s) k = Some n" by (rule presentE)
  have pres: "present (put_node k m s) e" if "present s e" for m e using that by (cases e) auto
  then show "grows s (snd (has_mobility net k s))"
    by (simp add: grows_def has_mobility_def del: present_simps split: option.split)
  assume "scene_ok s"
  then have inv: "scene_inv (s_selected s) s" by (rule scene_ok_inv)
  then have "node_ok (s_selected s) s k n" using get by (simp add: scene_inv_def)
  then show "scene_inv (s_selected s) (snd (has_mobility net k s))"
    using inv by (auto simp: has_mobility_def node_of_get [OF get] node_ok_def split: option.split
        intro!: put_node_inv [OF inv get])
qed

section \<open>Scanning and selecting\<close>

lemma keeps_scan_other_end:
  assumes "present (fst sg) (ToNode i)"
  shows "keeps (fst sg) (fst (scan_other_end net i other sg))"
proof -
  obtain s g where sg: "sg = (s, g)" by force
  let ?s1 = "get_node other s"
  let ?s2 = "if mobile net i then ?s1 else snd (has_mobility net other ?s1)"
  have k1: "keeps s ?s1" by (rule keeps_get_node)
  have k2: "keeps ?s1 ?s2" using keeps_has_mobility [OF present_get_node] by simp
  have "present ?s2 (ToNode i)" "present ?s2 (ToNode other)"
    using keeps_present [OF k2 keeps_present [OF k1]] keeps_present [OF k2 present_get_node] assms
    by (simp_all add: sg del: present_simps)
  then have "keeps ?s2 (create_link i (ToNode other) ?s2)" by (rule keeps_create_link)
  with k1 k2 have "keeps s (create_link i (ToNode other) ?s2)" by (blast intro: keeps_trans)
  moreover have "fst (scan_other_end net i other sg) = (if other = i then ?s1 else create_link i (ToNode other) ?s2)"
    by (simp add: scan_other_end_def sg Let_def split: prod.split)
  ultimately show ?thesis using k1 by (simp only: sg fst_conv split: if_split) blast
qed

lemma keeps_fold_scan_other_end:
  "present (fst sg) (ToNode i) \<Longrightarrow> keeps (fst sg) (fst (fold (scan_other_end net i) others sg))"
proof (induction others arbitrary: sg)
  case (Cons other others)
  have k: "keeps (fst sg) (fst (scan_other_end net i other sg))" using Cons.prems by (rule keeps_scan_other_end)
  then show ?case
    using Cons.IH [OF keeps_present [OF k Cons.prems]] keeps_trans by (fastforce simp del: present_simps)
qed simp

lemma keeps_traits [simp]: "keeps s t \<Longrightarrow> keeps s (t\<lparr>s_traits := x\<rparr>)"
proof -
  have "scene_inv sel (t\<lparr>s_traits := x\<rparr>) = scene_inv sel t" for sel by (rule scene_inv_cong) simp_all
  then have "scene_ok (t\<lparr>s_traits := x\<rparr>) = scene_ok t" by (simp add: scene_ok_def selection_ok_def)
  moreover have "present (t\<lparr>s_traits := x\<rparr>) e = present t e" for e by (cases e) simp_all
  ultimately show "keeps s t \<Longrightarrow> keeps s (t\<lparr>s_traits := x\<rparr>)"
    by (simp add: keeps_def grows_def del: present_simps)
qed

lemma keeps_scan_device:
  assumes "scan_device net i dev sg = Inr sg'" and "present (fst sg) (ToNode i)"
  shows "keeps (fst sg) (fst sg')"
proof -
  obtain s g where sg: "sg = (s, g)" by force
  obtain tab t where look: "lookup_netdevice_traits (s_traits s) (sd_type dev) = (tab, t)" by force
  let ?s = "s\<lparr>s_traits := tab\<rparr>"
  have k: "keeps s ?s" by simp
  have pres: "present ?s (ToNode i)" using keeps_present [OF k] assms(2) by (simp add: sg del: present_simps)
  have "keeps ?s (fst sg')"
  proof (cases "is_wireless t = Some True \<or> is_virtual t")
    case True
    with assms(1) show ?thesis by (auto simp: scan_device_def sg look Let_def)
  next
    case False
    with assms(1) obtain c where c: "sd_channel dev = Some c"
      by (auto simp: scan_device_def sg look Let_def split: option.splits)
    show ?thesis
    proof (cases "length (net_channels net c) > 2")
      case True
      have kc: "keeps ?s (get_channel c ?s)" by (rule keeps_get_channel)
      have "keeps (get_channel c ?s) (create_link i (ToChannel c) (get_channel c ?s))"
        using keeps_present [OF kc pres] present_get_channel by (rule keeps_create_link)
      with kc have "keeps ?s (create_link i (ToChannel c) (get_channel c ?s))" by (rule keeps_trans)
      then show ?thesis using assms(1) False True by (auto simp: scan_device_def sg look c Let_def)
    next
      case few: False
      have "sg' = fold (scan_other_end net i) (net_channels net c) (?s, g)"
        using assms(1) False few by (auto simp: scan_device_def sg look c Let_def)
      then show ?thesis using keeps_fold_scan_other_end [of "(?s, g)" i net] pres by simp
    qed
  qed
  with k have "keeps s (fst sg')" by (rule keeps_trans)
  then show ?thesis by (simp add: sg)
qed

lemma keeps_res_fold:
  assumes step: "\<And>x sg sg'. x \<in> set xs \<Longrightarrow> f x sg = Inr sg' \<Longrightarrow> present (p sg) e \<Longrightarrow> keeps (p sg) (p sg')"
    and run: "res_fold f xs sg = Inr sg'" and pres: "present (p sg) e"
  shows "keeps (p sg) (p sg')"
  using assms
proof (induction xs arbitrary: sg)
  case (Cons x xs)
  from Cons.prems(2) obtain sg1 where 1: "f x sg = Inr sg1" "res_fold f xs sg1 = Inr sg'"
    by (auto simp: res_bind_eq_Inr)
  have k: "keeps (p sg) (p sg1)" using Cons.prems(1) [of x sg sg1] 1(1) Cons.prems(3) by simp
  have "keeps (p sg1) (p sg')"
    using Cons.prems(1) 1(2) keeps_present [OF k Cons.prems(3)] by (intro Cons.IH) auto
  with k show ?case by (rule keeps_trans)
qed simp

lemma keeps_scan_node:
  assumes "scan_node cp net i sg = Inr sg'"
  shows "keeps (fst sg) (fst sg')"
proof -
  obtain s g where sg: "sg = (s, g)" by force
  let ?s = "get_node i s"
  define start where "start = (case sn_pos (net_nodes net ! i) of
      None \<Rightarrow> (?s, g\<lparr>g_nodes := g_nodes g @ [node_name i]\<rparr>)
    | Some (x, y) \<Rightarrow> (set_position i (transform_point_simulation_to_canvas x y) (set_color cp i (ColorName ''red'') ?s), g))"
  have here: "present ?s (ToNode i)" by (rule present_get_node)
  have "keeps ?s (fst start)"
  proof (cases "sn_pos (net_nodes net ! i)")
    case (Some xy)
    obtain x y where xy: "xy = (x, y)" by force
    have k: "keeps ?s (set_color cp i (ColorName ''red'') ?s)" using here by (rule keeps_setter)
    from keeps_trans [OF k keeps_set_position [OF keeps_present [OF k here]]]
    show ?thesis unfolding start_def Some xy prod.case option.case fst_conv .
  qed (simp add: start_def)
  moreover have "res_fold (scan_device net i) (sn_devices (net_nodes net ! i)) start = Inr sg'"
    using assms by (simp add: scan_node_def sg start_def Let_def)
  then have "keeps (fst start) (fst sg')"
    by (rule keeps_res_fold [where p = fst and e = "ToNode i", rotated])
      (rule keeps_present [OF calculation here], rule keeps_scan_device)
  ultimately show ?thesis using keeps_get_node [of s i] by (auto simp: sg intro: keeps_trans)
qed

lemma find_object_present: "find_object name obj s = Inr e \<Longrightarrow> (\<And>d. obj = Some d \<Longrightarrow> present s d) \<Longrightarrow> present s e"
  by (auto simp: find_object_def res_bind_eq_Inr split: list.splits if_splits option.splits)

lemma keeps_place_object: "present s e \<Longrightarrow> keeps s (place_object e p s)"
  by (cases e) (simp_all add: place_object_def keeps_set_position keeps_set_channel_position del: present_simps)

lemma place_node_step:
  "place_node item (s, obj) = Inr so \<Longrightarrow> \<exists>e p. find_object (fst item) obj s = Inr e \<and> so = (place_object e p s, Some e)"
  by (auto simp: place_node_def res_bind_eq_Inr split: prod.splits)

lemma keeps_place_nodes:
  "res_fold place_node items (s, obj) = Inr (s', obj') \<Longrightarrow> (\<And>d. obj = Some d \<Longrightarrow> present s d) \<Longrightarrow> keeps s s'"
proof (induction items arbitrary: s obj)
  case (Cons item items)
  from Cons.prems(1) obtain so where first: "place_node item (s, obj) = Inr so"
    and run: "res_fold place_node items so = Inr (s', obj')" by (auto simp: res_bind_eq_Inr)
  from place_node_step [OF first]
  obtain e p where e: "find_object (fst item) obj s = Inr e" and so: "so = (place_object e p s, Some e)" by blast
  from run so have rest: "res_fold place_node items (place_object e p s, Some e) = Inr (s', obj')" by simp
  have here: "present s e" using find_object_present [OF e] Cons.prems(2) by blast
  then have k: "keeps s (place_object e p s)" by (rule keeps_place_object)
  have "keeps (place_object e p s) s'" using keeps_present [OF k here] by (intro Cons.IH [OF rest]) simp
  with k show ?case by (rule keeps_trans)
qed simp

lemma keeps_scan_topology:
  assumes "scan_topology cp layout net s = Inr s'"
  shows "keeps s s'"
proof -
  obtain s1 g obj where 1: "res_fold (scan_node cp net) [0..<length (net_nodes net)] (s, \<lparr>g_nodes = [], g_edges = []\<rparr>) = Inr (s1, g)"
    and 2: "res_fold place_node (layout g) (s1, None) = Inr (s', obj)"
    using assms by (auto simp: scan_topology_def res_bind_eq_Inr)
  have gen: "res_fold (scan_node cp net) xs sg = Inr sg' \<Longrightarrow> keeps (fst sg) (fst sg')" for xs sg sg'
    by (induction xs arbitrary: sg) (auto simp: res_bind_eq_Inr dest!: keeps_scan_node intro: keeps_trans)
  from gen [OF 1] have "keeps s s1" by simp
  moreover have "keeps s1 s'" by (rule keeps_place_nodes [OF 2]) simp
  ultimately show ?thesis by (rule keeps_trans)
qed

lemma keeps_update_node_position: "present s (ToNode k) \<Longrightarrow> keeps s (update_node_position net k s)"
proof -
  assume here: "present s (ToNode k)"
  then have k: "keeps s (snd (has_mobility net k s))" by (rule keeps_has_mobility)
  moreover have "keeps s (set_position k p (snd (has_mobility net k s)))" for p
    using k keeps_set_position [OF keeps_present [OF k here]] by (rule keeps_trans)
  ultimately show ?thesis
    by (auto simp: update_node_position_def split_beta split: bool.split option.split)
qed

lemma keeps_update_node_positions: "keeps s (update_node_positions net s)"
proof -
  have gen: "keeps s (fold (update_node_position net) ks s)" if "\<And>k. k \<in> set ks \<Longrightarrow> present s (ToNode k)" for ks
    using that
  proof (induction ks arbitrary: s)
    case (Cons k ks)
    have k: "keeps s (update_node_position net k s)" using Cons.prems by (intro keeps_update_node_position) simp
    have "keeps (update_node_position net k s) (fold (update_node_position net) ks (update_node_position net k s))"
      using keeps_present [OF k] Cons.prems by (intro Cons.IH) (simp del: present_simps)
    with k show ?case by (simp add: keeps_trans)
  qed simp
  show ?thesis
    unfolding update_node_positions_def by (rule gen) (simp add: present_node_iff del: present_simps)
qed

lemma select_node_ok:
  assumes "select_node a s = Inr t" and ok: "scene_ok s" and arg: "\<And>k. a = ArgNode k \<Longrightarrow> present s (ToNode k)"
  shows "scene_ok t \<and> (\<forall>e. present s e \<longrightarrow> present t e)
    \<and> (\<exists>node. resolve_node a s = Inr node \<and> s_selected t = node)"
proof -
  obtain node where node: "resolve_node a s = Inr node"
    and run: "t = (if node = s_selected s then s else
        let s = (case s_selected s of None \<Rightarrow> s | Some k \<Rightarrow> set_selected k False s);
            s = s\<lparr>s_selected := node\<rparr>;
            s = (case node of None \<Rightarrow> s | Some k \<Rightarrow> set_selected k True s)
        in if s_mode s = ShowSelected then interest_of_selection s else s)"
    using assms(1) by (auto simp: select_node_def res_bind_eq_Inr Let_def split: if_splits)
  show ?thesis
  proof (cases "node = s_selected s")
    case True
    with run ok node show ?thesis by auto
  next
    case False
    define s1 where "s1 = (case s_selected s of None \<Rightarrow> s | Some k \<Rightarrow> set_selected k False s)"
    define s2 where "s2 = s1\<lparr>s_selected := node\<rparr>"
    define s3 where "s3 = (case node of None \<Rightarrow> s2 | Some k \<Rightarrow> set_selected k True s2)"
    have t: "t = (if s_mode s3 = ShowSelected then interest_of_selection s3 else s3)"
      using run False unfolding s3_def s2_def s1_def Let_def by (simp only: if_False)
    have keys: "insert k (fst ` set (s_nodes (set_selected k b u))) = insert k (fst ` set (s_nodes u))"
      "s_channels (set_selected k b u) = s_channels u" for k b u by (auto simp: set_selected_def)
    have sub: "present u e \<Longrightarrow> present (set_selected k b u) e" for u e k b
      by (cases e) (auto simp: present_node_iff set_selected_def simp del: present_simps(1))
    have inv1: "scene_inv None s1"
    proof (cases "s_selected s")
      case None
      then show ?thesis using scene_ok_inv [OF ok] by (simp add: s1_def)
    next
      case (Some k)
      moreover obtain n where "dget (s_nodes s) k = Some n"
        using ok Some by (auto simp: scene_ok_def selection_ok_def)
      ultimately show ?thesis
        using set_selected_inv [OF scene_ok_inv [OF ok], of k n False] by (simp add: s1_def)
    qed
    have p1: "present s e \<Longrightarrow> present s1 e" for e using sub by (simp add: s1_def split: option.split)
    have p2: "present s2 e \<longleftrightarrow> present s1 e" for e by (cases e) (simp_all add: s2_def)
    have inv2: "scene_inv None s2" using inv1 scene_inv_cong [of s2 s1] by (simp add: s2_def)
    have here: "present s2 (ToNode k)" if "node = Some k" for k
    proof -
      have "present s (ToNode k)"
        using node that arg by (cases a) (auto simp: resolve_node_def split: if_splits)
      with p1 p2 show ?thesis by blast
    qed
    have inv3: "scene_inv node s3"
    proof (cases node)
      case (Some k)
      obtain n where "dget (s_nodes s2) k = Some n" using here [OF Some] by auto
      then show ?thesis using set_selected_inv [OF inv2, of k n True] Some by (simp add: s3_def)
    qed (simp add: s3_def inv2)
    have p3: "present s2 e \<Longrightarrow> present s3 e" for e using sub by (simp add: s3_def split: option.split)
    have sel3: "s_selected s3 = node" by (simp add: s3_def s2_def set_selected_def split: option.split)
    have "s_selected t = node" "s_nodes t = s_nodes s3" "s_channels t = s_channels s3" "s_links t = s_links s3"
      "s_mode t = ShowSelected \<longrightarrow> s_interest t = (case node of None \<Rightarrow> [] | Some k \<Rightarrow> [k])"
      using sel3 by (auto simp: t interest_of_selection_def set_nodes_of_interest_def)
    moreover from this have "present t e \<longleftrightarrow> present s3 e" for e by (cases e) simp_all
    moreover have "dget (s_nodes s3) k \<noteq> None" if "node = Some k" for k
      using p3 [OF here [OF that]] by auto
    ultimately have "scene_ok t" and "\<forall>e. present s e \<longrightarrow> present t e"
      using inv3 p1 p2 p3 scene_inv_cong [of t s3] by (auto simp: scene_ok_def selection_ok_def)
    with node \<open>s_selected t = node\<close> show ?thesis by auto
  qed
qed

section \<open>Scenes the program reaches\<close>

text \<open>
  The visualizer starts with an empty scene; from then on it scans the topology, follows the
  simulation, and obeys the user and the plugins.
\<close>

definition empty_scene :: "nat \<Rightarrow> scene" where
  "empty_scene n_nodes =
     set_show_transmissions_mode n_nodes ShowAll
       \<lparr>s_nodes = [], s_channels = [], s_links = [], s_selected = None, s_mode = ShowAll, s_interest = [],
        s_bounds = None, s_traits = netdevice_traits\<rparr>"

inductive scene_step :: "scene \<Rightarrow> scene \<Rightarrow> bool" where
  step_scan: "scan_topology cp layout net s = Inr t \<Longrightarrow> scene_step s t"
| step_positions: "scene_step s (update_node_positions net s)"
| step_get_node: "scene_step s (get_node k s)"
| step_move: "dget (s_nodes s) k \<noteq> None \<Longrightarrow> scene_step s (set_position k p s)"
| step_highlight: "dget (s_nodes s) k \<noteq> None \<Longrightarrow> scene_step s (set_highlighted k b s)"
| step_size: "dget (s_nodes s) k \<noteq> None \<Longrightarrow> scene_step s (set_size k z s)"
| step_color: "dget (s_nodes s) k \<noteq> None \<Longrightarrow> scene_step s (set_color cp k c s)"
| step_label: "dget (s_nodes s) k \<noteq> None \<Longrightarrow> set_label py3 k label s = Inr t \<Longrightarrow> scene_step s t"
| step_icon: "dget (s_nodes s) k \<noteq> None \<Longrightarrow> set_svg_icon svg_load k file w h align s = Inr t \<Longrightarrow> scene_step s t"
| step_select: "(\<And>k. a = ArgNode k \<Longrightarrow> dget (s_nodes s) k \<noteq> None) \<Longrightarrow> select_node a s = Inr t \<Longrightarrow> scene_step s t"
| step_mode: "scene_step s (set_show_transmissions_mode n m s)"

inductive_cases scene_stepE: "scene_step s t"

inductive scene_reached :: "nat \<Rightarrow> scene \<Rightarrow> bool" for n where
  reached_start: "scene_reached n (empty_scene n)"
| reached_step: "scene_reached n s \<Longrightarrow> scene_step s t \<Longrightarrow> scene_reached n t"

lemma set_mode_ok: "scene_ok s \<Longrightarrow> scene_ok (set_show_transmissions_mode n m s)"
proof -
  let ?t = "set_show_transmissions_mode n m s"
  have "s_nodes ?t = s_nodes s" "s_channels ?t = s_channels s" "s_links ?t = s_links s" "s_selected ?t = s_selected s"
    and "s_mode ?t = ShowSelected \<longrightarrow> s_interest ?t = (case s_selected s of None \<Rightarrow> [] | Some k \<Rightarrow> [k])"
    by (simp_all add: set_show_transmissions_mode_def set_nodes_of_interest_def interest_of_selection_def Let_def
        split: show_mode.split)
  then show "scene_ok s \<Longrightarrow> scene_ok ?t"
    using scene_inv_cong [of ?t s] by (simp add: scene_ok_def selection_ok_def)
qed

lemma scene_step_ok: "scene_step s t \<Longrightarrow> scene_ok s \<Longrightarrow> scene_ok t"
proof (induction rule: scene_step.induct)
  case (step_select a s t)
  then show ?case using select_node_ok [of a s t] by simp
next
  case (step_label s k py3 label t)
  then show ?case using keeps_set_label [of s k py3 label t] by (simp add: keeps_def)
next
  case (step_icon s k svg_load icon w h align t)
  then show ?case using keeps_set_svg_icon [of s k svg_load icon w h align t] by (simp add: keeps_def)
qed (auto simp: keeps_def dest: keeps_scan_topology
    intro: set_mode_ok keeps_update_node_positions [unfolded keeps_def, THEN conjunct1, rule_format]
      keeps_get_node [unfolded keeps_def, THEN conjunct1, rule_format]
      keeps_set_position [unfolded keeps_def, THEN conjunct1, rule_format]
      keeps_setter [unfolded keeps_def, THEN conjunct1, rule_format])

lemma empty_scene_ok: "scene_ok (empty_scene n)"
  unfolding empty_scene_def
  by (rule set_mode_ok) (simp add: scene_ok_def scene_inv_def selection_ok_def)

lemma scene_reached_ok: "scene_reached n s \<Longrightarrow> scene_ok s"
  by (induction rule: scene_reached.induct) (auto intro: empty_scene_ok scene_step_ok)

end
