(* ===== verification/Viz_Scan.thy ===== *)
theory Viz_Scan
  imports Viz_Invariant
begin

text \<open>
  What a scan of the topology adds to the scene: which links, and in which order, as a function of
  the simulated network alone; and the guarantees of all reachable scenes.
\<close>

section \<open>The links a network gives rise to\<close>

definition wired :: "(string, traits) dict \<Rightarrow> sim_device \<Rightarrow> bool" where
  "wired tab dev =
     (case dget tab (sd_type dev) of None \<Rightarrow> False | Some t \<Rightarrow> \<not> (is_wireless t = Some True \<or> is_virtual t))"

definition channel_ends :: "sim_net \<Rightarrow> nat \<Rightarrow> nat \<Rightarrow> link_end list" where
  "channel_ends net i c =
     (if length (net_channels net c) > 2 then [ToChannel c]
      else map ToNode (filter (\<lambda>j. j \<noteq> i) (net_channels net c)))"

definition device_links :: "(string, traits) dict \<Rightarrow> sim_net \<Rightarrow> nat \<Rightarrow> sim_device \<Rightarrow> (nat \<times> link_end) list" where
  "device_links tab net i dev =
     (if wired tab dev then (case sd_channel dev of None \<Rightarrow> [] | Some c \<Rightarrow> map (Pair i) (channel_ends net i c)) else [])"

definition node_links :: "(string, traits) dict \<Rightarrow> sim_net \<Rightarrow> nat \<Rightarrow> (nat \<times> link_end) list" where
  "node_links tab net i = concat (map (device_links tab net i) (sn_devices (net_nodes net ! i)))"

definition network_links :: "(string, traits) dict \<Rightarrow> sim_net \<Rightarrow> (nat \<times> link_end) list" where
  "network_links tab net = concat (map (node_links tab net) [0..<length (net_nodes net)])"

definition shape :: "scene \<Rightarrow> (nat \<times> link_end) list" where
  "shape s = map (\<lambda>lk. (l_node1 lk, l_end lk)) (s_links s)"

section \<open>What the steps of the scan do to them\<close>

lemma shape_frame [simp]:
  "shape (put_node k n s) = shape s" "shape (put_channel c v s) = shape s" "shape (s\<lparr>s_traits := x\<rparr>) = shape s"
  "shape (s\<lparr>s_bounds := b\<rparr>) = shape s"
  by (simp_all add: shape_def)

lemma shape_update_points [simp]: "shape (update_points l s) = shape s"
proof (cases "l < length (s_links s)")
  case True
  have "map f (xs[l := y]) = map f xs" if "l < length xs" "f y = f (xs ! l)" for f :: "link \<Rightarrow> nat \<times> link_end" and xs y
    using that by (metis list_update_id map_update nth_map)
  with True show ?thesis by (simp add: shape_def update_points_def Let_def)
next
  case False
  then show ?thesis by (simp add: shape_def update_points_def Let_def list_update_beyond)
qed

lemma shape_fold_update_points [simp]: "shape (fold update_points ls s) = shape s"
  by (induction ls arbitrary: s) simp_all

lemma shape_ops [simp]:
  "shape (set_position k p s) = shape s" "shape (set_channel_position c p s) = shape s"
  "shape (update_appearance k s) = shape s" "shape (get_node k s) = shape s" "shape (get_channel c s) = shape s"
  "shape (snd (has_mobility net k s)) = shape s" "shape (set_color cp k col s) = shape s"
  by (simp_all add: set_position_def set_channel_position_def update_appearance_def get_node_def get_channel_def
      has_mobility_def set_color_def Let_def split: option.split)

lemma traits_frame [simp]:
  "s_traits (put_node k n s) = s_traits s" "s_traits (put_channel c v s) = s_traits s"
  "s_traits (update_points l s) = s_traits s"
  by (simp_all add: put_node_def put_channel_def update_points_def Let_def)

lemma traits_fold_update_points [simp]: "s_traits (fold update_points ls s) = s_traits s"
  by (induction ls arbitrary: s) simp_all

lemma traits_ops [simp]:
  "s_traits (set_position k p s) = s_traits s" "s_traits (update_appearance k s) = s_traits s"
  "s_traits (get_node k s) = s_traits s" "s_traits (get_channel c s) = s_traits s"
  "s_traits (snd (has_mobility net k s)) = s_traits s" "s_traits (set_color cp k col s) = s_traits s"
  by (simp_all add: set_position_def update_appearance_def get_node_def get_channel_def has_mobility_def set_color_def
      Let_def split: option.split)

lemma create_link_shape [simp]:
  "shape (create_link k e s) = shape s @ [(k, e)]" "s_traits (create_link k e s) = s_traits s"
  by (simp_all add: shape_def) (simp add: create_link_def attach_def Let_def split: link_end.split)

lemma scan_other_end_shape:
  "shape (fst (scan_other_end net i j sg)) = shape (fst sg) @ (if j = i then [] else [(i, ToNode j)])
   \<and> s_traits (fst (scan_other_end net i j sg)) = s_traits (fst sg)"
proof -
  obtain s g where sg: "sg = (s, g)" by force
  have "fst (scan_other_end net i j sg) =
      (if j = i then get_node j s
       else create_link i (ToNode j) (if mobile net i then get_node j s else snd (has_mobility net j (get_node j s))))"
    by (simp add: scan_other_end_def sg Let_def split: prod.split)
  then show ?thesis by (simp add: sg)
qed

lemma fold_scan_other_end_shape:
  "shape (fst (fold (scan_other_end net i) js sg)) = shape (fst sg) @ map (\<lambda>j. (i, ToNode j)) (filter (\<lambda>j. j \<noteq> i) js)
   \<and> s_traits (fst (fold (scan_other_end net i) js sg)) = s_traits (fst sg)"
  by (induction js arbitrary: sg) (simp_all add: scan_other_end_shape)

lemma lookup_wired:
  assumes "lookup_netdevice_traits tab ty = (tab', t)"
  shows "wired tab' dev = wired tab dev"
    and "sd_type dev = ty \<Longrightarrow> wired tab dev \<longleftrightarrow> \<not> (is_wireless t = Some True \<or> is_virtual t)"
  using assms by (auto simp: lookup_netdevice_traits_def wired_def Let_def split: option.splits if_splits)

lemma device_links_cong: "(\<And>dev. wired tab' dev = wired tab dev) \<Longrightarrow> device_links tab' net i dev = device_links tab net i dev"
  by (simp add: device_links_def)

lemma scan_device_shape:
  assumes "scan_device net i dev sg = Inr sg'"
  shows "shape (fst sg') = shape (fst sg) @ device_links (s_traits (fst sg)) net i dev
    \<and> (\<forall>d. wired (s_traits (fst sg')) d = wired (s_traits (fst sg)) d)"
proof -
  obtain s g where sg: "sg = (s, g)" by force
  obtain tab t where look: "lookup_netdevice_traits (s_traits s) (sd_type dev) = (tab, t)" by force
  note wired = lookup_wired(1) [OF look] lookup_wired(2) [OF look refl]
  show ?thesis
  proof (cases "is_wireless t = Some True \<or> is_virtual t")
    case True
    then have "sg' = (s\<lparr>s_traits := tab\<rparr>, g)" using assms by (simp add: scan_device_def sg look Let_def)
    moreover have "\<not> wired (s_traits s) dev" using wired(2) True by simp
    ultimately show ?thesis by (simp add: sg device_links_def wired(1))
  next
    case False
    with assms obtain c where c: "sd_channel dev = Some c"
      by (auto simp: scan_device_def sg look Let_def split: option.splits)
    show ?thesis
    proof (cases "length (net_channels net c) > 2")
      case True
      have "fst sg' = create_link i (ToChannel c) (get_channel c (s\<lparr>s_traits := tab\<rparr>))"
        using assms False True by (auto simp: scan_device_def sg look Let_def c)
      moreover have "wired (s_traits s) dev" using wired(2) False by simp
      ultimately show ?thesis using True by (simp add: sg device_links_def channel_ends_def c wired(1))
    next
      case few: False
      have "sg' = fold (scan_other_end net i) (net_channels net c) (s\<lparr>s_traits := tab\<rparr>, g)"
        using assms False few by (auto simp: scan_device_def sg look Let_def c)
      moreover have "wired (s_traits s) dev" using wired(2) False by simp
      ultimately show ?thesis
        using few fold_scan_other_end_shape [of net i "net_channels net c" "(s\<lparr>s_traits := tab\<rparr>, g)"]
        by (simp add: sg device_links_def channel_ends_def c comp_def wired(1))
    qed
  qed
qed

lemma scan_devices_shape:
  assumes "res_fold (scan_device net i) devs sg = Inr sg'"
  shows "shape (fst sg') = shape (fst sg) @ concat (map (device_links (s_traits (fst sg)) net i) devs)
    \<and> (\<forall>d. wired (s_traits (fst sg')) d = wired (s_traits (fst sg)) d)"
  using assms
proof (induction devs arbitrary: sg)
  case (Cons dev devs)
  then obtain sg1 where 1: "scan_device net i dev sg = Inr sg1" "res_fold (scan_device net i) devs sg1 = Inr sg'"
    by (auto simp: res_bind_eq_Inr)
  from scan_device_shape [OF 1(1)] Cons.IH [OF 1(2)]
    device_links_cong [of "s_traits (fst sg1)" "s_traits (fst sg)" net i]
  show ?case by (simp add: comp_def cong: map_cong)
qed simp

lemma scan_node_shape:
  assumes "scan_node cp net i sg = Inr sg'"
  shows "shape (fst sg') = shape (fst sg) @ node_links (s_traits (fst sg)) net i
    \<and> (\<forall>d. wired (s_traits (fst sg')) d = wired (s_traits (fst sg)) d)"
proof -
  obtain s g where sg: "sg = (s, g)" by force
  obtain start where run: "res_fold (scan_device net i) (sn_devices (net_nodes net ! i)) start = Inr sg'"
    and start: "shape (fst start) = shape s" "s_traits (fst start) = s_traits s"
    using assms by (auto simp: scan_node_def sg Let_def split: option.splits prod.splits)
  from scan_devices_shape [OF run] start show ?thesis by (simp add: sg node_links_def)
qed

lemma scan_nodes_shape:
  assumes "res_fold (scan_node cp net) is sg = Inr sg'"
  shows "shape (fst sg') = shape (fst sg) @ concat (map (node_links (s_traits (fst sg)) net) is)"
  using assms
proof (induction "is" arbitrary: sg)
  case (Cons i "is")
  then obtain sg1 where 1: "scan_node cp net i sg = Inr sg1" "res_fold (scan_node cp net) is sg1 = Inr sg'"
    by (auto simp: res_bind_eq_Inr)
  have "node_links (s_traits (fst sg1)) net j = node_links (s_traits (fst sg)) net j" for j
    using scan_node_shape [OF 1(1)] device_links_cong [of "s_traits (fst sg1)" "s_traits (fst sg)" net j]
    by (simp add: node_links_def cong: map_cong)
  with scan_node_shape [OF 1(1)] Cons.IH [OF 1(2)] show ?case by simp
qed simp

lemma place_nodes_shape: "res_fold place_node items (s, obj) = Inr (s', obj') \<Longrightarrow> shape s' = shape s"
proof (induction items arbitrary: s obj)
  case (Cons item items)
  from Cons.prems obtain so where first: "place_node item (s, obj) = Inr so"
    and rest: "res_fold place_node items so = Inr (s', obj')" by (auto simp: res_bind_eq_Inr)
  from place_node_step [OF first] obtain e p where "so = (place_object e p s, Some e)" by blast
  with rest have "shape s' = shape (place_object e p s)" by (intro Cons.IH) simp
  then show ?case by (simp add: place_object_def split: link_end.splits)
qed simp

lemma scan_topology_shape:
  assumes "scan_topology cp layout net s = Inr s'"
  shows "shape s' = shape s @ network_links (s_traits s) net"
proof -
  obtain s1 g obj where 1: "res_fold (scan_node cp net) [0..<length (net_nodes net)] (s, \<lparr>g_nodes = [], g_edges = []\<rparr>) = Inr (s1, g)"
    and 2: "res_fold place_node (layout g) (s1, None) = Inr (s', obj)"
    using assms by (auto simp: scan_topology_def res_bind_eq_Inr)
  from scan_nodes_shape [OF 1] place_nodes_shape [OF 2] show ?thesis by (simp add: network_links_def)
qed

section \<open>What a scan guarantees\<close>

text \<open>In a consistent network a device on a channel belongs to a node that the channel lists, and conversely.\<close>

definition consistent :: "(string, traits) dict \<Rightarrow> sim_net \<Rightarrow> bool" where
  "consistent tab net \<longleftrightarrow>
     (\<forall>i < length (net_nodes net). \<forall>dev \<in> set (sn_devices (net_nodes net ! i)). \<forall>c.
        sd_channel dev = Some c \<longrightarrow> i \<in> set (net_channels net c)
        \<and> (\<forall>j \<in> set (net_channels net c). j < length (net_nodes net)
             \<and> (\<exists>dev' \<in> set (sn_devices (net_nodes net ! j)). sd_channel dev' = Some c \<and> wired tab dev' = wired tab dev)))"

lemma network_links_iff:
  "(i, e) \<in> set (network_links tab net) \<longleftrightarrow> i < length (net_nodes net) \<and>
     (\<exists>dev \<in> set (sn_devices (net_nodes net ! i)). \<exists>c. wired tab dev \<and> sd_channel dev = Some c
        \<and> e \<in> set (channel_ends net i c))"
proof -
  have dev: "(i, e) \<in> set (device_links tab net i' dev) \<longleftrightarrow>
      i' = i \<and> wired tab dev \<and> (\<exists>c. sd_channel dev = Some c \<and> e \<in> set (channel_ends net i c))" for i' dev
  proof -
    have "(i, e) \<in> Pair i' ` S \<longleftrightarrow> i' = i \<and> e \<in> S" for S :: "link_end set" by auto
    then show ?thesis
      by (cases "wired tab dev"; cases "sd_channel dev")
        (simp_all only: device_links_def if_True if_False option.case set_map option.inject list.set empty_iff
          option.distinct simp_thms ex_simps, blast+)
  qed
  have node: "(i, e) \<in> set (node_links tab net i') \<longleftrightarrow>
      (\<exists>dev \<in> set (sn_devices (net_nodes net ! i')). (i, e) \<in> set (device_links tab net i' dev))" for i'
    by (simp add: node_links_def)
  have "(i, e) \<in> set (network_links tab net) \<longleftrightarrow>
      (\<exists>i' < length (net_nodes net). (i, e) \<in> set (node_links tab net i'))"
    by (simp add: network_links_def) (meson atLeastLessThan_iff less_eq_nat.simps(1))
  then show ?thesis unfolding node dev by blast
qed

text \<open>
  Claim C24: a scan adds exactly the links of the wired devices of the network, device after
  device. Every link between two nodes is there in both directions: each cable is drawn twice.
\<close>
theorem scan_topology_links:
  assumes "scan_topology color_parse layout net s = Inr s'" and "consistent (s_traits s) net"
  shows "\<exists>new. map (\<lambda>lk. (l_node1 lk, l_end lk)) (s_links s') = map (\<lambda>lk. (l_node1 lk, l_end lk)) (s_links s) @ new
    \<and> new = network_links (s_traits s) net
    \<and> (\<forall>a b. (a, ToNode b) \<in> set new \<longrightarrow> a \<noteq> b \<and> (b, ToNode a) \<in> set new)"
proof -
  have "a \<noteq> b \<and> (b, ToNode a) \<in> set (network_links (s_traits s) net)"
    if ab: "(a, ToNode b) \<in> set (network_links (s_traits s) net)" for a b
  proof -
    obtain dev c where dev: "a < length (net_nodes net)" "dev \<in> set (sn_devices (net_nodes net ! a))"
      "wired (s_traits s) dev" "sd_channel dev = Some c" "ToNode b \<in> set (channel_ends net a c)"
      using ab by (auto simp: network_links_iff)
    then have few: "\<not> length (net_channels net c) > 2" "b \<in> set (net_channels net c)" "a \<noteq> b"
      by (auto simp: channel_ends_def split: if_splits)
    have a: "a \<in> set (net_channels net c)" using assms(2) dev by (auto simp: consistent_def)
    have "b < length (net_nodes net)
        \<and> (\<exists>dev' \<in> set (sn_devices (net_nodes net ! b)). sd_channel dev' = Some c \<and> wired (s_traits s) dev' = wired (s_traits s) dev)"
      using assms(2) dev few(2) unfolding consistent_def by blast
    then obtain dev' where "b < length (net_nodes net)" "dev' \<in> set (sn_devices (net_nodes net ! b))"
      "sd_channel dev' = Some c" "wired (s_traits s) dev'" using dev(3) by blast
    moreover have "ToNode a \<in> set (channel_ends net b c)" using few a by (auto simp: channel_ends_def)
    ultimately show ?thesis using few(3) by (auto simp: network_links_iff)
  qed
  with scan_topology_shape [OF assms(1)] show ?thesis by (simp add: shape_def)
qed

text \<open>A scan succeeds when every device that counts has a channel and the layout places no node wrongly.\<close>

lemma scan_device_ok: "wired (s_traits (fst sg)) dev \<longrightarrow> sd_channel dev \<noteq> None \<Longrightarrow> is_ok (scan_device net i dev sg)"
proof -
  assume chan: "wired (s_traits (fst sg)) dev \<longrightarrow> sd_channel dev \<noteq> None"
  obtain s g where sg: "sg = (s, g)" by force
  obtain tab t where look: "lookup_netdevice_traits (s_traits s) (sd_type dev) = (tab, t)" by force
  show ?thesis
    using chan lookup_wired(2) [OF look refl] by (auto simp: scan_device_def sg look Let_def split: option.split)
qed

lemma scan_devices_ok:
  "(\<forall>dev \<in> set devs. wired (s_traits (fst sg)) dev \<longrightarrow> sd_channel dev \<noteq> None) \<Longrightarrow> is_ok (res_fold (scan_device net i) devs sg)"
proof (induction devs arbitrary: sg)
  case (Cons dev devs)
  then have "is_ok (scan_device net i dev sg)" by (intro scan_device_ok) simp
  then obtain sg1 where sg1: "scan_device net i dev sg = Inr sg1" by (auto simp: is_ok_iff)
  with scan_device_shape [OF sg1] Cons show ?case by simp
qed simp

lemma scan_nodes_ok:
  "(\<forall>i \<in> set is. \<forall>dev \<in> set (sn_devices (net_nodes net ! i)). wired (s_traits (fst sg)) dev \<longrightarrow> sd_channel dev \<noteq> None)
    \<Longrightarrow> is_ok (res_fold (scan_node cp net) is sg)"
proof (induction "is" arbitrary: sg)
  case (Cons i "is")
  obtain s g where sg: "sg = (s, g)" by force
  have "is_ok (scan_node cp net i sg)"
    using Cons.prems by (auto simp: scan_node_def sg Let_def intro!: scan_devices_ok split: option.split)
  then obtain sg1 where sg1: "scan_node cp net i sg = Inr sg1" by (auto simp: is_ok_iff)
  with scan_node_shape [OF sg1] Cons show ?case by simp
qed simp

lemma scan_topology_ok:
  assumes "\<And>i dev. i < length (net_nodes net) \<Longrightarrow> dev \<in> set (sn_devices (net_nodes net ! i)) \<Longrightarrow> wired (s_traits s) dev
      \<Longrightarrow> sd_channel dev \<noteq> None"
    and "\<And>g. layout g = []"
  shows "is_ok (scan_topology cp layout net s)"
proof -
  have "is_ok (res_fold (scan_node cp net) [0..<length (net_nodes net)] (s, \<lparr>g_nodes = [], g_edges = []\<rparr>))"
    using assms(1) by (intro scan_nodes_ok) auto
  then show ?thesis by (auto simp: scan_topology_def is_ok_iff assms(2))
qed

definition two_nodes :: sim_net where
  "two_nodes = \<lparr>net_nodes =
       [\<lparr>sn_pos = Some (1, 2), sn_devices = [\<lparr>sd_type = ''PointToPointNetDevice'', sd_channel = Some 0\<rparr>]\<rparr>,
        \<lparr>sn_pos = Some (3, 4), sn_devices = [\<lparr>sd_type = ''PointToPointNetDevice'', sd_channel = Some 0\<rparr>]\<rparr>],
     net_channels = (\<lambda>c. [0, 1])\<rparr>"

lemma two_nodes_links: "network_links netdevice_traits two_nodes = [(0, ToNode 1), (1, ToNode 0)]"
  by code_simp

lemma two_nodes_consistent: "consistent netdevice_traits two_nodes"
  by (auto simp: consistent_def two_nodes_def wired_def less_Suc_eq)

lemma two_nodes_scan: "\<exists>s. scan_topology (\<lambda>c. (65535, 0, 0)) (\<lambda>g. []) two_nodes (empty_scene 2) = Inr s"
proof -
  have "is_ok (scan_topology (\<lambda>c. (65535, 0, 0)) (\<lambda>g. []) two_nodes (empty_scene 2))"
    by (rule scan_topology_ok) (auto simp: two_nodes_def less_Suc_eq)
  then show ?thesis by (simp add: is_ok_iff)
qed

lemma empty_scene_simps [simp]: "s_traits (empty_scene n) = netdevice_traits" "s_links (empty_scene n) = []"
  by (simp_all add: empty_scene_def set_show_transmissions_mode_def set_nodes_of_interest_def Let_def)

lemma scan_topology_links_witness:
  "\<exists>s. scan_topology (\<lambda>c. (65535, 0, 0)) (\<lambda>g. []) two_nodes (empty_scene 2) = Inr s
    \<and> map (\<lambda>lk. (l_node1 lk, l_end lk)) (s_links s) = [(0, ToNode 1), (1, ToNode 0)]"
proof -
  obtain s where s: "scan_topology (\<lambda>c. (65535, 0, 0)) (\<lambda>g. []) two_nodes (empty_scene 2) = Inr s"
    using two_nodes_scan by blast
  with scan_topology_links [OF s] show ?thesis by (simp add: two_nodes_consistent two_nodes_links)
qed

text \<open>
  Claim C13: in every scene the program reaches each link is entered at both of its ends, a line
  that was drawn joins the present positions of its ends, each node looks as its state says, exactly
  the selected node is marked, and in the mode for the selection the simulation watches this node.
\<close>
theorem scene_reached_invariant:
  assumes "scene_reached n s"
  shows "(\<forall>l < length (s_links s). let lk = s_links s ! l in
        entered s l (ToNode (l_node1 lk)) \<and> entered s l (l_end lk)
        \<and> (\<forall>line. l_data lk = Some line \<longrightarrow> line = (end_pos s (ToNode (l_node1 lk)), end_pos s (l_end lk))))
    \<and> (\<forall>k v. dget (s_nodes s) k = Some v \<longrightarrow> nv_look v = look_of v \<and> (nv_selected v \<longleftrightarrow> s_selected s = Some k))
    \<and> (s_mode s = ShowSelected \<longrightarrow> s_interest s = (case s_selected s of None \<Rightarrow> [] | Some k \<Rightarrow> [k]))"
proof -
  have ok: "scene_inv (s_selected s) s" "selection_ok s"
    using scene_reached_ok [OF assms] by (simp_all add: scene_ok_def)
  then have "\<forall>l < length (s_links s). link_ok s l (s_links s ! l)"
    "\<forall>k v. dget (s_nodes s) k = Some v \<longrightarrow> node_ok (s_selected s) s k v" by (simp_all add: scene_inv_def)
  with ok(2) show ?thesis
    by (fastforce simp: link_ok_def node_ok_def selection_ok_def Let_def)
qed

lemma scene_reached_invariant_witness:
  "\<exists>s. scene_reached 2 s \<and> length (s_links s) = 2 \<and> entered s 0 (l_end (s_links s ! 0))"
proof -
  obtain s where s: "scan_topology (\<lambda>c. (65535, 0, 0)) (\<lambda>g. []) two_nodes (empty_scene 2) = Inr s"
    using two_nodes_scan by blast
  then have "length (shape s) = 2" by (simp add: scan_topology_shape two_nodes_links) (simp add: shape_def)
  then have len: "length (s_links s) = 2" by (simp add: shape_def)
  have reached: "scene_reached 2 s" using s by (auto intro: scene_reached.intros scene_step.intros)
  from scene_reached_invariant [OF reached] len show ?thesis using reached by (auto simp: Let_def)
qed

text \<open>
  Claim C25: in every scene the program reaches the references are closed: a link joins nodes and channels that
  exist, the link numbers kept by a node or a channel are numbers of links that end there, and the selected
  node exists.
\<close>
theorem scene_reached_closed:
  assumes "scene_reached n s"
  shows "(\<forall>l < length (s_links s). dget (s_nodes s) (l_node1 (s_links s ! l)) \<noteq> None
        \<and> (case l_end (s_links s ! l) of ToNode k \<Rightarrow> dget (s_nodes s) k \<noteq> None | ToChannel c \<Rightarrow> dget (s_channels s) c \<noteq> None))
    \<and> (\<forall>k v. dget (s_nodes s) k = Some v \<longrightarrow> (\<forall>l \<in> set (nv_links v). l < length (s_links s)
        \<and> (l_node1 (s_links s ! l) = k \<or> l_end (s_links s ! l) = ToNode k)))
    \<and> (\<forall>c v. dget (s_channels s) c = Some v \<longrightarrow> (\<forall>l \<in> set (cv_links v). l < length (s_links s)
        \<and> l_end (s_links s ! l) = ToChannel c))
    \<and> (\<forall>k. s_selected s = Some k \<longrightarrow> dget (s_nodes s) k \<noteq> None)"
proof -
  have inv: "scene_inv (s_selected s) s" and sel: "selection_ok s"
    using scene_reached_ok [OF assms] by (simp_all add: scene_ok_def)
  have "dget (s_nodes s) (l_node1 (s_links s ! l)) \<noteq> None
      \<and> (case l_end (s_links s ! l) of ToNode k \<Rightarrow> dget (s_nodes s) k \<noteq> None | ToChannel c \<Rightarrow> dget (s_channels s) c \<noteq> None)"
    if "l < length (s_links s)" for l
  proof -
    have "link_ok s l (s_links s ! l)" using inv that by (simp add: scene_inv_def)
    then show ?thesis by (auto simp: link_ok_def entered_def split: link_end.splits option.splits)
  qed
  then show ?thesis
    using inv sel by (simp add: scene_inv_def node_ok_def channel_ok_def selection_ok_def)
qed

lemma scene_reached_closed_witness:
  "\<exists>s. scene_reached 2 s \<and> s_selected s = Some 1 \<and> dget (s_nodes s) 1 \<noteq> None"
proof -
  obtain s where "select_node (ArgIndex 1) (get_node 1 (empty_scene 2)) = Inr s"
    by (simp add: select_node_def resolve_node_def get_node_def empty_scene_def set_show_transmissions_mode_def
        set_nodes_of_interest_def put_node_def Let_def)
  moreover from this have "s_selected s = Some 1"
    by (auto simp: select_node_def resolve_node_def get_node_def empty_scene_def set_show_transmissions_mode_def
        set_nodes_of_interest_def interest_of_selection_def set_selected_def put_node_def Let_def split: if_splits option.splits)
  ultimately have "scene_reached 2 s" and sel: "s_selected s = Some 1"
    by (auto intro!: step_select [of "ArgIndex 1"] reached_step [OF reached_step [OF reached_start step_get_node]])
  from scene_reached_closed [OF this(1)] this sel show ?thesis by auto
qed

end
