(* ===== verification/Viz_Thread.thy ===== *)
theory Viz_Thread
  imports Py_Prelude Complex_Main
begin

text \<open>
  The two threads of the visualizer, \<^verbatim>\<open>visualizer/visualizer/core.py\<close>: the \<^verbatim>\<open>SimulationThread\<close>, which
  runs the simulator for one sample period after each signal, and the main thread with its timers, the
  play button and the end of the program. The step relation \<open>vis_step\<close> interleaves them; the main
  thread can process events while it waits for the lock, so its handlers are kept in a stack of frames.
  The simulator behind the helper object is a parameter.
\<close>

section \<open>The state\<close>

text \<open>What the thread uses of \<^verbatim>\<open>sim_helper\<close> and of the simulator: running it, its time, and the messages of the last run.\<close>

record 'w sim_helper =
  run_until :: "rat \<Rightarrow> 'w \<Rightarrow> 'w"
  sim_now :: "'w \<Rightarrow> rat"
  pause_texts :: "'w \<Rightarrow> string list"

datatype holder = SimThread | MainThread

text \<open>Where the simulation thread stands in its loop.\<close>

datatype sim_pc = SimTop | SimWait | SimClear | SimCheck | SimLock | SimRun | SimRelease | SimEnded

text \<open>
  Where a call of \<^verbatim>\<open>update_view_timeout\<close> stands: before it asks for the lock, processing events because
  the lock was taken, holding the lock, and after its release with the messages it took.
\<close>

datatype frame_phase = Asking | Events | Holding | After "string list"

datatype quit_phase = Running | QuitSet | Joining | Stopped

record 'w vis =
  v_pc :: sim_pc
  v_lock :: "holder option"
  v_go :: bool
  v_quit :: bool
  v_target :: rat
  v_world :: 'w
  v_messages :: "string list"
  v_idle :: nat                          \<comment> \<open>calls of \<open>update_model\<close> handed to the main loop\<close>
  v_frames :: "(nat \<times> frame_phase) list"  \<comment> \<open>active calls of \<open>update_view_timeout\<close>, by their source\<close>
  v_playing :: bool
  v_timer :: "nat option"                \<comment> \<open>\<open>_update_timeout_id\<close>\<close>
  v_sources :: "(nat \<times> int) list"         \<comment> \<open>the live timers of the main loop with their periods\<close>
  v_next :: nat
  v_speed :: rat
  v_period :: rat
  v_phase :: quit_phase
  v_dialogs :: "string list"
  v_warnings :: nat                      \<comment> \<open>removals of a source that does not exist\<close>

definition sample_period :: rat where
  "sample_period = 1 / 10"

section \<open>Timers\<close>

definition source_remove :: "nat \<Rightarrow> 'w vis \<Rightarrow> 'w vis" where
  "source_remove i s =
     (if i \<in> fst ` set (v_sources s) then s\<lparr>v_sources := filter (\<lambda>src. fst src \<noteq> i) (v_sources s)\<rparr>
      else s\<lparr>v_warnings := Suc (v_warnings s)\<rparr>)"

definition timeout_add :: "int \<Rightarrow> 'w vis \<Rightarrow> nat \<times> 'w vis" where
  "timeout_add ms s = (v_next s, s\<lparr>v_sources := v_sources s @ [(v_next s, ms)], v_next := Suc (v_next s)\<rparr>)"

definition start_update_timer :: "'w vis \<Rightarrow> 'w vis" where
  "start_update_timer s =
     (let s = (case v_timer s of None \<Rightarrow> s | Some i \<Rightarrow> source_remove i s);
          (i, s) = timeout_add \<lfloor>sample_period / min (v_speed s) 1 * 1000\<rfloor> s
      in s\<lparr>v_timer := Some i\<rparr>)"

definition on_play_button_toggled :: "'w vis \<Rightarrow> 'w vis" where
  "on_play_button_toggled s =
     (if v_playing s then start_update_timer s
      else case v_timer s of None \<Rightarrow> s | Some i \<Rightarrow> source_remove i s)"

text \<open>Setting the state of the button calls the handler only when the state changes.\<close>

definition set_active :: "bool \<Rightarrow> 'w vis \<Rightarrow> 'w vis" where
  "set_active b s = (if v_playing s = b then s else on_play_button_toggled (s\<lparr>v_playing := b\<rparr>))"

definition speed_changed :: "rat \<Rightarrow> 'w vis \<Rightarrow> 'w vis" where
  "speed_changed v s = start_update_timer (s\<lparr>v_speed := v, v_period := sample_period * v\<rparr>)"

section \<open>The simulation thread\<close>

text \<open>\<^verbatim>\<open>run\<close>: one step of the loop, or nothing while the thread is blocked or has ended.\<close>

fun sim_step :: "'w sim_helper \<Rightarrow> 'w vis \<Rightarrow> 'w vis option" where
  "sim_step h s =
     (case v_pc s of
        SimTop \<Rightarrow> Some (s\<lparr>v_pc := if v_quit s then SimEnded else SimWait\<rparr>)
      | SimWait \<Rightarrow> if v_go s then Some (s\<lparr>v_pc := SimClear\<rparr>) else None
      | SimClear \<Rightarrow> Some (s\<lparr>v_go := False, v_pc := SimCheck\<rparr>)
      | SimCheck \<Rightarrow> Some (s\<lparr>v_pc := if v_quit s then SimEnded else SimLock\<rparr>)
      | SimLock \<Rightarrow> if v_lock s = None then Some (s\<lparr>v_lock := Some SimThread, v_pc := SimRun\<rparr>) else None
      | SimRun \<Rightarrow>
          (let w = run_until h (v_target s) (v_world s)
           in Some (s\<lparr>v_world := w, v_messages := v_messages s @ pause_texts h w, v_idle := Suc (v_idle s),
                      v_pc := SimRelease\<rparr>))
      | SimRelease \<Rightarrow> Some (s\<lparr>v_lock := None, v_pc := SimTop\<rparr>)
      | SimEnded \<Rightarrow> None)"

declare sim_step.simps [simp del]

section \<open>The main thread\<close>

text \<open>The main thread processes events in its main loop and in a call that found the lock taken.\<close>

definition main_free :: "'w vis \<Rightarrow> bool" where
  "main_free s \<longleftrightarrow> v_phase s = Running \<and> (case v_frames s of [] \<Rightarrow> True | (i, p) # _ \<Rightarrow> p = Events)"

text \<open>A timer goes off unless its handler is active already.\<close>

definition fire :: "nat \<Rightarrow> 'w vis \<Rightarrow> 'w vis option" where
  "fire i s =
     (if main_free s \<and> i \<in> fst ` set (v_sources s) \<and> i \<notin> fst ` set (v_frames s)
      then Some (s\<lparr>v_frames := (i, Asking) # v_frames s\<rparr>) else None)"

text \<open>\<^verbatim>\<open>update_view_timeout\<close>: the loop that asks for the lock.\<close>

definition ask_lock :: "'w vis \<Rightarrow> 'w vis option" where
  "ask_lock s =
     (if v_phase s \<in> {QuitSet, Joining} then None
      else case v_frames s of
        (i, Asking) # fs \<Rightarrow>
          (if v_lock s = None then Some (s\<lparr>v_lock := Some MainThread, v_frames := (i, Holding) # fs\<rparr>)
           else Some (s\<lparr>v_frames := (i, Events) # fs\<rparr>))
      | (i, Events) # fs \<Rightarrow> Some (s\<lparr>v_frames := (i, Asking) # fs\<rparr>)
      | _ \<Rightarrow> None)"

text \<open>
  The critical section. \<open>ok\<close> tells whether \<^verbatim>\<open>update_view\<close> returns; when it raises, the messages are
  gone, the lock is released, and the main loop drops the source.
\<close>

definition update_under_lock :: "'w sim_helper \<Rightarrow> bool \<Rightarrow> 'w vis \<Rightarrow> 'w vis option" where
  "update_under_lock h ok s =
     (case v_frames s of
        (i, Holding) # fs \<Rightarrow>
          (let msgs = v_messages s; s = s\<lparr>v_messages := []\<rparr>
           in if ok
              then Some (s\<lparr>v_target := sim_now h (v_world s) + v_period s, v_lock := None, v_frames := (i, After msgs) # fs\<rparr>)
              else Some (s\<lparr>v_lock := None, v_frames := fs, v_sources := filter (\<lambda>src. fst src \<noteq> i) (v_sources s)\<rparr>))
      | _ \<Rightarrow> None)"

text \<open>The rest of the handler: the dialog, then the end of the timer or the signal.\<close>

definition after_update :: "'w vis \<Rightarrow> 'w vis option" where
  "after_update s =
     (case v_frames s of
        (i, After msgs) # fs \<Rightarrow>
          (let s = (if msgs = [] then s else set_active False (s\<lparr>v_dialogs := v_dialogs s @ [join [CHR 0x0A] msgs]\<rparr>));
               s = s\<lparr>v_frames := fs\<rparr>
           in if \<not> v_playing s
              then Some (s\<lparr>v_timer := None, v_sources := filter (\<lambda>src. fst src \<noteq> i) (v_sources s)\<rparr>)
              else Some (s\<lparr>v_go := True\<rparr>))
      | _ \<Rightarrow> None)"

text \<open>\<^verbatim>\<open>update_model\<close>, called from the main loop, waits for the lock.\<close>

definition update_model :: "'w vis \<Rightarrow> 'w vis option" where
  "update_model s =
     (if main_free s \<and> v_idle s > 0 \<and> v_lock s = None then Some (s\<lparr>v_idle := v_idle s - 1\<rparr>) else None)"

text \<open>\<^verbatim>\<open>_quit\<close>: up to the flag, the signal, and the end of the wait for the other thread.\<close>

definition quit_begin :: "'w vis \<Rightarrow> 'w vis option" where
  "quit_begin s =
     (if main_free s
      then (let s = (case v_timer s of None \<Rightarrow> s | Some i \<Rightarrow> (source_remove i s)\<lparr>v_timer := None\<rparr>)
            in Some (s\<lparr>v_quit := True, v_phase := QuitSet\<rparr>))
      else None)"

definition quit_signal :: "'w vis \<Rightarrow> 'w vis option" where
  "quit_signal s = (if v_phase s = QuitSet then Some (s\<lparr>v_go := True, v_phase := Joining\<rparr>) else None)"

definition quit_joined :: "'w vis \<Rightarrow> 'w vis option" where
  "quit_joined s = (if v_phase s = Joining \<and> v_pc s = SimEnded then Some (s\<lparr>v_phase := Stopped\<rparr>) else None)"

section \<open>Runs\<close>

text \<open>A label tells which step was made, with what an observer needs: the simulator ran, messages were taken, a signal was given.\<close>

datatype label =
    Sim | Ran "string list"
  | Fired nat | Asked | Took "string list" | Dropped "string list" | Signalled | Paused | Collected
  | Toggled | SpeedSet rat | Quit | QuitSignalled | Joined

inductive vis_step :: "'w sim_helper \<Rightarrow> label \<Rightarrow> 'w vis \<Rightarrow> 'w vis \<Rightarrow> bool" for h where
  step_sim: "v_pc s \<noteq> SimRun \<Longrightarrow> sim_step h s = Some t \<Longrightarrow> vis_step h Sim s t"
| step_run: "v_pc s = SimRun \<Longrightarrow> sim_step h s = Some t \<Longrightarrow> vis_step h (Ran (pause_texts h (v_world t))) s t"
| step_fire: "fire i s = Some t \<Longrightarrow> vis_step h (Fired i) s t"
| step_ask: "ask_lock s = Some t \<Longrightarrow> vis_step h Asked s t"
| step_take: "update_under_lock h True s = Some t \<Longrightarrow> vis_step h (Took (v_messages s)) s t"
| step_drop: "update_under_lock h False s = Some t \<Longrightarrow> vis_step h (Dropped (v_messages s)) s t"
| step_signal: "after_update s = Some t \<Longrightarrow> v_playing t \<Longrightarrow> vis_step h Signalled s t"
| step_pause: "after_update s = Some t \<Longrightarrow> \<not> v_playing t \<Longrightarrow> vis_step h Paused s t"
| step_collect: "update_model s = Some t \<Longrightarrow> vis_step h Collected s t"
| step_toggle: "main_free s \<Longrightarrow> vis_step h Toggled s (set_active (\<not> v_playing s) s)"
| step_speed: "main_free s \<Longrightarrow> 1 / 100 \<le> v \<Longrightarrow> v \<le> 10 \<Longrightarrow> vis_step h (SpeedSet v) s (speed_changed v s)"
| step_quit: "quit_begin s = Some t \<Longrightarrow> vis_step h Quit s t"
| step_quit_signal: "quit_signal s = Some t \<Longrightarrow> vis_step h QuitSignalled s t"
| step_joined: "quit_joined s = Some t \<Longrightarrow> vis_step h Joined s t"

inductive_cases vis_stepE: "vis_step h l s t"

text \<open>The window is built with a running timer, and then the thread is started.\<close>

definition vis_start :: "'w \<Rightarrow> 'w vis" where
  "vis_start w =
     speed_changed 1
       \<lparr>v_pc = SimTop, v_lock = None, v_go = False, v_quit = False, v_target = 0, v_world = w, v_messages = [], v_idle = 0,
        v_frames = [], v_playing = False, v_timer = None, v_sources = [], v_next = 0, v_speed = 1, v_period = sample_period,
        v_phase = Running, v_dialogs = [], v_warnings = 0\<rparr>"

inductive vis_trace :: "'w sim_helper \<Rightarrow> 'w vis \<Rightarrow> label list \<Rightarrow> 'w vis \<Rightarrow> bool" for h s0 where
  trace_nil: "vis_trace h s0 [] s0"
| trace_step: "vis_trace h s0 ls s \<Longrightarrow> vis_step h l s t \<Longrightarrow> vis_trace h s0 (ls @ [l]) t"

section \<open>Projections\<close>

lemma source_remove_simps [simp]:
  "v_pc (source_remove i s) = v_pc s" "v_lock (source_remove i s) = v_lock s" "v_go (source_remove i s) = v_go s"
  "v_quit (source_remove i s) = v_quit s" "v_messages (source_remove i s) = v_messages s" "v_world (source_remove i s) = v_world s"
  "v_frames (source_remove i s) = v_frames s" "v_phase (source_remove i s) = v_phase s" "v_timer (source_remove i s) = v_timer s"
  "v_target (source_remove i s) = v_target s" "v_playing (source_remove i s) = v_playing s"
  by (simp_all add: source_remove_def)

lemma start_update_timer_simps [simp]:
  "v_pc (start_update_timer s) = v_pc s" "v_lock (start_update_timer s) = v_lock s" "v_go (start_update_timer s) = v_go s"
  "v_quit (start_update_timer s) = v_quit s" "v_messages (start_update_timer s) = v_messages s"
  "v_frames (start_update_timer s) = v_frames s" "v_phase (start_update_timer s) = v_phase s"
  "v_target (start_update_timer s) = v_target s" "v_playing (start_update_timer s) = v_playing s"
  "v_world (start_update_timer s) = v_world s"
  by (simp_all add: start_update_timer_def timeout_add_def Let_def split: option.split)

lemma set_active_simps [simp]:
  "v_pc (set_active b s) = v_pc s" "v_lock (set_active b s) = v_lock s" "v_go (set_active b s) = v_go s"
  "v_quit (set_active b s) = v_quit s" "v_messages (set_active b s) = v_messages s"
  "v_frames (set_active b s) = v_frames s" "v_phase (set_active b s) = v_phase s" "v_playing (set_active b s) = b"
  "v_target (set_active b s) = v_target s" "v_world (set_active b s) = v_world s"
  by (auto simp: set_active_def on_play_button_toggled_def split: option.split)

lemma speed_changed_simps [simp]:
  "v_pc (speed_changed v s) = v_pc s" "v_lock (speed_changed v s) = v_lock s" "v_go (speed_changed v s) = v_go s"
  "v_quit (speed_changed v s) = v_quit s" "v_messages (speed_changed v s) = v_messages s"
  "v_frames (speed_changed v s) = v_frames s" "v_phase (speed_changed v s) = v_phase s"
  "v_playing (speed_changed v s) = v_playing s"
  by (simp_all add: speed_changed_def)

lemma after_update_simps:
  assumes "after_update s = Some t"
  shows "v_pc t = v_pc s" "v_lock t = v_lock s" "v_quit t = v_quit s" "v_messages t = v_messages s" "v_phase t = v_phase s"
    and "\<exists>i msgs. v_frames s = (i, After msgs) # v_frames t"
    and "v_go t \<longleftrightarrow> v_playing t \<or> v_go s"
  using assms by (auto simp: after_update_def Let_def split: list.splits frame_phase.splits if_splits)

section \<open>The lock and the end of the program\<close>

text \<open>
  The lock has the holder that the two program counters tell; handlers below the top wait in the
  event loop; once the program quits, the top one does too; and the flag is set before the signal.
\<close>

definition top_phase :: "(nat \<times> frame_phase) list \<Rightarrow> frame_phase option" where
  "top_phase fs = (case fs of [] \<Rightarrow> None | f # _ \<Rightarrow> Some (snd f))"

lemma top_phase_simps [simp]:
  "top_phase [] = None" "top_phase (f # fs) = Some (snd f)"
  by (simp_all add: top_phase_def)

definition threads_ok :: "sim_pc \<Rightarrow> holder option \<Rightarrow> bool \<Rightarrow> bool \<Rightarrow> quit_phase \<Rightarrow> (nat \<times> frame_phase) list \<Rightarrow> bool" where
  "threads_ok pc lock go quit phase frames \<longleftrightarrow>
     (lock = Some SimThread \<longleftrightarrow> pc = SimRun \<or> pc = SimRelease)
     \<and> (lock = Some MainThread \<longleftrightarrow> top_phase frames = Some Holding)
     \<and> (\<forall>f \<in> set (tl frames). snd f = Events)
     \<and> (phase = QuitSet \<or> phase = Joining \<longrightarrow> top_phase frames = None \<or> top_phase frames = Some Events)
     \<and> (quit \<longleftrightarrow> phase \<noteq> Running)
     \<and> (phase = Joining \<longrightarrow> pc = SimWait \<longrightarrow> go)
     \<and> (phase = Stopped \<longrightarrow> pc = SimEnded)"

definition vis_inv :: "'w vis \<Rightarrow> bool" where
  "vis_inv s \<longleftrightarrow> threads_ok (v_pc s) (v_lock s) (v_go s) (v_quit s) (v_phase s) (v_frames s)"

lemma vis_inv_start: "vis_inv (vis_start w)"
  by (simp add: vis_inv_def threads_ok_def vis_start_def)

lemma vis_inv_cong:
  "v_pc t = v_pc s \<Longrightarrow> v_lock t = v_lock s \<Longrightarrow> v_go t = v_go s \<Longrightarrow> v_quit t = v_quit s \<Longrightarrow> v_frames t = v_frames s
   \<Longrightarrow> v_phase t = v_phase s \<Longrightarrow> vis_inv t = vis_inv s"
  by (simp add: vis_inv_def)

lemma threads_ok_sim:
  "threads_ok SimTop l g True ph fs \<Longrightarrow> threads_ok SimEnded l g True ph fs"
  "threads_ok SimTop l g False ph fs \<Longrightarrow> threads_ok SimWait l g False ph fs"
  "threads_ok SimWait l g q ph fs \<Longrightarrow> threads_ok SimClear l g q ph fs"
  "threads_ok SimClear l g q ph fs \<Longrightarrow> threads_ok SimCheck l False q ph fs"
  "threads_ok SimCheck l g True ph fs \<Longrightarrow> threads_ok SimEnded l g True ph fs"
  "threads_ok SimCheck l g False ph fs \<Longrightarrow> threads_ok SimLock l g False ph fs"
  "threads_ok SimLock None g q ph fs \<Longrightarrow> threads_ok SimRun (Some SimThread) g q ph fs"
  "threads_ok SimRun l g q ph fs \<Longrightarrow> threads_ok SimRelease l g q ph fs"
  "threads_ok SimRelease l g q ph fs \<Longrightarrow> threads_ok SimTop None g q ph fs"
  by (auto simp: threads_ok_def)

lemma sim_step_inv: "sim_step h s = Some t \<Longrightarrow> vis_inv s \<Longrightarrow> vis_inv t"
  by (cases "v_pc s") (auto simp: vis_inv_def sim_step.simps Let_def split: if_split_asm intro: threads_ok_sim)

lemma main_freeD: "main_free s \<Longrightarrow> v_phase s = Running \<and> (top_phase (v_frames s) = None \<or> top_phase (v_frames s) = Some Events)"
  by (cases "v_frames s") (auto simp: main_free_def)

text \<open>The steps of the main thread on the same six components.\<close>

lemma threads_ok_push:
  assumes "threads_ok pc l g q Running fs" and "top_phase fs = None \<or> top_phase fs = Some Events"
  shows "threads_ok pc l g q Running ((i, Asking) # fs)"
proof -
  have "\<forall>f \<in> set fs. snd f = Events" using assms by (cases fs) (auto simp: threads_ok_def)
  with assms show ?thesis by (auto simp: threads_ok_def)
qed

lemma threads_ok_ask:
  assumes "threads_ok pc l g q ph ((i, p) # fs)"
  shows "ph \<noteq> QuitSet \<Longrightarrow> ph \<noteq> Joining \<Longrightarrow> p = Asking \<Longrightarrow> l = None \<Longrightarrow> threads_ok pc (Some MainThread) g q ph ((i, Holding) # fs)"
    and "p = Asking \<Longrightarrow> threads_ok pc l g q ph ((i, Events) # fs)"
    and "ph \<noteq> QuitSet \<Longrightarrow> ph \<noteq> Joining \<Longrightarrow> p = Events \<Longrightarrow> threads_ok pc l g q ph ((i, Asking) # fs)"
  using assms by (auto simp: threads_ok_def)

lemma threads_ok_pop:
  assumes "threads_ok pc l g q ph ((i, p) # fs)" and "p \<noteq> Events" and "g \<longrightarrow> g'"
    and "l' = None \<and> p = Holding \<or> l' = l \<and> p \<noteq> Holding"
  shows "threads_ok pc l' g' q ph fs" and "p = Holding \<Longrightarrow> threads_ok pc l' g q ph ((i, After msgs) # fs)"
proof -
  have tail: "\<forall>f \<in> set (tl fs). snd f = Events" "top_phase fs = None \<or> top_phase fs = Some Events"
    using assms(1) by (cases fs; auto simp: threads_ok_def)+
  then show "threads_ok pc l' g' q ph fs" and "p = Holding \<Longrightarrow> threads_ok pc l' g q ph ((i, After msgs) # fs)"
    using assms by (auto simp: threads_ok_def)
qed

lemma ask_lock_inv: "ask_lock s = Some t \<Longrightarrow> vis_inv s \<Longrightarrow> vis_inv t"
proof (cases "v_frames s")
  case (Cons f fs)
  obtain i p where f: "f = (i, p)" by force
  assume "ask_lock s = Some t" "vis_inv s"
  then show ?thesis
    by (cases p) (auto simp: ask_lock_def vis_inv_def Cons f intro: threads_ok_ask split: if_split_asm)
qed (simp add: ask_lock_def split: if_split_asm)

lemma update_under_lock_inv: "update_under_lock h ok s = Some t \<Longrightarrow> vis_inv s \<Longrightarrow> vis_inv t"
proof (cases "v_frames s")
  case (Cons f fs)
  obtain i p where f: "f = (i, p)" by force
  assume step: "update_under_lock h ok s = Some t" and inv: "vis_inv s"
  have p: "p = Holding" using step by (auto simp: update_under_lock_def Cons f split: frame_phase.splits)
  have "threads_ok (v_pc s) (v_lock s) (v_go s) (v_quit s) (v_phase s) ((i, Holding) # fs)"
    using inv by (simp add: vis_inv_def Cons f p)
  from threads_ok_pop [OF this, of "v_go s" None] step show ?thesis
    by (auto simp: update_under_lock_def vis_inv_def Let_def Cons f p split: if_split_asm)
qed (simp add: update_under_lock_def)

lemma after_update_inv:
  assumes "after_update s = Some t" and "vis_inv s"
  shows "vis_inv t"
proof -
  obtain i msgs where "v_frames s = (i, After msgs) # v_frames t" using after_update_simps(6) [OF assms(1)] by blast
  with assms(2) have "threads_ok (v_pc s) (v_lock s) (v_go s) (v_quit s) (v_phase s) ((i, After msgs) # v_frames t)"
    by (simp add: vis_inv_def)
  from threads_ok_pop(1) [OF this, of "v_go t" "v_lock s"] show ?thesis
    by (simp add: vis_inv_def after_update_simps(1-5,7) [OF assms(1)])
qed

lemma vis_step_inv: "vis_step h l s t \<Longrightarrow> vis_inv s \<Longrightarrow> vis_inv t"
proof (induction rule: vis_step.induct)
  case (step_fire i s t)
  then have "t = s\<lparr>v_frames := (i, Asking) # v_frames s\<rparr>" "main_free s" by (auto simp: fire_def split: if_split_asm)
  with main_freeD [OF this(2)] step_fire(2) threads_ok_push show ?case by (simp add: vis_inv_def)
next
  case (step_collect s t)
  then show ?case by (auto simp: update_model_def split: if_split_asm elim: vis_inv_cong [THEN iffD2, rotated -1])
next
  case (step_quit s t)
  then have free: "main_free s" by (simp add: quit_begin_def split: if_split_asm)
  have "v_pc t = v_pc s" "v_lock t = v_lock s" "v_go t = v_go s" "v_quit t" "v_phase t = QuitSet" "v_frames t = v_frames s"
    using step_quit(1) by (auto simp: quit_begin_def Let_def split: if_split_asm option.split_asm)
  with main_freeD [OF free] step_quit(2) show ?case by (auto simp: vis_inv_def threads_ok_def)
next
  case (step_quit_signal s t)
  then show ?case by (auto simp: quit_signal_def vis_inv_def threads_ok_def split: if_split_asm)
next
  case (step_joined s t)
  then show ?case by (auto simp: quit_joined_def vis_inv_def threads_ok_def split: if_split_asm)
next
  case (step_toggle s)
  then show ?case by (simp add: vis_inv_def)
next
  case (step_speed s v)
  then show ?case by (simp add: vis_inv_def)
qed (erule (1) sim_step_inv ask_lock_inv update_under_lock_inv after_update_inv)+

lemma vis_trace_inv: "vis_trace h s0 ls s \<Longrightarrow> vis_inv s0 \<Longrightarrow> vis_inv s"
  by (induction rule: vis_trace.induct) (auto intro: vis_step_inv)

lemma vis_trace_snoc: "vis_trace h s0 (ls @ [l]) t \<longleftrightarrow> (\<exists>s. vis_trace h s0 ls s \<and> vis_step h l s t)"
  by (auto elim: vis_trace.cases intro: trace_step)

section \<open>Quitting always ends\<close>

text \<open>The simulation thread alone for \<open>n\<close> steps.\<close>

fun sim_steps :: "'w sim_helper \<Rightarrow> nat \<Rightarrow> 'w vis \<Rightarrow> 'w vis option" where
  "sim_steps h 0 s = Some s"
| "sim_steps h (Suc n) s = Option.bind (sim_step h s) (sim_steps h n)"

lemma sim_steps_ended:
  assumes "v_quit s" and "v_pc s = SimWait \<longrightarrow> v_go s" and "v_lock s \<noteq> Some MainThread"
    and "v_lock s = Some SimThread \<longleftrightarrow> v_pc s = SimRun \<or> v_pc s = SimRelease"
  shows "\<exists>n \<le> 4. \<exists>t. sim_steps h n s = Some t \<and> v_pc t = SimEnded"
proof -
  have top: "\<exists>t. sim_steps h 1 u = Some t \<and> v_pc t = SimEnded" if "v_pc u = SimTop \<or> v_pc u = SimCheck" "v_quit u" for u
    using that by (auto simp: sim_step.simps)
  have release: "\<exists>t. sim_steps h 2 u = Some t \<and> v_pc t = SimEnded" if "v_pc u = SimRelease" "v_quit u" for u
    using that by (simp add: sim_step.simps numeral_2_eq_2)
  have run: "\<exists>t. sim_steps h 3 u = Some t \<and> v_pc t = SimEnded" if "v_pc u = SimRun" "v_quit u" for u
    using that by (simp add: sim_step.simps numeral_3_eq_3 Let_def)
  have clear: "\<exists>t. sim_steps h 2 u = Some t \<and> v_pc t = SimEnded" if "v_pc u = SimClear" "v_quit u" for u
    using that by (simp add: sim_step.simps numeral_2_eq_2)
  have lock: "v_pc s = SimLock \<Longrightarrow> v_lock s = None" using assms(3,4) by (cases "v_lock s" rule: option.exhaust) (metis holder.exhaust sim_pc.distinct option.exhaust)+
  show ?thesis
  proof (cases "v_pc s")
    case SimWait
    then have "\<exists>t. sim_steps h 3 s = Some t \<and> v_pc t = SimEnded"
      using assms by (simp add: sim_step.simps numeral_3_eq_3)
    then show ?thesis by (intro exI [of _ 3]) simp
  next
    case SimLock
    with lock assms(1) have "\<exists>t. sim_steps h 4 s = Some t \<and> v_pc t = SimEnded"
      by (simp add: sim_step.simps numeral_eq_Suc Let_def)
    then show ?thesis by (intro exI [of _ 4]) simp
  next
    case SimEnded
    then show ?thesis by (intro exI [of _ 0]) simp
  qed (use assms(1) top [of s] release [of s] run [of s] clear [of s] in
      \<open>auto intro: exI [of _ 1] exI [of _ 2] exI [of _ 3]\<close>)
qed

text \<open>
  Claim C11: once the user has closed the window and the signal is given, the simulation thread comes
  to its end in at most four steps of its own, wherever it was, and until then no other thread can make a
  step: the program cannot hang at its end.
\<close>
theorem quit_joins:
  assumes "vis_trace h (vis_start w) ls s" and "v_phase s = Joining"
  shows "(\<exists>n \<le> 4. \<exists>t. sim_steps h n s = Some t \<and> v_pc t = SimEnded)
    \<and> (\<forall>l t. vis_step h l s t \<longrightarrow> sim_step h s = Some t \<or> l = Joined)
    \<and> (v_pc s = SimEnded \<longrightarrow> (\<exists>t. vis_step h Joined s t \<and> v_phase t = Stopped))"
proof -
  have inv: "threads_ok (v_pc s) (v_lock s) (v_go s) (v_quit s) Joining (v_frames s)"
    using vis_trace_inv [OF assms(1) vis_inv_start] assms(2) by (simp add: vis_inv_def)
  then have facts: "v_quit s" "v_pc s = SimWait \<longrightarrow> v_go s" "v_lock s \<noteq> Some MainThread"
    "v_lock s = Some SimThread \<longleftrightarrow> v_pc s = SimRun \<or> v_pc s = SimRelease"
    "top_phase (v_frames s) = None \<or> top_phase (v_frames s) = Some Events"
    by (auto simp: threads_ok_def)
  have busy: "\<not> main_free s" using assms(2) by (simp add: main_free_def)
  have idle: "update_under_lock h ok s = None" "after_update s = None" for ok
    using facts(5) by (cases "v_frames s"; auto simp: update_under_lock_def after_update_def)+
  have "sim_step h s = Some t \<or> l = Joined" if "vis_step h l s t" for l t
    using that busy idle assms(2)
    by (cases rule: vis_step.cases) (auto simp: fire_def ask_lock_def update_model_def quit_begin_def quit_signal_def)
  moreover have "vis_step h Joined s (s\<lparr>v_phase := Stopped\<rparr>)" if "v_pc s = SimEnded"
    by (rule step_joined) (simp add: quit_joined_def assms(2) that)
  ultimately show ?thesis using sim_steps_ended [OF facts(1-4)] by fastforce
qed

section \<open>Runs as functions\<close>

text \<open>A run along given labels, for concrete runs.\<close>

fun follow :: "'w sim_helper \<Rightarrow> label \<Rightarrow> 'w vis \<Rightarrow> 'w vis option" where
  "follow h Sim s = (if v_pc s = SimRun then None else sim_step h s)"
| "follow h (Ran ms) s =
     (if v_pc s = SimRun
      then Option.bind (sim_step h s) (\<lambda>t. if ms = pause_texts h (v_world t) then Some t else None) else None)"
| "follow h (Fired i) s = fire i s"
| "follow h Asked s = ask_lock s"
| "follow h (Took ms) s = (if ms = v_messages s then update_under_lock h True s else None)"
| "follow h (Dropped ms) s = (if ms = v_messages s then update_under_lock h False s else None)"
| "follow h Signalled s = Option.bind (after_update s) (\<lambda>t. if v_playing t then Some t else None)"
| "follow h Paused s = Option.bind (after_update s) (\<lambda>t. if v_playing t then None else Some t)"
| "follow h Collected s = update_model s"
| "follow h Toggled s = (if main_free s then Some (set_active (\<not> v_playing s) s) else None)"
| "follow h (SpeedSet v) s = (if main_free s \<and> 1 / 100 \<le> v \<and> v \<le> 10 then Some (speed_changed v s) else None)"
| "follow h Quit s = quit_begin s"
| "follow h QuitSignalled s = quit_signal s"
| "follow h Joined s = quit_joined s"

fun follow_all :: "'w sim_helper \<Rightarrow> label list \<Rightarrow> 'w vis \<Rightarrow> 'w vis option" where
  "follow_all h [] s = Some s"
| "follow_all h (l # ls) s = Option.bind (follow h l s) (follow_all h ls)"

lemma follow_step: "follow h l s = Some t \<Longrightarrow> vis_step h l s t"
  by (cases l) (auto simp: bind_eq_Some_conv intro: vis_step.intros split: if_split_asm)

lemma follow_all_trace: "follow_all h ls s = Some t \<Longrightarrow> vis_trace h s0 ks s \<Longrightarrow> vis_trace h s0 (ks @ ls) t"
proof (induction ls arbitrary: s ks)
  case (Cons l ls)
  then obtain u where u: "follow h l s = Some u" "follow_all h ls u = Some t" by (auto simp: bind_eq_Some_conv)
  from Cons.IH [OF u(2) trace_step [OF Cons.prems(2) follow_step [OF u(1)]]] show ?case by simp
qed simp

lemma follow_all_start: "follow_all h ls (vis_start w) = Some t \<Longrightarrow> vis_trace h (vis_start w) ls t"
  using follow_all_trace [OF _ trace_nil] by fastforce

text \<open>A simulator that is only a clock and has no messages.\<close>

definition clock :: "rat sim_helper" where
  "clock = \<lparr>run_until = max, sim_now = id, pause_texts = (\<lambda>_. [])\<rparr>"

lemmas follow_simps = vis_start_def speed_changed_def start_update_timer_def timeout_add_def sim_step.simps quit_begin_def
  quit_signal_def main_free_def source_remove_def set_active_def on_play_button_toggled_def fire_def ask_lock_def
  update_under_lock_def after_update_def update_model_def clock_def sample_period_def

lemma quit_joins_witness:
  "\<exists>s. vis_trace clock (vis_start 0) [Sim, Quit, QuitSignalled] s \<and> (\<exists>n \<le> 4. \<exists>t. sim_steps clock n s = Some t \<and> v_pc t = SimEnded)"
proof -
  have "\<exists>s. follow_all clock [Sim, Quit, QuitSignalled] (vis_start 0) = Some s \<and> v_phase s = Joining"
    by (simp add: follow_simps)
  then obtain s where s: "follow_all clock [Sim, Quit, QuitSignalled] (vis_start 0) = Some s" "v_phase s = Joining" by blast
  have trace: "vis_trace clock (vis_start 0) [Sim, Quit, QuitSignalled] s" by (rule follow_all_start [OF s(1)])
  from quit_joins [OF trace s(2)] trace show ?thesis by blast
qed

section \<open>Signals and messages\<close>

fun ran_messages :: "label \<Rightarrow> string list" where
  "ran_messages (Ran ms) = ms"
| "ran_messages _ = []"

fun taken_messages :: "label \<Rightarrow> string list" where
  "taken_messages (Took ms) = ms"
| "taken_messages (Dropped ms) = ms"
| "taken_messages _ = []"

lemma messages_in_order:
  assumes "vis_trace h (vis_start w) ls s"
  shows "concat (map ran_messages ls) = concat (map taken_messages ls) @ v_messages s"
  using assms
proof induction
  case trace_nil
  show ?case by (simp add: vis_start_def)
next
  case (trace_step ls s l t)
  from trace_step.hyps(2) trace_step.IH show ?case
  proof (cases rule: vis_step.cases)
    case step_sim
    then show ?thesis using trace_step.IH
      by (cases "v_pc s") (auto simp: sim_step.simps split: if_split_asm)
  qed (auto simp: sim_step.simps fire_def ask_lock_def update_under_lock_def update_model_def quit_begin_def quit_signal_def
        quit_joined_def Let_def after_update_simps
      split: if_split_asm option.split_asm list.split_asm prod.split_asm frame_phase.split_asm)
qed

text \<open>
  Claim C12: no signal is lost: when the simulation thread sleeps without a signal, it has run the
  simulator at least once after the last signal it was given; and whatever messages the runs
  left have been taken once, in their order, or are still to be taken.
\<close>
theorem signals_and_messages:
  assumes "vis_trace h (vis_start w) (before @ Signalled # later) s"
  shows "(v_pc s = SimWait \<and> \<not> v_go s \<longrightarrow> (\<exists>ms. Ran ms \<in> set later))
    \<and> concat (map ran_messages (before @ Signalled # later))
      = concat (map taken_messages (before @ Signalled # later)) @ v_messages s"
proof -
  have run: "v_go s \<or> v_pc s \<in> {SimClear, SimCheck, SimLock, SimRun, SimEnded} \<or> (\<exists>ms. Ran ms \<in> set later)"
    using assms
  proof (induction later arbitrary: s rule: rev_induct)
    case Nil
    then obtain s0 where "vis_step h Signalled s0 s" by (auto simp: vis_trace_snoc)
    then have "after_update s0 = Some s" "v_playing s" by (auto elim: vis_stepE)
    then show ?case by (simp add: after_update_simps(7))
  next
    case (snoc l later)
    then obtain s0 where tr: "vis_trace h (vis_start w) (before @ Signalled # later) s0" and st: "vis_step h l s0 s"
      using vis_trace_snoc [of h "vis_start w" "before @ Signalled # later" l s] by auto
    show ?case using st snoc.IH [OF tr]
    proof (cases rule: vis_step.cases)
      case step_sim
      then show ?thesis using snoc.IH [OF tr]
        by (cases "v_pc s0") (auto simp: sim_step.simps split: if_split_asm)
    qed (auto simp: fire_def ask_lock_def update_under_lock_def update_model_def quit_begin_def quit_signal_def
          quit_joined_def Let_def after_update_simps
        split: if_split_asm option.split_asm list.split_asm prod.split_asm frame_phase.split_asm)
  qed
  with messages_in_order [OF assms] show ?thesis by auto
qed

lemma signals_and_messages_witness:
  "\<exists>s. vis_trace clock (vis_start 0)
      ([Sim, Toggled, Fired 1, Asked, Took []] @ Signalled # [Sim, Sim, Sim, Sim, Ran [], Sim, Sim]) s
    \<and> v_pc s = SimWait \<and> \<not> v_go s"
proof -
  let ?ls = "[Sim, Toggled, Fired 1, Asked, Took []] @ Signalled # [Sim, Sim, Sim, Sim, Ran [], Sim, Sim]"
  have "\<exists>s. follow_all clock ?ls (vis_start 0) = Some s \<and> v_pc s = SimWait \<and> \<not> v_go s"
    by (simp add: follow_simps)
  then obtain s where s: "follow_all clock ?ls (vis_start 0) = Some s" "v_pc s = SimWait" "\<not> v_go s" by blast
  have trace: "vis_trace clock (vis_start 0) ?ls s" by (rule follow_all_start [OF s(1)])
  from signals_and_messages [OF trace] s(2,3) trace show ?thesis by blast
qed

section \<open>Two weak points\<close>

text \<open>The identifier of the timer survives a pause, so the next start removes a timer that is gone.\<close>

lemma pause_play_removes_dead_timer:
  assumes "v_playing s" and "v_timer s = Some i" and "i \<in> fst ` set (v_sources s)"
  shows "v_warnings (set_active True (set_active False s)) = Suc (v_warnings s)"
  using assms by (simp add: set_active_def on_play_button_toggled_def source_remove_def start_update_timer_def
      timeout_add_def Let_def image_iff)

text \<open>
  Claim C27: two runs that the code allows for every simulator without messages. Events that are handled
  while the view waits for the lock can leave two timers alive, of which the program knows one, so the view
  goes on at twice the rate. And a second signal before the thread has taken the lock for the
  first makes the simulator run twice before the model is updated; the second run of the simulator begins by
  clearing the samples of the first.
\<close>
theorem timer_and_signal_races:
  assumes "\<And>w. pause_texts h w = []"
  shows "(\<exists>ls s. vis_trace h (vis_start w) ls s \<and> v_playing s \<and> map fst (v_sources s) = [2, 3] \<and> v_timer s = Some 3)
    \<and> (\<exists>ls s. vis_trace h (vis_start w) ls s \<and> length (filter (\<lambda>l. l = Ran []) ls) = 2 \<and> Collected \<notin> set ls \<and> v_idle s = 2)"
proof -
  let ?busy = "[Toggled, Fired 1, Asked, Took [], Signalled, Sim, Sim, Sim, Sim]"
  let ?a = "?busy @ [Sim, Fired 1, Asked, Toggled, SpeedSet 2, Ran [], Sim, Asked, Asked, Took [], Paused, Toggled]"
  let ?b = "?busy @ [Fired 1, Asked, Took [], Signalled, Sim, Ran [], Sim, Sim, Sim, Sim, Sim, Sim, Ran []]"
  have "\<exists>s. follow_all h ?a (vis_start w) = Some s \<and> v_playing s \<and> map fst (v_sources s) = [2, 3] \<and> v_timer s = Some 3"
    by (simp add: follow_simps assms)
  then obtain s where s: "follow_all h ?a (vis_start w) = Some s" "v_playing s" "map fst (v_sources s) = [2, 3]"
    "v_timer s = Some 3" by (elim exE conjE)
  have "\<exists>t. follow_all h ?b (vis_start w) = Some t \<and> v_idle t = 2"
    by (simp add: follow_simps assms)
  then obtain t where t: "follow_all h ?b (vis_start w) = Some t" "v_idle t = 2" by (elim exE conjE)
  have b: "length (filter (\<lambda>l. l = Ran []) ?b) = 2" "Collected \<notin> set ?b" by simp_all
  show ?thesis
  proof
    show "\<exists>ls s. vis_trace h (vis_start w) ls s \<and> v_playing s \<and> map fst (v_sources s) = [2, 3] \<and> v_timer s = Some 3"
      using follow_all_start [OF s(1)] s(2-4) by (intro exI conjI)
    show "\<exists>ls s. vis_trace h (vis_start w) ls s \<and> length (filter (\<lambda>l. l = Ran []) ls) = 2 \<and> Collected \<notin> set ls \<and> v_idle s = 2"
      using follow_all_start [OF t(1)] b t(2) by (intro exI conjI)
  qed
qed

lemma timer_and_signal_races_witness:
  "\<exists>ls s. vis_trace clock (vis_start 0) ls s \<and> v_playing s \<and> map fst (v_sources s) = [2, 3] \<and> v_timer s = Some 3"
proof -
  have "\<And>w. pause_texts clock w = []" by (simp add: clock_def)
  from timer_and_signal_races [OF this, of 0] show ?thesis by (rule conjunct1)
qed

end
