(* ===== verification/Viz_Stats.thy ===== *)
theory Viz_Stats
  imports Viz_Invariant Rad_Stats "HOL-Library.Multiset"
begin

text \<open>
  What the visualizer shows of the traffic: the windows of samples, the averages and the arrows of
  \<^verbatim>\<open>visualizer/visualizer/core.py\<close>, and the rates of \<^verbatim>\<open>plugins/interface_statistics.py\<close>. Samples come from
  the simulator; an arrow is its item together with its label. Widths and angles are real numbers, since
  the code takes logarithms and arcus tangents.
\<close>

section \<open>Windows of samples\<close>

function drop_old :: "nat \<Rightarrow> 'a list \<Rightarrow> 'a list" where
  "drop_old n xs = (if length xs > n then drop_old n (tl xs) else xs)"
  by auto
termination by (relation "measure (\<lambda>(n, xs). length xs)") auto

declare drop_old.simps [simp del]

definition remember :: "nat \<Rightarrow> 'a \<Rightarrow> 'a list \<Rightarrow> 'a list" where
  "remember n x xs = drop_old n (xs @ [x])"

text \<open>\<^verbatim>\<open>do_simulation_periodic_update\<close> on the last transmissions and the last drops.\<close>

definition do_simulation_periodic_update ::
  "rat \<Rightarrow> 'a \<Rightarrow> 'b \<Rightarrow> 'a list \<times> 'b list \<Rightarrow> 'a list \<times> 'b list" where
  "do_simulation_periodic_update smoothing transmissions drops w =
     (let smooth_factor = nat (py_trunc (smoothing * 10))
      in (remember smooth_factor transmissions (fst w), remember smooth_factor drops (snd w)))"

lemma drop_old: "drop_old n xs = drop (length xs - n) xs"
proof (induction n xs rule: drop_old.induct)
  case (1 n xs)
  show ?case
  proof (cases "length xs > n")
    case True
    then have "length xs - n = Suc (length xs - 1 - n)" by simp
    with 1 True show ?thesis by (subst drop_old.simps) (simp add: drop_Suc)
  qed (subst drop_old.simps, simp)
qed

lemma length_remember [simp]: "length (remember n x xs) = min n (Suc (length xs))"
  by (simp add: remember_def drop_old)

lemma remember_window:
  "fold (remember n) xs [] = drop (length xs - n) xs"
proof (induction xs rule: rev_induct)
  case (snoc x xs)
  then show ?case by (cases "length xs \<le> n") (auto simp: remember_def drop_old Suc_diff_le)
qed simp

section \<open>Averages\<close>

definition tally_sample :: "'k \<times> nat \<Rightarrow> ('k, nat \<times> nat) dict \<Rightarrow> ('k, nat \<times> nat) dict" where
  "tally_sample sample d =
     (case sample of (key, n) \<Rightarrow>
        case (case dget d key of None \<Rightarrow> (0, 0) | Some p \<Rightarrow> p) of (bytes, num) \<Rightarrow> dset key (bytes + n, num + 1) d)"

definition tally :: "('k \<times> nat) list list \<Rightarrow> ('k, nat \<times> nat) dict" where
  "tally sets = fold (fold tally_sample) sets []"

definition bytes_of :: "'k \<Rightarrow> ('k \<times> nat) list \<Rightarrow> nat list" where
  "bytes_of k samples = map snd (filter (\<lambda>x. fst x = k) samples)"

lemma tally_concat: "tally sets = fold tally_sample (concat sets) []"
proof -
  have "fold (fold tally_sample) sets d = fold tally_sample (concat sets) d" for d :: "('a, nat \<times> nat) dict"
    by (induction sets arbitrary: d) simp_all
  then show ?thesis by (simp add: tally_def)
qed

lemma tally_sample_get:
  "dget (tally_sample (k, n) d) = (dget d)(k \<mapsto> (case dget d k of None \<Rightarrow> (n, 1) | Some (b, c) \<Rightarrow> (b + n, c + 1)))"
  by (simp add: tally_sample_def split: option.split prod.split)

lemma tally_get:
  "dget (tally sets) k =
     (if bytes_of k (concat sets) = [] then None
      else Some (sum_list (bytes_of k (concat sets)), length (bytes_of k (concat sets))))"
proof -
  have "dget (fold tally_sample xs []) k =
      (if bytes_of k xs = [] then None else Some (sum_list (bytes_of k xs), length (bytes_of k xs)))" for xs :: "('a \<times> nat) list"
  proof (induction xs rule: rev_induct)
    case (snoc x xs)
    obtain k' n where x: "x = (k', n)" by force
    show ?case
    proof (cases "k' = k")
      case True
      then show ?thesis by (simp add: x tally_sample_get snoc) (simp add: bytes_of_def)
    next
      case False
      then show ?thesis by (simp add: x tally_sample_get snoc) (simp add: bytes_of_def)
    qed
  qed (simp add: bytes_of_def)
  then show ?thesis by (simp add: tally_concat)
qed

lemma tally_distinct: "distinct (dkeys (tally sets))"
proof -
  have "distinct (dkeys (fold tally_sample xs []))" for xs :: "('a \<times> nat) list"
    by (induction xs rule: rev_induct) (auto simp: tally_sample_def split: prod.split)
  then show ?thesis by (simp add: tally_concat)
qed

section \<open>Arrows\<close>

datatype anchor = AnchorS | AnchorN | NoAnchor

record arrow =
  a_item :: nat                 \<comment> \<open>which item of the canvas it is\<close>
  a_visible :: bool
  a_width :: real
  a_points :: "point \<times> point"
  a_text_visible :: bool
  a_text :: string
  a_font :: string
  a_anchor :: anchor
  a_text_pos :: "real \<times> real"
  a_transform :: "(point \<times> real) option"

text \<open>The sliders, the sample period, and what the window answers.\<close>

record view_env =
  e_node_size :: rat
  e_period :: rat
  e_clip :: "point \<Rightarrow> point \<Rightarrow> point \<times> point"  \<comment> \<open>the part of a line that is visible\<close>
  e_edge_y :: rat
  e_no_transform :: bool                       \<comment> \<open>PyGObject fails to set the transformation\<close>

definition e_scale :: "view_env \<Rightarrow> rat" where
  "e_scale env = e_node_size env / 5"

definition new_arrow :: "nat \<Rightarrow> arrow" where
  "new_arrow i =
     \<lparr>a_item = i, a_visible = True, a_width = 2, a_points = ((0, 0), (0, 0)), a_text_visible = True, a_text = [],
      a_font = [], a_anchor = NoAnchor, a_text_pos = (0, 0), a_transform = None\<rparr>"

definition hide :: "arrow \<Rightarrow> arrow" where
  "hide a = a\<lparr>a_visible := False, a_text_visible := False\<rparr>"

text \<open>\<^verbatim>\<open>max(0.1, math.log(bytes / num / period) * k)\<close>; the logarithm of 0 is an error.\<close>

definition log_width :: "view_env \<Rightarrow> nat \<Rightarrow> nat \<Rightarrow> py_error + real" where
  "log_width env bytes num =
     (if num = 0 \<or> e_period env = 0 then Inl ZeroDivisionError
      else let q = of_nat bytes / of_nat num / e_period env
           in if q \<le> 0 then Inl ValueError else Inr (max (1 / 10) (ln (of_rat q) * of_rat (e_scale env))))"

definition kbps :: "view_env \<Rightarrow> nat \<Rightarrow> nat \<Rightarrow> rat" where
  "kbps env bytes num = of_nat (bytes * 8) / 1000 / of_nat num / e_period env"

definition label_size :: "view_env \<Rightarrow> nat" where
  "label_size env = nat (py_trunc (1 + 10 * e_scale env))"

definition atan2 :: "real \<Rightarrow> real \<Rightarrow> real" where
  "atan2 y x =
     (if x > 0 then arctan (y / x)
      else if x < 0 then (if y \<ge> 0 then arctan (y / x) + pi else arctan (y / x) - pi)
      else if y > 0 then pi / 2 else if y < 0 then - (pi / 2) else 0)"

text \<open>\<^verbatim>\<open>-PI_OVER_2 <= angle <= PI_OVER_2\<close>: text along the line is not upside down.\<close>

definition upright :: "real \<Rightarrow> bool" where
  "upright angle \<longleftrightarrow> - (pi / 2) \<le> angle \<and> angle \<le> pi / 2"

definition get_label_over_line_position :: "view_env \<Rightarrow> point \<Rightarrow> point \<Rightarrow> point" where
  "get_label_over_line_position env p1 p2 =
     (case e_clip env p1 p2 of ((x1, y1), (x2, y2)) \<Rightarrow> ((x1 + x2) / 2, (y1 + y2) / 2))"

text \<open>The two arrow signs around a rate, in UTF-8.\<close>

definition arrow_right :: string where "arrow_right = [CHR 0xE2, CHR 0x86, CHR 0x92]"
definition arrow_left :: string where "arrow_left = [CHR 0xE2, CHR 0x86, CHR 0x90]"

text \<open>One arrow of \<^verbatim>\<open>_update_transmissions_view\<close>, between two points.\<close>

definition paint_transmission :: "view_env \<Rightarrow> nat \<times> nat \<Rightarrow> point \<Rightarrow> point \<Rightarrow> arrow \<Rightarrow> py_error + arrow" where
  "paint_transmission env traffic p1 p2 a =
     (case traffic of (bytes, num) \<Rightarrow>
        res_bind (log_width env bytes num) (\<lambda>width.
          let angle = atan2 (of_rat (snd p2 - snd p1)) (of_rat (fst p2 - fst p1));
              rate = fmt_f 2 (kbps env bytes num) @ '' kbit/s'';
              (text, anchor, y) = (if upright angle
                                   then (rate @ '' '' @ arrow_right, AnchorS, - (width / 2))
                                   else (arrow_left @ '' '' @ rate, AnchorN, width / 2));
              l = get_label_over_line_position env p1 p2;
              a = a\<lparr>a_width := width, a_points := (p1, p2), a_text_visible := True,
                    a_font := ''Sans Serif '' @ fmt_fixed 6 (of_nat (label_size env)), a_text := text, a_anchor := anchor\<rparr>
          in Inr (if e_no_transform env
                  then a\<lparr>a_text_pos := (of_rat (fst l), of_rat (snd l) + y)\<rparr>
                  else a\<lparr>a_text_pos := (0, y), a_transform := Some (l, angle)\<rparr>)))"

text \<open>One arrow of \<^verbatim>\<open>_update_drops_view\<close>, down to the edge of the window.\<close>

definition paint_drop :: "view_env \<Rightarrow> nat \<times> nat \<Rightarrow> point \<Rightarrow> arrow \<Rightarrow> py_error + arrow" where
  "paint_drop env traffic p1 a =
     (case traffic of (bytes, num) \<Rightarrow>
        res_bind (log_width env bytes num) (\<lambda>width.
          let p2 = (fst p1, e_edge_y env)
          in Inr (a\<lparr>a_width := width, a_points := (p1, p2), a_text_visible := True,
                    a_font := ''Sans Serif '' @ str_nat (label_size env),
                    a_text := fmt_f 2 (kbps env bytes num) @ '' kbit/s'',
                    a_text_pos := (of_rat ((fst p1 + fst p2) / 2), of_rat ((snd p1 + snd p2) / 2))\<rparr>)))"

text \<open>
  Both views use up the arrows they have from the end of the list, then make new ones. The arrow at
  work when an error strikes is in no list any more, like those painted before it.
\<close>

record drawing =
  d_scene :: scene
  d_old :: "arrow list"
  d_new :: "arrow list"
  d_lost :: "arrow list"
  d_next :: nat

definition take_arrow :: "drawing \<Rightarrow> arrow \<times> drawing" where
  "take_arrow d =
     (if d_old d = [] then (new_arrow (d_next d), d\<lparr>d_next := Suc (d_next d)\<rparr>)
      else (last (d_old d), d\<lparr>d_old := butlast (d_old d)\<rparr>))"

fun draw_all :: "('k \<Rightarrow> scene \<Rightarrow> scene) \<Rightarrow> (scene \<Rightarrow> 'k \<Rightarrow> 'v \<Rightarrow> arrow \<Rightarrow> py_error + arrow) \<Rightarrow> ('k \<times> 'v) list
    \<Rightarrow> drawing \<Rightarrow> drawing \<times> py_error option" where
  "draw_all nodes paint [] d = (d, None)"
| "draw_all nodes paint ((k, v) # items) d =
     (let d = d\<lparr>d_scene := nodes k (d_scene d)\<rparr>;
          (a, d) = take_arrow d
      in case paint (d_scene d) k v (a\<lparr>a_visible := True\<rparr>) of
           Inl e \<Rightarrow> (d\<lparr>d_lost := d_lost d @ [a\<lparr>a_visible := True\<rparr>]\<rparr>, Some e)
         | Inr a \<Rightarrow> draw_all nodes paint items (d\<lparr>d_new := d_new d @ [a]\<rparr>))"

text \<open>The state: the scene, the arrows of a view, those it lost, and the number of the next item.\<close>

record arrows =
  ar_scene :: scene
  ar_list :: "arrow list"
  ar_lost :: "arrow list"
  ar_next :: nat

definition update_arrows ::
  "('k \<Rightarrow> scene \<Rightarrow> scene) \<Rightarrow> (scene \<Rightarrow> 'k \<Rightarrow> 'v \<Rightarrow> arrow \<Rightarrow> py_error + arrow) \<Rightarrow> ('k \<times> 'v) list \<Rightarrow> arrows
    \<Rightarrow> arrows \<times> py_error option" where
  "update_arrows nodes paint items st =
     (case draw_all nodes paint items
             \<lparr>d_scene = ar_scene st, d_old = map hide (ar_list st), d_new = [], d_lost = ar_lost st, d_next = ar_next st\<rparr> of
        (d, None) \<Rightarrow> (\<lparr>ar_scene = d_scene d, ar_list = d_new d @ d_old d, ar_lost = d_lost d, ar_next = d_next d\<rparr>, None)
      | (d, Some e) \<Rightarrow>
          (\<lparr>ar_scene = d_scene d, ar_list = d_old d, ar_lost = d_lost d @ d_new d, ar_next = d_next d\<rparr>, Some e))"

definition update_transmissions_view ::
  "view_env \<Rightarrow> ((nat \<times> nat) \<times> nat) list list \<Rightarrow> arrows \<Rightarrow> arrows \<times> py_error option" where
  "update_transmissions_view env last_transmissions =
     update_arrows (\<lambda>(transmitter, receiver) s. get_node receiver (get_node transmitter s))
       (\<lambda>s (transmitter, receiver) traffic. paint_transmission env traffic (nv_pos (node_of s transmitter)) (nv_pos (node_of s receiver)))
       (tally last_transmissions)"

definition update_drops_view :: "view_env \<Rightarrow> (nat \<times> nat) list list \<Rightarrow> arrows \<Rightarrow> arrows \<times> py_error option" where
  "update_drops_view env last_drops =
     update_arrows get_node (\<lambda>s transmitter traffic. paint_drop env traffic (nv_pos (node_of s transmitter))) (tally last_drops)"

section \<open>Statistics of the interfaces\<close>

record if_stats =
  tx_packets :: nat
  tx_bytes :: nat
  rx_packets :: nat
  rx_bytes :: nat

record net_dev_stats =
  n_raw :: if_stats
  tx_packet_rate :: rat
  rx_packet_rate :: rat
  tx_bit_rate :: rat
  rx_bit_rate :: rat

definition node_statistics_memory :: nat where
  "node_statistics_memory = 10"

text \<open>\<^verbatim>\<open>simulation_periodic_update\<close>: the collector keeps the last samples of every node.\<close>

definition collect_stats :: "(nat \<times> if_stats list) list \<Rightarrow> (nat, if_stats list list) dict \<Rightarrow> (nat, if_stats list list) dict" where
  "collect_stats nodes_statistics d =
     fold (\<lambda>(node, stats) d.
             dset node (remember node_statistics_memory stats (case dget d node of None \<Rightarrow> [] | Some l \<Rightarrow> l)) d)
       nodes_statistics d"

definition rate :: "nat \<Rightarrow> nat \<Rightarrow> rat \<Rightarrow> rat" where
  "rate new old k = (of_nat new - of_nat old) / k"

definition iface_rates :: "rat \<Rightarrow> if_stats list \<Rightarrow> nat \<times> if_stats \<Rightarrow> py_error + net_dev_stats" where
  "iface_rates k first item =
     (case item of (iface, stats) \<Rightarrow>
        if length first \<le> iface then Inl IndexError
        else if k = 0 then Inl ZeroDivisionError
        else let old = first ! iface
             in Inr \<lparr>n_raw = stats,
                     tx_packet_rate = rate (tx_packets stats) (tx_packets old) k,
                     rx_packet_rate = rate (rx_packets stats) (rx_packets old) k,
                     tx_bit_rate = rate (tx_bytes stats) (tx_bytes old) k * 8,
                     rx_bit_rate = rate (rx_bytes stats) (rx_bytes old) k * 8\<rparr>)"

definition get_interface_statistics ::
  "rat \<Rightarrow> (nat, if_stats list list) dict \<Rightarrow> nat \<Rightarrow> py_error + net_dev_stats list" where
  "get_interface_statistics period d node =
     (case dget d node of
        None \<Rightarrow> Inr []
      | Some raw \<Rightarrow>
          if length raw < node_statistics_memory then Inr []
          else if length raw \<noteq> node_statistics_memory then Inl AssertionError
          else res_map (iface_rates (period * (of_nat node_statistics_memory - 1)) (hd raw)) (enumerate 0 (last raw)))"

section \<open>The arrows after an update\<close>

lemma atan2_upright: "upright (atan2 y x) \<longleftrightarrow> 0 \<le> x"
proof (cases x "0 :: real" rule: linorder_cases)
  case less
  then have "y / x \<le> 0 \<longleftrightarrow> 0 \<le> y" by (auto simp: divide_le_0_iff)
  with less arctan_lbound [of "y / x"] arctan_ubound [of "y / x"] show ?thesis
    by (cases "0 \<le> y") (auto simp: atan2_def upright_def not_le)
next
  case greater
  with arctan_lbound [of "y / x"] arctan_ubound [of "y / x"] show ?thesis
    by (simp add: atan2_def upright_def less_imp_le)
qed (simp add: atan2_def upright_def)

lemma draw_all_ok:
  assumes "\<And>k v s a. (k, v) \<in> set items \<Longrightarrow> a_visible a \<Longrightarrow>
      \<exists>a'. paint (nodes k s) k v a = Inr a' \<and> a_item a' = a_item a \<and> Q (nodes k s) k v a'"
    and "\<And>j s k v a. Q s k v a \<Longrightarrow> Q (nodes j s) k v a"
  shows "\<exists>d' new. draw_all nodes paint items d = (d', None) \<and> d_lost d' = d_lost d
    \<and> d_old d' = take (length (d_old d) - length items) (d_old d)
    \<and> d_new d' = d_new d @ new \<and> list_all2 (\<lambda>(k, v) a. Q (d_scene d') k v a) items new
    \<and> d_scene d' = fold nodes (map fst items) (d_scene d)
    \<and> mset (map a_item (d_new d' @ d_old d')) = mset (map a_item (d_new d @ d_old d)) + mset [d_next d..<d_next d']
    \<and> d_next d \<le> d_next d'"
  using assms(1)
proof (induction items arbitrary: d)
  case (Cons item items)
  obtain k v where item: "item = (k, v)" by force
  obtain a0 d0 where take0: "take_arrow (d\<lparr>d_scene := nodes k (d_scene d)\<rparr>) = (a0, d0)" by force
  obtain a where a: "paint (nodes k (d_scene d)) k v (a0\<lparr>a_visible := True\<rparr>) = Inr a"
    "a_item a = a_item a0" "Q (nodes k (d_scene d)) k v a"
    using Cons.prems [of k v "a0\<lparr>a_visible := True\<rparr>" "d_scene d"] by (auto simp: item)
  let ?d = "d0\<lparr>d_new := d_new d0 @ [a]\<rparr>"
  have d0: "d_scene d0 = nodes k (d_scene d)" "d_new d0 = d_new d" "d_lost d0 = d_lost d" "d_next d \<le> d_next d0"
    "d_old d0 = butlast (d_old d)"
    "mset (a_item a0 # map a_item (d_old d0)) = mset (map a_item (d_old d)) + mset [d_next d..<d_next d0]"
    using take0 by (cases "d_old d" rule: rev_cases; auto simp: take_arrow_def new_arrow_def)+
  have "\<And>k v s a. (k, v) \<in> set items \<Longrightarrow> a_visible a \<Longrightarrow>
      \<exists>a'. paint (nodes k s) k v a = Inr a' \<and> a_item a' = a_item a \<and> Q (nodes k s) k v a'"
    using Cons.prems by simp
  from Cons.IH [OF this, of ?d] obtain d' new where
    IH: "draw_all nodes paint items ?d = (d', None)" "d_lost d' = d_lost d"
      "d_old d' = take (length (d_old d0) - length items) (d_old d0)" "d_new d' = d_new d @ a # new"
      "list_all2 (\<lambda>(k, v) a. Q (d_scene d') k v a) items new" "d_scene d' = fold nodes (map fst items) (nodes k (d_scene d))"
      "mset (map a_item (d_new d' @ d_old d')) = mset (map a_item (d_new d @ [a] @ d_old d0)) + mset [d_next d0..<d_next d']"
      "d_next d0 \<le> d_next d'"
    by (auto simp: d0)
  have "Q (fold nodes ks s) k v a" if "Q s k v a" for ks s
    using that by (induction ks arbitrary: s) (simp_all add: assms(2))
  then have "Q (d_scene d') k v a" using a(3) by (simp add: IH(6))
  moreover have "draw_all nodes paint (item # items) d = (d', None)"
    using a(1) d0 IH(1) by (simp add: item take0 split: prod.split)
  moreover have "d_old d' = take (length (d_old d) - length (item # items)) (d_old d)"
    using IH(3) by (simp add: d0 take_butlast butlast_conv_take)
  moreover have "mset (map a_item (d_new d' @ d_old d'))
      = mset (map a_item (d_new d @ d_old d)) + mset [d_next d..<d_next d']"
    using IH(7,8) d0(4,6) a(2) upt_add_eq_append [of "d_next d" "d_next d0" "d_next d' - d_next d0"]
    by (simp add: ac_simps)
  ultimately show ?case using IH d0 by (intro exI [of _ d'] exI [of _ "a # new"]) (simp add: item)
qed simp

lemma update_arrows_ok:
  assumes "\<And>k v s a. (k, v) \<in> set items \<Longrightarrow> a_visible a \<Longrightarrow>
      \<exists>a'. paint (nodes k s) k v a = Inr a' \<and> a_item a' = a_item a \<and> Q (nodes k s) k v a'"
    and "\<And>j s k v a. Q s k v a \<Longrightarrow> Q (nodes j s) k v a"
  shows "\<exists>st' new. update_arrows nodes paint items st = (st', None) \<and> ar_lost st' = ar_lost st
    \<and> ar_list st' = new @ map hide (take (length (ar_list st) - length items) (ar_list st))
    \<and> list_all2 (\<lambda>(k, v) a. Q (ar_scene st') k v a) items new
    \<and> mset (map a_item (ar_list st')) = mset (map a_item (ar_list st)) + mset [ar_next st..<ar_next st']
    \<and> ar_next st \<le> ar_next st'"
proof -
  have hidden: "map a_item (map hide xs) = map a_item xs" for xs by (simp add: hide_def comp_def)
  let ?d = "\<lparr>d_scene = ar_scene st, d_old = map hide (ar_list st), d_new = [], d_lost = ar_lost st, d_next = ar_next st\<rparr>"
  from draw_all_ok [of items paint nodes Q ?d, OF assms] obtain d' new where
    d': "draw_all nodes paint items ?d = (d', None)" "d_lost d' = ar_lost st" "d_new d' = new"
      "d_old d' = take (length (ar_list st) - length items) (map hide (ar_list st))"
      "list_all2 (\<lambda>(k, v) a. Q (d_scene d') k v a) items new" "ar_next st \<le> d_next d'"
      "mset (map a_item (d_new d' @ d_old d')) = mset (map a_item (ar_list st)) + mset [ar_next st..<d_next d']"
    by (auto simp: hidden simp del: map_map)
  then show ?thesis
    by (intro exI [of _ "\<lparr>ar_scene = d_scene d', ar_list = d_new d' @ d_old d', ar_lost = d_lost d', ar_next = d_next d'\<rparr>"]
        exI [of _ new]) (simp add: update_arrows_def take_map)
qed

lemma node_present_get_node [simp]: "dget (s_nodes (get_node j s)) k \<noteq> None \<longleftrightarrow> k = j \<or> dget (s_nodes s) k \<noteq> None"
  by (auto simp: get_node_def put_node_def split: option.split)

lemma get_node_keeps_pos:
  "dget (s_nodes s) k \<noteq> None \<Longrightarrow> nv_pos (node_of (get_node j s) k) = nv_pos (node_of s k)"
  by (auto simp: get_node_def put_node_def node_of_def split: option.split)

definition positive_samples :: "('k \<times> nat) list list \<Rightarrow> bool" where
  "positive_samples sets \<longleftrightarrow> (\<forall>set' \<in> set sets. \<forall>x \<in> set set'. snd x > 0)"

lemma tally_positive:
  assumes "positive_samples sets" and "(k, (bytes, num)) \<in> set (tally sets)"
  shows "bytes > 0 \<and> num > 0 \<and> bytes = sum_list (bytes_of k (concat sets)) \<and> num = length (bytes_of k (concat sets))"
proof -
  have get: "dget (tally sets) k = Some (bytes, num)" using assms(2) tally_distinct [of sets] by simp
  then have ne: "bytes_of k (concat sets) \<noteq> []" and
    eq: "bytes = sum_list (bytes_of k (concat sets))" "num = length (bytes_of k (concat sets))"
    by (auto simp: tally_get split: if_split_asm)
  have "\<forall>b \<in> set (bytes_of k (concat sets)). b > 0"
    using assms(1) by (fastforce simp: positive_samples_def bytes_of_def)
  with ne have "sum_list (bytes_of k (concat sets)) > 0" by (cases "bytes_of k (concat sets)") auto
  with ne eq show ?thesis by simp
qed

lemma log_width_ok: "bytes > 0 \<Longrightarrow> num > 0 \<Longrightarrow> e_period env > 0 \<Longrightarrow> \<exists>w. log_width env bytes num = Inr w"
  by (simp add: log_width_def Let_def not_le)

definition shows_transmission :: "scene \<Rightarrow> nat \<times> nat \<Rightarrow> nat \<times> nat \<Rightarrow> arrow \<Rightarrow> bool" where
  "shows_transmission s pair traffic a \<longleftrightarrow>
     (let from = nv_pos (node_of s (fst pair)); to = nv_pos (node_of s (snd pair))
      in dget (s_nodes s) (fst pair) \<noteq> None \<and> dget (s_nodes s) (snd pair) \<noteq> None
         \<and> a_visible a \<and> a_text_visible a \<and> a_points a = (from, to)
         \<and> (a_anchor a = AnchorS \<longleftrightarrow> fst from \<le> fst to))"

lemma paint_transmission_ok:
  assumes "bytes > 0" and "num > 0" and "e_period env > 0" and "a_visible a"
  shows "\<exists>a'. paint_transmission env (bytes, num) p1 p2 a = Inr a' \<and> a_item a' = a_item a \<and> a_visible a'
    \<and> a_text_visible a' \<and> a_points a' = (p1, p2) \<and> (a_anchor a' = AnchorS \<longleftrightarrow> fst p1 \<le> fst p2)"
proof -
  obtain w where "log_width env bytes num = Inr w" using log_width_ok [OF assms(1-3)] by blast
  moreover have "0 \<le> (of_rat (fst p2 - fst p1) :: real) \<longleftrightarrow> fst p1 \<le> fst p2" by simp
  ultimately show ?thesis
    using assms(4) by (simp add: paint_transmission_def Let_def atan2_upright)
qed

lemma transmissions_view_ok:
  assumes "positive_samples w" and "e_period env > 0"
  shows "\<exists>st' new. update_transmissions_view env w st = (st', None)
    \<and> ar_list st' = new @ map hide (take (length (ar_list st) - length new) (ar_list st))
    \<and> list_all2 (\<lambda>(pair, traffic) a. shows_transmission (ar_scene st') pair traffic a
        \<and> traffic = (sum_list (bytes_of pair (concat w)), length (bytes_of pair (concat w)))) (tally w) new
    \<and> mset (map a_item (ar_list st')) = mset (map a_item (ar_list st)) + mset [ar_next st..<ar_next st']
    \<and> ar_lost st' = ar_lost st"
proof -
  let ?nodes = "\<lambda>(t, r) s. get_node r (get_node t s)"
  let ?paint = "\<lambda>s (t, r) traffic. paint_transmission env traffic (nv_pos (node_of s t)) (nv_pos (node_of s r))"
  have paints: "\<exists>a'. ?paint (?nodes k s) k v a = Inr a' \<and> a_item a' = a_item a \<and> shows_transmission (?nodes k s) k v a'"
    if kv: "(k, v) \<in> set (tally w)" and vis: "a_visible a" for k v s a
  proof -
    obtain t r where k: "k = (t, r)" by force
    obtain bytes num where v: "v = (bytes, num)" by force
    have "bytes > 0" "num > 0" using tally_positive [OF assms(1)] kv by (auto simp: v)
    from paint_transmission_ok [OF this assms(2) vis, of "nv_pos (node_of (get_node r (get_node t s)) t)"
        "nv_pos (node_of (get_node r (get_node t s)) r)"]
    show ?thesis by (simp add: k v shows_transmission_def Let_def del: not_None_eq)
  qed
  have stable: "shows_transmission (?nodes j s) k v a" if "shows_transmission s k v a" for j s k v a
    using that by (cases j) (simp add: shows_transmission_def Let_def get_node_keeps_pos del: not_None_eq)
  from update_arrows_ok [of "tally w" ?paint ?nodes shows_transmission st, OF paints stable] obtain st' new where
    new: "update_transmissions_view env w st = (st', None)" "ar_lost st' = ar_lost st"
      "ar_list st' = new @ map hide (take (length (ar_list st) - length (tally w)) (ar_list st))"
      "list_all2 (\<lambda>(k, v) a. shows_transmission (ar_scene st') k v a) (tally w) new"
      "mset (map a_item (ar_list st')) = mset (map a_item (ar_list st)) + mset [ar_next st..<ar_next st']"
    unfolding update_transmissions_view_def by blast
  have "list_all2 (\<lambda>(pair, traffic) a. shows_transmission (ar_scene st') pair traffic a
      \<and> traffic = (sum_list (bytes_of pair (concat w)), length (bytes_of pair (concat w)))) (tally w) new"
    using tally_positive [OF assms(1)] by (intro list.rel_mono_strong [OF new(4)]) auto
  then show ?thesis
    using new(1,2,5) new(3) [unfolded list_all2_lengthD [OF new(4)]] by (intro exI conjI)
qed


definition sample_env :: view_env where
  "sample_env = \<lparr>e_node_size = 1, e_period = 1 / 10, e_clip = (\<lambda>p q. (p, q)), e_edge_y = 0, e_no_transform = False\<rparr>"


text \<open>A pair that has only empty packets ends the update with an error, and its visible arrow belongs to no list any more.\<close>

lemma zero_bytes_lose_arrow:
  assumes "ar_list st = xs @ [a]" and "e_period env \<noteq> 0"
  shows "\<exists>st'. update_transmissions_view env [[((t, r), 0)]] st = (st', Some ValueError)
    \<and> ar_list st' = map hide xs \<and> (\<exists>b. ar_lost st' = ar_lost st @ [b] \<and> a_visible b \<and> a_item b = a_item a)"
proof -
  have "tally [[((t, r), 0 :: nat)]] = [((t, r), (0, 1))]" by (simp add: tally_def tally_sample_def)
  then show ?thesis using assms
    by (simp add: update_transmissions_view_def update_arrows_def take_arrow_def paint_transmission_def log_width_def
        Let_def) (simp add: hide_def)
qed

section \<open>The rates of an interface\<close>

definition samples_of :: "nat \<Rightarrow> (nat \<times> if_stats list) list list \<Rightarrow> if_stats list list" where
  "samples_of node rounds = map snd (filter (\<lambda>x. fst x = node) (concat rounds))"

lemma collected:
  "dget (fold collect_stats rounds []) node =
     (let raw = samples_of node rounds in if raw = [] then None else Some (drop (length raw - node_statistics_memory) raw))"
proof -
  let ?add = "\<lambda>(node, stats) d. dset node (remember node_statistics_memory stats (case dget d node of None \<Rightarrow> [] | Some l \<Rightarrow> l)) d"
  have flat: "fold collect_stats rs d = fold ?add (concat rs) d" for rs d
    by (induction rs arbitrary: d) (simp_all add: collect_stats_def)
  have "dget (fold ?add xs []) node =
      (let raw = map snd (filter (\<lambda>x. fst x = node) xs)
       in if raw = [] then None else Some (fold (remember node_statistics_memory) raw []))" for xs :: "(nat \<times> if_stats list) list"
  proof (induction xs rule: rev_induct)
    case (snoc x xs)
    obtain n st where x: "x = (n, st)" by force
    show ?case by (cases "n = node") (auto simp: x snoc Let_def simp del: not_None_eq)
  qed simp
  then show ?thesis by (simp add: flat samples_of_def remember_window Let_def)
qed

text \<open>
  Claim C34: once a node has ten samples, the rates of an interface times the time of nine periods are
  the differences between its last sample and its tenth last, in packets and in bits; before, there is no figure;
  and a node that got an interface in between makes the table fail until the samples without it are gone.
\<close>
theorem interface_statistics_correct:
  assumes "period > 0" and "raw = samples_of node rounds"
  shows "(length raw < 10 \<longrightarrow> get_interface_statistics period (fold collect_stats rounds []) node = Inr [])
    \<and> (length raw \<ge> 10 \<longrightarrow> (let first = raw ! (length raw - 10); l = last raw in
        if length first < length l
        then get_interface_statistics period (fold collect_stats rounds []) node = Inl IndexError
        else \<exists>out. get_interface_statistics period (fold collect_stats rounds []) node = Inr out \<and> length out = length l
          \<and> (\<forall>i < length l. n_raw (out ! i) = l ! i
              \<and> tx_packet_rate (out ! i) * (9 * period) = of_nat (tx_packets (l ! i)) - of_nat (tx_packets (first ! i))
              \<and> rx_packet_rate (out ! i) * (9 * period) = of_nat (rx_packets (l ! i)) - of_nat (rx_packets (first ! i))
              \<and> tx_bit_rate (out ! i) * (9 * period) = 8 * (of_nat (tx_bytes (l ! i)) - of_nat (tx_bytes (first ! i)))
              \<and> rx_bit_rate (out ! i) * (9 * period) = 8 * (of_nat (rx_bytes (l ! i)) - of_nat (rx_bytes (first ! i))))))"
proof (intro conjI impI)
  let ?get = "get_interface_statistics period (fold collect_stats rounds []) node"
  let ?d = "drop (length raw - 10) raw"
  note state = collected [of rounds node, folded assms(2), unfolded Let_def node_statistics_memory_def]
  show "?get = Inr []" if "length raw < 10"
    using that by (auto simp: get_interface_statistics_def state node_statistics_memory_def)
  assume ten: "length raw \<ge> 10"
  then have d: "length ?d = 10" "hd ?d = raw ! (length raw - 10)" "last ?d = last raw"
    by (simp_all add: hd_drop_conv_nth)
  let ?first = "raw ! (length raw - 10)" and ?l = "last raw"
  have get: "?get = res_map (iface_rates (period * 9) ?first) (enumerate 0 ?l)"
    using ten d by (auto simp: get_interface_statistics_def state node_statistics_memory_def)
  have k: "period * 9 \<noteq> 0" using assms(1) by simp
  show "let first = ?first; l = ?l in if length first < length l then ?get = Inl IndexError
        else \<exists>out. ?get = Inr out \<and> length out = length l
          \<and> (\<forall>i < length l. n_raw (out ! i) = l ! i
              \<and> tx_packet_rate (out ! i) * (9 * period) = of_nat (tx_packets (l ! i)) - of_nat (tx_packets (first ! i))
              \<and> rx_packet_rate (out ! i) * (9 * period) = of_nat (rx_packets (l ! i)) - of_nat (rx_packets (first ! i))
              \<and> tx_bit_rate (out ! i) * (9 * period) = 8 * (of_nat (tx_bytes (l ! i)) - of_nat (tx_bytes (first ! i)))
              \<and> rx_bit_rate (out ! i) * (9 * period) = 8 * (of_nat (rx_bytes (l ! i)) - of_nat (rx_bytes (first ! i))))"
  proof (cases "length ?first < length ?l")
    case True
    let ?n = "length ?first"
    have split: "enumerate 0 ?l = enumerate 0 (take ?n ?l) @ enumerate ?n (drop ?n ?l)"
      using True enumerate_append_eq [of 0 "take ?n ?l" "drop ?n ?l"] by simp
    have "is_ok (res_map (iface_rates (period * 9) ?first) (enumerate 0 (take ?n ?l)))"
      using k by (auto simp: is_ok_res_map iface_rates_def in_set_enumerate_eq Let_def)
    moreover obtain x xs where "drop ?n ?l = x # xs" using True by (cases "drop ?n ?l") auto
    ultimately have "?get = Inl IndexError"
      by (auto simp: get split res_map_append is_ok_iff iface_rates_def)
    with True show ?thesis by simp
  next
    case False
    let ?out = "map (projr \<circ> iface_rates (period * 9) ?first) (enumerate 0 ?l)"
    have "?get = Inr ?out" unfolding get
      using False k by (intro res_map_Inr_map) (auto simp: iface_rates_def in_set_enumerate_eq Let_def)
    moreover have "(a / (period * 9)) * (9 * period) = a" "(a / (period * 9) * 8) * (9 * period) = 8 * a" for a
      using assms(1) by simp_all
    ultimately show ?thesis
      using False k by (auto simp: nth_enumerate_eq iface_rates_def rate_def Let_def)
  qed
qed

definition ten_rounds :: "(nat \<times> if_stats list) list list" where
  "ten_rounds = map (\<lambda>n. [(3, [\<lparr>tx_packets = n, tx_bytes = 100 * n, rx_packets = 0, rx_bytes = 0\<rparr>])]) [0..<10]"

lemma interface_statistics_correct_witness:
  "\<exists>out. get_interface_statistics 1 (fold collect_stats ten_rounds []) 3 = Inr [out] \<and> tx_bit_rate out * (9 * 1) = 7200"
proof -
  have raw: "samples_of 3 ten_rounds = map (\<lambda>n. [\<lparr>tx_packets = n, tx_bytes = 100 * n, rx_packets = 0, rx_bytes = 0\<rparr>]) [0..<10]"
    by (simp add: samples_of_def ten_rounds_def upt_rec)
  have pos: "(1 :: rat) > 0" by simp
  have ends: "length (samples_of 3 ten_rounds) = 10"
    "last (samples_of 3 ten_rounds) = [\<lparr>tx_packets = 9, tx_bytes = 900, rx_packets = 0, rx_bytes = 0\<rparr>]"
    "samples_of 3 ten_rounds ! 0 = [\<lparr>tx_packets = 0, tx_bytes = 0, rx_packets = 0, rx_bytes = 0\<rparr>]"
    unfolding raw by (simp_all add: upt_rec)
  from interface_statistics_correct [OF pos refl, where node = 3 and rounds = ten_rounds] obtain out where
    "get_interface_statistics 1 (fold collect_stats ten_rounds []) 3 = Inr out" "length out = 1"
    "tx_bit_rate (out ! 0) * (9 * 1) = 7200" by (auto simp: ends)
  then show ?thesis by (intro exI [of _ "out ! 0"]) (cases out, simp_all)
qed

end
