(* ===== verification/Viz_Hud.thy ===== *)
theory Viz_Hud
  imports Viz_Scene "HOL-Library.Multiset"
begin

text \<open>
  The axes drawn over the canvas, \<^verbatim>\<open>visualizer/visualizer/hud.py\<close>: the distance of the marks, the
  loop that sets them, and the recycled labels. Coordinates are real numbers here, since the code takes
  logarithms of them; a label keeps the number that its text shows. An axis is its line width and the
  segments of its path.
\<close>

section \<open>The distance of the marks\<close>

definition rint :: "real \<Rightarrow> int" where
  "rint x = \<lfloor>x + 1 / 2\<rfloor>"

text \<open>A power of 10 near the wanted distance, halved or doubled when that is nearer.\<close>

definition nearest_division :: "real \<Rightarrow> real" where
  "nearest_division d =
     (let tbe = log 10 d; dv = 10 powr of_int (rint tbe)
      in if \<bar>dv / 2 - d\<bar> < \<bar>dv - d\<bar> then dv / 2
         else if \<bar>dv * 2 - d\<bar> < \<bar>dv - d\<bar> then dv * 2
         else dv)"

text \<open>
  The loop of \<^verbatim>\<open>_compute_divisions\<close>. The number of divisions changes in it, but the wanted distance, which is
  computed before, does not.
\<close>

definition division_round :: "real \<Rightarrow> real \<Rightarrow> real \<Rightarrow> real \<Rightarrow> nat \<Rightarrow> real \<times> real \<times> real \<Rightarrow> real \<times> real \<times> real" where
  "division_round xi sz text_width d n st =
     (case st of (ndiv, _, _) \<Rightarrow>
        let dv = nearest_division d;
            x0 = dv * of_int \<lceil>xi / dv\<rceil> - dv
        in (if n > 1 then of_int (rint (sz / text_width)) else ndiv, x0, dv))"

definition compute_divisions :: "real \<Rightarrow> real \<Rightarrow> py_error + real \<times> real" where
  "compute_divisions xi xf =
     (if xf > xi
      then (let dx = xf - xi; ndiv = 5; text_width = dx / ndiv / 2; d = dx / ndiv
            in case fold (division_round xi dx text_width d) [0..<5] (ndiv, 0, 0) of (_, x0, dv) \<Rightarrow> Inr (x0, dv))
      else Inl AssertionError)"

text \<open>The loop over the marks, which need not end for a distance that is not positive.\<close>

partial_function (option) marks_loop :: "real \<Rightarrow> real \<Rightarrow> real \<Rightarrow> real list \<Rightarrow> real list option" where
  "marks_loop stop step x acc = (if x < stop then marks_loop stop step (x + step) (acc @ [x]) else Some acc)"

section \<open>The axes\<close>

record axis_label =
  al_item :: nat
  al_visible :: bool
  al_font :: int
  al_value :: real
  al_pos :: "real \<times> real"

type_synonym segment = "(real \<times> real) \<times> (real \<times> real)"

record axes =
  ax_visible :: bool
  ax_hlines :: "real \<times> segment list"
  ax_vlines :: "real \<times> segment list"
  ax_lines_visible :: bool
  ax_labels :: "axis_label list"
  ax_next :: nat

definition set_visible :: "bool \<Rightarrow> axes \<Rightarrow> axes" where
  "set_visible v a =
     (let a = a\<lparr>ax_visible := v, ax_lines_visible := v\<rparr>
      in if v then a else a\<lparr>ax_labels := map (\<lambda>l. l\<lparr>al_visible := False\<rparr>) (ax_labels a)\<rparr>)"

text \<open>\<^verbatim>\<open>get_label\<close>: the first unused label, made visible, or a new one; it goes to the end of the list in use.\<close>

definition get_label :: "axis_label list \<times> nat \<Rightarrow> axis_label \<times> axis_label list \<times> nat" where
  "get_label st =
     (case st of
        ([], next_item) \<Rightarrow>
          (\<lparr>al_item = next_item, al_visible = True, al_font = 0, al_value = 0, al_pos = (0, 0)\<rparr>, [], Suc next_item)
      | (l # unused, next_item) \<Rightarrow> (l\<lparr>al_visible := True\<rparr>, unused, next_item))"

text \<open>One axis: for each mark a line and a label.\<close>

fun draw_marks :: "int \<Rightarrow> (real \<Rightarrow> segment) \<Rightarrow> (real \<Rightarrow> real \<times> real) \<Rightarrow> real list
    \<Rightarrow> axis_label list \<times> axis_label list \<times> nat \<Rightarrow> segment list \<times> axis_label list \<times> axis_label list \<times> nat" where
  "draw_marks font mark pos [] (used, unused, next_item) = ([], used, unused, next_item)"
| "draw_marks font mark pos (x # xs) (used, unused, next_item) =
     (case get_label (unused, next_item) of (l, unused, next_item) \<Rightarrow>
        case draw_marks font mark pos xs (used @ [l\<lparr>al_font := font, al_value := x, al_pos := pos x\<rparr>], unused, next_item) of
          (segments, rest) \<Rightarrow> (mark x # segments, rest))"

text \<open>
  \<^verbatim>\<open>update_view\<close>; the corners of the visible part are arguments. A failed assertion leaves the axes with the
  labels set so far.
\<close>

definition update_view :: "real option \<Rightarrow> real \<times> real \<Rightarrow> real \<times> real \<Rightarrow> axes \<Rightarrow> (axes \<times> py_error option) option" where
  "update_view zoom p1 p2 a =
     (case zoom of
        None \<Rightarrow> Some (a, None)
      | Some z \<Rightarrow>
          (case (p1, p2) of ((x1, y1), (x2, y2)) \<Rightarrow>
             let unused = map (\<lambda>l. l\<lparr>al_visible := False\<rparr>) (ax_labels a);
                 offset = 10 / z; width = 5 / z; font = \<lfloor>12 / z\<rfloor>; ppm = of_rat pixels_per_meter;
                 yc = y2 - width / 2; xc = x1 + width / 2
             in case compute_divisions (x1 / ppm) (x2 / ppm) of
                  Inl e \<Rightarrow> Some (a\<lparr>ax_hlines := (width, snd (ax_hlines a)), ax_labels := []\<rparr>, Some e)
                | Inr (x0, xdiv) \<Rightarrow>
                    Option.bind (marks_loop (x2 / ppm) xdiv x0 []) (\<lambda>xs.
                      case draw_marks font (\<lambda>x. ((ppm * x, yc - offset), (ppm * x, yc))) (\<lambda>x. (ppm * x, yc - offset)) xs
                             ([], unused, ax_next a) of
                        (hsegs, used, unused, next_item) \<Rightarrow>
                          (let a = a\<lparr>ax_hlines := (width, ((x1, yc), (x2, yc)) # hsegs), ax_next := next_item\<rparr>
                           in case compute_divisions (y1 / ppm) (y2 / ppm) of
                                Inl e \<Rightarrow> Some (a\<lparr>ax_vlines := (width, snd (ax_vlines a)), ax_labels := used\<rparr>, Some e)
                              | Inr (y0, ydiv) \<Rightarrow>
                                  Option.bind (marks_loop (y2 / ppm) ydiv y0 []) (\<lambda>ys.
                                    case draw_marks font (\<lambda>y. ((xc, ppm * y), (xc + offset, ppm * y))) (\<lambda>y. (xc + offset, ppm * y)) ys
                                           (used, unused, next_item) of
                                      (vsegs, used, unused, next_item) \<Rightarrow>
                                        Some (a\<lparr>ax_vlines := (width, ((xc, y1), (xc, y2)) # vsegs),
                                                ax_labels := used @ unused, ax_next := next_item\<rparr>, None))))))"

section \<open>Between four and nine marks\<close>

lemma nearest_division_bounds:
  assumes "d > 0"
  shows "0 < nearest_division d" and "2 / sqrt 10 * d < nearest_division d" and "nearest_division d \<le> sqrt 10 / 2 * d"
proof -
  define n where "n = rint (log 10 d)"
  define v where "v = (10 :: real) powr of_int n"
  have n: "log 10 d - 1 / 2 < of_int n" "of_int n \<le> log 10 d + 1 / 2"
    by (simp_all add: n_def rint_def) linarith+
  have half: "(10 :: real) powr (1 / 2) = sqrt 10" by (simp add: powr_half_sqrt)
  have "10 powr (log 10 d - 1 / 2) < v" "v \<le> 10 powr (log 10 d + 1 / 2)"
    using n by (simp_all add: v_def)
  then have v: "d / sqrt 10 < v" "v \<le> d * sqrt 10"
    using assms by (simp_all add: powr_diff powr_add half)
  have pos: "v > 0" by (simp add: v_def)
  have "3 < sqrt (10 :: real)" by (rule real_less_rsqrt) simp
  moreover have "sqrt (10 :: real) < 16 / 5" by (rule real_less_lsqrt) (simp_all add: power2_eq_square)
  moreover have "sqrt 10 * sqrt 10 = (10 :: real)" by simp
  ultimately have s: "3 < sqrt (10 :: real)" "sqrt (10 :: real) < 16 / 5" "sqrt 10 * sqrt 10 = (10 :: real)" .
  have d: "nearest_division d = (if 4 * d < 3 * v then v / 2 else if 3 * v < 2 * d then v * 2 else v)"
    using pos by (auto simp: nearest_division_def v_def [symmetric] n_def [symmetric] Let_def abs_if)
  show "0 < nearest_division d" using pos by (simp add: d)
  have two: "2 / sqrt 10 * d = 2 * (d / sqrt 10)" "2 * (d / sqrt 10) < 2 / 3 * d"
    using s assms by (auto simp: field_simps)
  show "2 / sqrt 10 * d < nearest_division d" using v two pos by (simp add: d)
  have "4 / 3 * d < sqrt 10 / 2 * d" using s assms by simp
  then show "nearest_division d \<le> sqrt 10 / 2 * d" using v pos by (auto simp: d mult.commute)
qed

lemma compute_divisions_eq:
  assumes "xi < xf"
  shows "compute_divisions xi xf =
    (let dv = nearest_division ((xf - xi) / 5) in Inr (dv * of_int \<lceil>xi / dv\<rceil> - dv, dv))"
proof -
  have "[0..<5] = [0, 1, 2, 3, 4 :: nat]" by (simp add: upt_rec)
  then show ?thesis using assms by (simp add: compute_divisions_def division_round_def Let_def)
qed

text \<open>The first mark lies at most one distance before the visible part.\<close>

lemma compute_divisions_bounds:
  assumes "xi < xf"
  obtains x0 dv where "compute_divisions xi xf = Inr (x0, dv)" "0 < dv" "x0 < xi" "xi \<le> x0 + dv"
    "sqrt 10 \<le> (xf - xi) / dv" "(xf - xi) / dv < 5 / 2 * sqrt 10"
proof -
  define dv where "dv = nearest_division ((xf - xi) / 5)"
  define c :: real where "c = of_int \<lceil>xi / dv\<rceil>"
  have d: "0 < (xf - xi) / 5" using assms by simp
  note b = nearest_division_bounds [OF d, folded dv_def]
  have c: "xi / dv \<le> c" "c < xi / dv + 1" unfolding c_def by linarith+
  have "xi \<le> dv * c" "dv * c < xi + dv" using c b(1) by (simp_all add: field_simps)
  then have "dv * c - dv < xi" "xi \<le> dv * c - dv + dv" by simp_all
  moreover have s: "0 < sqrt (10 :: real)" "sqrt 10 * sqrt 10 = (10 :: real)" by simp_all
  have "sqrt 10 * dv \<le> sqrt 10 * (sqrt 10 / 2 * ((xf - xi) / 5))" using b(3) s by (intro mult_left_mono) simp_all
  then have "sqrt 10 * dv \<le> xf - xi" using s by (simp add: algebra_simps)
  then have "sqrt 10 \<le> (xf - xi) / dv" using b(1) by (simp add: field_simps)
  moreover have "sqrt 10 * (2 / sqrt 10 * ((xf - xi) / 5)) < sqrt 10 * dv" using b(2) s by (intro mult_strict_left_mono) simp_all
  then have "2 / 5 * (xf - xi) < sqrt 10 * dv" using s by simp
  then have "(xf - xi) / dv < 5 / 2 * sqrt 10" using b(1) by (simp add: field_simps)
  ultimately show thesis
    using b(1) compute_divisions_eq [OF assms] by (intro that [of "dv * c - dv" dv]) (simp_all add: dv_def c_def Let_def)
qed

lemma marks_loop_eq:
  assumes "step > 0"
  shows "marks_loop stop step x acc = Some (acc @ map (\<lambda>i. x + of_nat i * step) [0..<nat \<lceil>(stop - x) / step\<rceil>])"
proof (induction "nat \<lceil>(stop - x) / step\<rceil>" arbitrary: x acc)
  case 0
  then have "\<lceil>(stop - x) / step\<rceil> \<le> 0" by simp
  then have "(stop - x) / step \<le> 0" by simp
  then have "stop \<le> x" using assms by (simp add: divide_le_0_iff)
  with 0 show ?case by (subst marks_loop.simps) simp
next
  case (Suc n)
  then have "\<lceil>(stop - x) / step\<rceil> > 0" by (metis zero_less_Suc zero_less_nat_eq)
  then have "(stop - x) / step > 0" by (simp only: zero_less_ceiling)
  then have lt: "x < stop" using assms by (simp add: zero_less_divide_iff)
  have "(stop - (x + step)) / step = (stop - x) / step - 1" using assms by (simp add: field_simps)
  then have n: "nat \<lceil>(stop - (x + step)) / step\<rceil> = n" using Suc(2) by simp
  have "marks_loop stop step x acc = marks_loop stop step (x + step) (acc @ [x])"
    using lt by (subst marks_loop.simps) simp
  also have "\<dots> = Some ((acc @ [x]) @ map (\<lambda>i. x + step + of_nat i * step) [0..<n])"
    using Suc(1) [of "x + step" "acc @ [x]"] n by simp
  also have "\<dots> = Some (acc @ map (\<lambda>i. x + of_nat i * step) [0..<Suc n])"
    by (simp add: upt_conv_Cons del: upt_Suc) (simp add: map_Suc_upt [symmetric] algebra_simps comp_def del: upt_Suc)
  finally show ?case using Suc(2) by simp
qed

lemma marks_found:
  assumes "xi < xf"
  shows "\<exists>x0 dv xs. compute_divisions xi xf = Inr (x0, dv) \<and> marks_loop xf dv x0 [] = Some xs
    \<and> 4 \<le> length xs \<and> length xs \<le> 9 \<and> 0 < dv \<and> x0 < xi \<and> xi \<le> x0 + dv
    \<and> xs = map (\<lambda>i. x0 + of_nat i * dv) [0..<length xs] \<and> last xs < xf \<and> xf \<le> last xs + dv"
proof -
  obtain x0 dv where dv: "compute_divisions xi xf = Inr (x0, dv)" "0 < dv" "x0 < xi" "xi \<le> x0 + dv"
    "sqrt 10 \<le> (xf - xi) / dv" "(xf - xi) / dv < 5 / 2 * sqrt 10"
    using compute_divisions_bounds [OF assms] .
  define q where "q = (xf - x0) / dv"
  have q: "q = (xf - xi) / dv + (xi - x0) / dv" by (simp add: q_def diff_divide_distrib)
  have "0 < (xi - x0) / dv" "(xi - x0) / dv \<le> 1" using dv(2-4) by simp_all
  moreover have "3 < sqrt (10 :: real)" by (rule real_less_rsqrt) simp
  moreover have "sqrt (10 :: real) < 16 / 5" by (rule real_less_lsqrt) (simp_all add: power2_eq_square)
  ultimately have qb: "3 < q" "q \<le> 9" using dv(5,6) unfolding q by linarith+
  define n where "n = nat \<lceil>q\<rceil>"
  have n: "4 \<le> n" "n \<le> 9" "of_nat n - 1 < q" "q \<le> of_nat n"
    using qb by (auto simp: n_def) linarith+
  have marks: "marks_loop xf dv x0 [] = Some (map (\<lambda>i. x0 + of_nat i * dv) [0..<n])"
    using marks_loop_eq [OF dv(2), of xf x0 "[]"] by (simp add: q_def n_def)
  obtain m where m: "n = Suc m" using n(1) by (cases n) auto
  have "x0 + of_nat m * dv < xf" "xf \<le> x0 + of_nat m * dv + dv"
    using n(3,4) dv(2) by (simp_all add: q_def m field_simps)
  then show ?thesis using dv(1-4) marks n(1,2) by (intro exI [of _ x0] exI [of _ dv] exI) (auto simp: m)
qed

text \<open>
  Claim C33: on each axis of a visible part the loop over the marks ends, with four to nine marks at equal
  distances: the first one less than or just one distance before the visible part, the last one inside.
\<close>
theorem axis_marks:
  assumes "xi < xf"
  shows "\<exists>x0 dv xs. compute_divisions xi xf = Inr (x0, dv) \<and> marks_loop xf dv x0 [] = Some xs
    \<and> 4 \<le> length xs \<and> length xs \<le> 9 \<and> 0 < dv \<and> x0 < xi \<and> xi \<le> x0 + dv
    \<and> xs = map (\<lambda>i. x0 + of_nat i * dv) [0..<length xs] \<and> last xs < xf \<and> xf \<le> last xs + dv"
  by (rule marks_found [OF assms])

lemma axis_marks_witness:
  "\<exists>x0 dv xs. compute_divisions 0 100 = Inr (x0, dv) \<and> marks_loop 100 dv x0 [] = Some xs \<and> length xs \<le> 9"
proof -
  have "(0 :: real) < 100" by simp
  from axis_marks [OF this] show ?thesis by blast
qed

section \<open>The labels are recycled\<close>

lemma draw_marks_spec:
  "draw_marks font mark pos xs (used, unused, k) = (segs, used', unused', k') \<Longrightarrow>
     \<exists>new. used' = used @ new \<and> length new = length xs \<and> (\<forall>l \<in> set new. al_visible l) \<and> segs = map mark xs
       \<and> unused' = drop (length xs) unused \<and> k \<le> k'
       \<and> mset (map al_item (used' @ unused')) = mset (map al_item (used @ unused)) + mset [k..<k']"
proof (induction xs arbitrary: used unused k segs)
  case (Cons x xs)
  obtain l unused1 k1 where l: "get_label (unused, k) = (l, unused1, k1)" by (rule prod_cases3)
  let ?l = "l\<lparr>al_font := font, al_value := x, al_pos := pos x\<rparr>"
  obtain segs1 rest where rec: "draw_marks font mark pos xs (used @ [?l], unused1, k1) = (segs1, rest)" by (meson surj_pair)
  with Cons.prems l have segs: "segs = mark x # segs1" "rest = (used', unused', k')" by auto
  from Cons.IH [of "used @ [?l]" unused1 k1 segs1] rec segs(2) obtain new where
    new: "used' = used @ [?l] @ new" "length new = length xs" "\<forall>l \<in> set new. al_visible l" "segs1 = map mark xs"
      "unused' = drop (length xs) unused1" "k1 \<le> k'"
      "mset (map al_item (used' @ unused')) = mset (map al_item ((used @ [?l]) @ unused1)) + mset [k1..<k']" by auto
  have l': "al_visible l" "unused1 = drop 1 unused" "k \<le> k1"
    "mset (al_item l # map al_item unused1) = mset (map al_item unused) + mset [k..<k1]"
    using l by (cases unused; auto simp: get_label_def)+
  have "mset (map al_item (used' @ unused')) = mset (map al_item (used @ unused)) + mset [k..<k']"
    using new(6,7) l'(3,4) upt_add_eq_append [of k k1 "k' - k1"] by (simp add: ac_simps)
  then show ?case using new l' segs(1) by (intro exI [of _ "?l # new"]) auto
qed simp

text \<open>
  An update of a proper visible part succeeds; it shows one label for each mark of both axes, at most
  eighteen, and keeps all other labels hidden for later.
\<close>

lemma update_view_labels:
  assumes "x1 < x2" and "y1 < y2"
  shows "\<exists>a' used unused. update_view (Some z) (x1, y1) (x2, y2) a = Some (a', None)
    \<and> ax_labels a' = used @ unused \<and> (\<forall>l \<in> set used. al_visible l) \<and> (\<forall>l \<in> set unused. \<not> al_visible l)
    \<and> length used = length (snd (ax_hlines a')) + length (snd (ax_vlines a')) - 2 \<and> length used \<le> 18
    \<and> mset (map al_item (ax_labels a')) = mset (map al_item (ax_labels a)) + mset [ax_next a..<ax_next a']"
proof -
  let ?p = "of_rat pixels_per_meter :: real"
  have p: "?p > 0" by (simp add: pixels_per_meter_def)
  then have "x1 / ?p < x2 / ?p" "y1 / ?p < y2 / ?p" using assms by (simp_all add: divide_strict_right_mono)
  note lt = this
  obtain x0 xdiv xs where
    x: "compute_divisions (x1 / ?p) (x2 / ?p) = Inr (x0, xdiv)" "marks_loop (x2 / ?p) xdiv x0 [] = Some xs" "length xs \<le> 9"
    using marks_found [OF lt(1)] by blast
  obtain y0 ydiv ys where
    y: "compute_divisions (y1 / ?p) (y2 / ?p) = Inr (y0, ydiv)" "marks_loop (y2 / ?p) ydiv y0 [] = Some ys" "length ys \<le> 9"
    using marks_found [OF lt(2)] by blast
  let ?hidden = "map (\<lambda>l. l\<lparr>al_visible := False\<rparr>) (ax_labels a)"
  let ?yc = "y2 - 5 / z / 2" and ?xc = "x1 + 5 / z / 2"
  let ?hm = "\<lambda>x. ((?p * x, ?yc - 10 / z), (?p * x, ?yc))" and ?vm = "\<lambda>y. ((?xc, ?p * y), (?xc + 10 / z, ?p * y))"
  obtain hsegs used unused k where h: "draw_marks \<lfloor>12 / z\<rfloor> ?hm (\<lambda>x. (?p * x, ?yc - 10 / z)) xs ([], ?hidden, ax_next a)
      = (hsegs, used, unused, k)" by (rule prod_cases4)
  obtain vsegs used' unused' k' where v: "draw_marks \<lfloor>12 / z\<rfloor> ?vm (\<lambda>y. (?xc + 10 / z, ?p * y)) ys (used, unused, k)
      = (vsegs, used', unused', k')" by (rule prod_cases4)
  have items: "map al_item ?hidden = map al_item (ax_labels a)" by simp
  obtain new where n: "used = new" "length new = length xs" "\<forall>l \<in> set new. al_visible l" "hsegs = map ?hm xs"
    "unused = drop (length xs) ?hidden" "ax_next a \<le> k"
    "mset (map al_item (used @ unused)) = mset (map al_item (ax_labels a)) + mset [ax_next a..<k]"
    using draw_marks_spec [OF h] unfolding items append_Nil by blast
  obtain new' where n': "used' = used @ new'" "length new' = length ys" "\<forall>l \<in> set new'. al_visible l" "vsegs = map ?vm ys"
    "unused' = drop (length ys) unused" "k \<le> k'"
    "mset (map al_item (used' @ unused')) = mset (map al_item (used @ unused)) + mset [k..<k']"
    using draw_marks_spec [OF v] by blast
  have "update_view (Some z) (x1, y1) (x2, y2) a = Some (a\<lparr>ax_hlines := (5 / z, ((x1, ?yc), (x2, ?yc)) # hsegs),
      ax_vlines := (5 / z, ((?xc, y1), (?xc, y2)) # vsegs), ax_labels := used' @ unused', ax_next := k'\<rparr>, None)"
    unfolding update_view_def Let_def by (simp only: option.case prod.case sum.case x y Option.bind.simps h v) simp
  moreover have "\<forall>l \<in> set unused'. \<not> al_visible l"
    unfolding n' n using set_drop_subset [of "length ys" "drop (length xs) ?hidden"] set_drop_subset [of "length xs" ?hidden] by fastforce
  moreover have "mset (map al_item (used' @ unused')) = mset (map al_item (ax_labels a)) + mset [ax_next a..<k']"
    using n(6,7) n'(6,7) upt_add_eq_append [of "ax_next a" k "k' - k"] by simp
  ultimately show ?thesis using n(1-4) n'(1-4) x(3) y(3)
    by (intro exI [of _ "a\<lparr>ax_hlines := (5 / z, ((x1, ?yc), (x2, ?yc)) # hsegs),
      ax_vlines := (5 / z, ((?xc, y1), (?xc, y2)) # vsegs), ax_labels := used' @ unused', ax_next := k'\<rparr>"]
        exI [of _ used'] exI [of _ unused']) auto
qed

end
