(* ===== verification/Viz_Wifi.thy ===== *)
theory Viz_Wifi
  imports Viz_Scene
begin

text \<open>
  The links between wireless stations and their access points,
  \<^verbatim>\<open>visualizer/visualizer/plugins/wifi_intrastructure_link.py\<close>: the objects \<open>WifiLink\<close> in the order of
  their creation, the lists of links of the nodes, and the monitor that scans the nodes and follows the
  associations. Link numbers stand for references. Operations that can raise return the state they
  leave with the exception.
\<close>

section \<open>The state\<close>

record wifi_link =
  wl_node1 :: "nat option"                 \<comment> \<open>the station, gone when the link is destroyed\<close>
  wl_dev :: nat
  wl_node2 :: "nat option"                 \<comment> \<open>the access point\<close>
  wl_visible :: bool
  wl_line :: "(point \<times> point) option"

record wifi =
  w_pos :: "nat \<Rightarrow> point"
  w_node_links :: "nat \<Rightarrow> nat list"
  w_links :: "wifi_link list"
  access_points :: "(string, nat) dict"
  stations :: "(nat \<times> nat \<times> nat) list"     \<comment> \<open>device, node, link\<close>

datatype wifi_device = StaDevice nat | ApDevice string | OtherDevice

type_synonym wifi_result = "wifi \<times> py_error option"

definition and_then :: "wifi_result \<Rightarrow> (wifi \<Rightarrow> wifi_result) \<Rightarrow> wifi_result" where
  "and_then r f = (case r of (s, None) \<Rightarrow> f s | (s, Some e) \<Rightarrow> (s, Some e))"

definition change_link :: "nat \<Rightarrow> (wifi_link \<Rightarrow> wifi_link) \<Rightarrow> wifi \<Rightarrow> wifi" where
  "change_link k f s = s\<lparr>w_links := (w_links s)[k := f (w_links s ! k)]\<rparr>"

section \<open>Links\<close>

definition update_points :: "nat \<Rightarrow> wifi \<Rightarrow> wifi_result" where
  "update_points k s =
     (case wl_node2 (w_links s ! k) of
        None \<Rightarrow> (s, None)
      | Some ap \<Rightarrow>
          (case wl_node1 (w_links s ! k) of
             None \<Rightarrow> (s, Some AttributeError)
           | Some sta \<Rightarrow> (change_link k (\<lambda>l. l\<lparr>wl_line := Some (w_pos s sta, w_pos s ap)\<rparr>) s, None)))"

definition add_link :: "nat \<Rightarrow> nat \<Rightarrow> wifi \<Rightarrow> wifi" where
  "add_link node k s = s\<lparr>w_node_links := (w_node_links s)(node := w_node_links s node @ [k])\<rparr>"

definition remove_link :: "nat \<Rightarrow> nat \<Rightarrow> wifi \<Rightarrow> wifi_result" where
  "remove_link node k s =
     (if k \<in> set (w_node_links s node)
      then (s\<lparr>w_node_links := (w_node_links s)(node := remove1 k (w_node_links s node))\<rparr>, None)
      else (s, Some ValueError))"

definition set_ap :: "nat option \<Rightarrow> nat \<Rightarrow> wifi \<Rightarrow> wifi_result" where
  "set_ap ap k s =
     (if ap = wl_node2 (w_links s ! k) then (s, None)
      else and_then (case wl_node2 (w_links s ! k) of None \<Rightarrow> (s, None) | Some old \<Rightarrow> remove_link old k s) (\<lambda>s.
        let s = change_link k (\<lambda>l. l\<lparr>wl_node2 := ap\<rparr>) s;
            s = (case ap of
                   None \<Rightarrow> change_link k (\<lambda>l. l\<lparr>wl_visible := False\<rparr>) s
                 | Some node \<Rightarrow> change_link k (\<lambda>l. l\<lparr>wl_visible := True\<rparr>) (add_link node k s))
        in update_points k s))"

definition destroy :: "nat \<Rightarrow> wifi \<Rightarrow> wifi" where
  "destroy k = change_link k (\<lambda>l. l\<lparr>wl_node1 := None, wl_node2 := None, wl_visible := False\<rparr>)"

text \<open>The constructor; its call of \<^verbatim>\<open>set_ap(None)\<close> finds no access point to change, so the new item stays visible.\<close>

definition new_wifi_link :: "nat \<Rightarrow> nat \<Rightarrow> wifi \<Rightarrow> nat \<times> wifi_result" where
  "new_wifi_link sta dev s =
     (let k = length (w_links s);
          l = \<lparr>wl_node1 = Some sta, wl_dev = dev, wl_node2 = None, wl_visible = True, wl_line = None\<rparr>
      in (k, set_ap None k (s\<lparr>w_links := w_links s @ [l]\<rparr>)))"

section \<open>The monitor\<close>

definition scan_device :: "nat \<Rightarrow> wifi_device \<Rightarrow> wifi \<Rightarrow> wifi_result" where
  "scan_device node dev s =
     (case dev of
        StaDevice d \<Rightarrow>
          (case new_wifi_link node d s of (k, r) \<Rightarrow> and_then r (\<lambda>s. (s\<lparr>stations := stations s @ [(d, node, k)]\<rparr>, None)))
      | ApDevice bssid \<Rightarrow> (s\<lparr>access_points := dset bssid node (access_points s)\<rparr>, None)
      | OtherDevice \<Rightarrow> (s, None))"

fun each :: "('x \<Rightarrow> wifi \<Rightarrow> wifi_result) \<Rightarrow> 'x list \<Rightarrow> wifi \<Rightarrow> wifi_result" where
  "each f [] s = (s, None)"
| "each f (x # xs) s = and_then (f x s) (each f xs)"

text \<open>\<^verbatim>\<open>scan_nodes\<close>; \<open>net\<close> lists the nodes of the visualizer with the devices of each.\<close>

definition scan_nodes :: "(nat \<times> wifi_device list) list \<Rightarrow> wifi \<Rightarrow> wifi_result" where
  "scan_nodes net s =
     each (\<lambda>(node, devs). each (scan_device node) devs) net
       (fold (\<lambda>(_, _, k). destroy k) (stations s) s\<lparr>access_points := [], stations := []\<rparr>)"

definition no_bssid :: string where
  "no_bssid = ''00:00:00:00:00:00''"

text \<open>What the simulation tells of a station: whether its link is up, and its BSSID.\<close>

record association =
  link_up :: "nat \<Rightarrow> bool"
  bssid_of :: "nat \<Rightarrow> string"

definition update_station :: "association \<Rightarrow> nat \<times> nat \<times> nat \<Rightarrow> wifi \<Rightarrow> wifi_result" where
  "update_station env st s =
     (case st of (d, _, k) \<Rightarrow>
        if \<not> link_up env d then set_ap None k s
        else if bssid_of env d = no_bssid then set_ap None k s
        else case dget (access_points s) (bssid_of env d) of
               None \<Rightarrow> (s, Some KeyError)
             | Some ap \<Rightarrow> set_ap (Some ap) k s)"

definition simulation_periodic_update :: "association \<Rightarrow> wifi \<Rightarrow> wifi_result" where
  "simulation_periodic_update env s = each (update_station env) (stations s) s"

definition update_wifi_view :: "wifi \<Rightarrow> wifi_result" where
  "update_wifi_view s = each (\<lambda>(_, _, k). update_points k) (stations s) s"

text \<open>A node that moves updates the links in its list, here the wireless ones.\<close>

definition move_node :: "nat \<Rightarrow> point \<Rightarrow> wifi \<Rightarrow> wifi_result" where
  "move_node node p s = each update_points (w_node_links s node) (s\<lparr>w_pos := (w_pos s)(node := p)\<rparr>)"

section \<open>Associations and lists agree\<close>

definition link_ok :: "(nat \<Rightarrow> nat list) \<Rightarrow> nat \<Rightarrow> wifi_link \<Rightarrow> bool" where
  "link_ok ls k l \<longleftrightarrow>
     (wl_node1 l = None \<longrightarrow> wl_node2 l = None \<and> \<not> wl_visible l)
     \<and> (wl_node1 l \<noteq> None \<longrightarrow> (\<forall>n. count_list (ls n) k = (if wl_node2 l = Some n then 1 else 0)))
     \<and> (wl_node2 l \<noteq> None \<longrightarrow> wl_visible l \<and> wl_line l \<noteq> None)
     \<and> (wl_node2 l = None \<and> wl_visible l \<longrightarrow> wl_line l = None)"

definition wifi_ok :: "wifi \<Rightarrow> bool" where
  "wifi_ok s \<longleftrightarrow>
     (\<forall>k < length (w_links s). link_ok (w_node_links s) k (w_links s ! k))
     \<and> (\<forall>n. \<forall>k \<in> set (w_node_links s n). k < length (w_links s))
     \<and> distinct (map (snd \<circ> snd) (stations s))
     \<and> (\<forall>k. (\<exists>d n. (d, n, k) \<in> set (stations s)) \<longleftrightarrow> k < length (w_links s) \<and> wl_node1 (w_links s ! k) \<noteq> None)
     \<and> (\<forall>(d, n, k) \<in> set (stations s). wl_node1 (w_links s ! k) = Some n \<and> wl_dev (w_links s ! k) = d)"

text \<open>A change of the association in one equation: what \<open>set_ap\<close> does to a link that is listed as its association says.\<close>

definition associate :: "nat option \<Rightarrow> nat \<Rightarrow> wifi \<Rightarrow> wifi" where
  "associate ap k s =
     (let l = w_links s ! k
      in s\<lparr>w_links := (w_links s)[k := l\<lparr>wl_node2 := ap, wl_visible := ap \<noteq> None,
                wl_line := (case ap of None \<Rightarrow> wl_line l | Some n \<Rightarrow> Some (w_pos s (the (wl_node1 l)), w_pos s n))\<rparr>],
            w_node_links := (\<lambda>n. (if wl_node2 l = Some n then remove1 k (w_node_links s n) else w_node_links s n)
                                  @ (if ap = Some n then [k] else []))\<rparr>)"

lemma count_list_remove1 [simp]: "count_list (remove1 k xs) j = count_list xs j - (if j = k then 1 else 0)"
  by (induction xs) (auto simp: count_list_0_iff)

lemma set_ap_eq:
  assumes "k < length (w_links s)" and "wl_node1 (w_links s ! k) \<noteq> None" and "link_ok (w_node_links s) k (w_links s ! k)"
  shows "set_ap ap k s = (if ap = wl_node2 (w_links s ! k) then s else associate ap k s, None)"
proof (cases "ap = wl_node2 (w_links s ! k)")
  case False
  have listed: "k \<in> set (w_node_links s n)" if "wl_node2 (w_links s ! k) = Some n" for n
  proof -
    have "count_list (w_node_links s n) k = 1" using assms(2,3) that by (simp add: link_ok_def)
    then show ?thesis by (metis count_notin zero_neq_one)
  qed
  obtain sta where sta: "wl_node1 (w_links s ! k) = Some sta" using assms(2) by blast
  show ?thesis
  proof (cases "wl_node2 (w_links s ! k)")
    case None
    with False obtain n where "ap = Some n" by (cases ap) auto
    with None sta assms(1) show ?thesis
      by (auto simp: set_ap_def and_then_def change_link_def add_link_def update_points_def associate_def Let_def fun_eq_iff)
  next
    case (Some old)
    with False sta assms(1) listed [OF Some] show ?thesis
      by (cases ap) (auto simp: set_ap_def and_then_def remove_link_def change_link_def add_link_def update_points_def
          associate_def Let_def fun_eq_iff)
  qed
qed (simp add: set_ap_def)

subsection \<open>Every operation keeps the agreement\<close>

lemma wifi_okD:
  assumes "wifi_ok s" and "(d, n, k) \<in> set (stations s)"
  shows "k < length (w_links s)" and "wl_node1 (w_links s ! k) = Some n" and "wl_dev (w_links s ! k) = d"
    and "link_ok (w_node_links s) k (w_links s ! k)"
  using assms by (auto simp: wifi_ok_def)

lemma wifi_ok_listed: "wifi_ok s \<Longrightarrow> k \<in> set (w_node_links s n) \<Longrightarrow> k < length (w_links s)"
  by (auto simp: wifi_ok_def)

lemma nth_updated: "xs[i := x] ! j = (if i = j \<and> i < length xs then x else xs ! j)"
  by (cases "i < length xs") (auto simp: nth_list_update list_update_beyond)

lemma associate_simps [simp]:
  "w_pos (associate ap k s) = w_pos s" "access_points (associate ap k s) = access_points s"
  "stations (associate ap k s) = stations s" "length (w_links (associate ap k s)) = length (w_links s)"
  "j \<noteq> k \<Longrightarrow> w_links (associate ap k s) ! j = w_links s ! j"
  "k < length (w_links s) \<Longrightarrow> wl_node2 (w_links (associate ap k s) ! k) = ap"
  "wl_node1 (w_links (associate ap k s) ! j) = wl_node1 (w_links s ! j)"
  "wl_dev (w_links (associate ap k s) ! j) = wl_dev (w_links s ! j)"
  by (simp_all add: associate_def Let_def nth_updated)

lemma associate_ok:
  assumes "wifi_ok s" and "(d, n, k) \<in> set (stations s)"
  shows "wifi_ok (associate ap k s)"
proof -
  note k = wifi_okD [OF assms]
  have "link_ok (w_node_links (associate ap k s)) j (w_links (associate ap k s) ! j)" if "j < length (w_links s)" for j
  proof (cases "j = k")
    case True
    with k show ?thesis by (cases ap) (auto simp: link_ok_def associate_def Let_def)
  next
    case False
    moreover have "link_ok (w_node_links s) j (w_links s ! j)" using assms(1) that by (simp add: wifi_ok_def)
    ultimately show ?thesis by (auto simp: link_ok_def associate_def Let_def)
  qed
  moreover have "j < length (w_links s)" if "j \<in> set (w_node_links (associate ap k s) m)" for j m
    using that k(1) wifi_ok_listed [OF assms(1)] notin_set_remove1
    by (fastforce simp: associate_def Let_def split: if_split_asm)
  ultimately show ?thesis using assms(1) by (auto simp: wifi_ok_def)
qed

lemma set_ap_ok:
  assumes "wifi_ok s" and "(d, n, k) \<in> set (stations s)"
  obtains t where "set_ap ap k s = (t, None)" "wifi_ok t" "stations t = stations s" "access_points t = access_points s"
    "w_pos t = w_pos s" "wl_node2 (w_links t ! k) = ap" "\<And>j. j \<noteq> k \<Longrightarrow> w_links t ! j = w_links s ! j"
    "length (w_links t) = length (w_links s)"
proof
  note k = wifi_okD [OF assms]
  let ?t = "if ap = wl_node2 (w_links s ! k) then s else associate ap k s"
  show "set_ap ap k s = (?t, None)" using k by (simp add: set_ap_eq)
  show "wifi_ok ?t" using assms associate_ok by simp
qed (use wifi_okD(1) [OF assms] in auto)

definition moved_line :: "nat \<Rightarrow> wifi \<Rightarrow> wifi" where
  "moved_line k s =
     (case wl_node2 (w_links s ! k) of
        None \<Rightarrow> s
      | Some ap \<Rightarrow> change_link k (\<lambda>l. l\<lparr>wl_line := Some (w_pos s (the (wl_node1 l)), w_pos s ap)\<rparr>) s)"

lemma moved_line_simps [simp]:
  "w_pos (moved_line k s) = w_pos s" "access_points (moved_line k s) = access_points s"
  "stations (moved_line k s) = stations s" "w_node_links (moved_line k s) = w_node_links s"
  "length (w_links (moved_line k s)) = length (w_links s)"
  "wl_node1 (w_links (moved_line k s) ! j) = wl_node1 (w_links s ! j)"
  "wl_node2 (w_links (moved_line k s) ! j) = wl_node2 (w_links s ! j)"
  "wl_dev (w_links (moved_line k s) ! j) = wl_dev (w_links s ! j)"
  "j \<noteq> k \<Longrightarrow> w_links (moved_line k s) ! j = w_links s ! j"
  by (simp_all add: moved_line_def change_link_def nth_updated split: option.split)

lemma update_points_ok:
  assumes "wifi_ok s" and "k < length (w_links s)"
  shows "update_points k s = (moved_line k s, None)" and "wifi_ok (moved_line k s)"
proof -
  have l: "link_ok (w_node_links s) k (w_links s ! k)" using assms by (simp add: wifi_ok_def)
  then show "update_points k s = (moved_line k s, None)"
    by (auto simp: update_points_def moved_line_def change_link_def link_ok_def split: option.split)
  have "link_ok (w_node_links s) j (w_links (moved_line k s) ! j)" if "j < length (w_links s)" for j
  proof (cases "j = k")
    case True
    with l assms(2) show ?thesis
      by (auto simp: link_ok_def moved_line_def change_link_def split: option.split)
  next
    case False
    then show ?thesis using assms(1) that by (simp add: wifi_ok_def)
  qed
  with assms(1) show "wifi_ok (moved_line k s)" by (simp add: wifi_ok_def)
qed

lemma each_ok:
  assumes "\<And>x s. x \<in> set xs \<Longrightarrow> P s \<Longrightarrow> \<exists>t. f x s = (t, None) \<and> P t" and "P s"
  shows "\<exists>t. each f xs s = (t, None) \<and> P t"
  using assms
proof (induction xs arbitrary: s)
  case (Cons x xs)
  from Cons.prems(1) [of x s] Cons.prems(2) obtain t where "f x s = (t, None)" "P t" by auto
  with Cons.IH [of t] Cons.prems(1) show ?case by (simp add: and_then_def)
qed simp

subsection \<open>The scan\<close>

lemma destroy_simps [simp]:
  "w_pos (destroy k s) = w_pos s" "access_points (destroy k s) = access_points s" "stations (destroy k s) = stations s"
  "w_node_links (destroy k s) = w_node_links s" "length (w_links (destroy k s)) = length (w_links s)"
  "k < length (w_links s) \<Longrightarrow> wl_node1 (w_links (destroy k s) ! j) = (if j = k then None else wl_node1 (w_links s ! j))"
  by (simp_all add: destroy_def change_link_def nth_updated)

definition dead :: "wifi_link \<Rightarrow> bool" where
  "dead l \<longleftrightarrow> wl_node1 l = None \<and> wl_node2 l = None \<and> \<not> wl_visible l"

lemma dead_destroy:
  "k < length (w_links s) \<Longrightarrow> j < length (w_links s) \<Longrightarrow> dead (w_links (destroy k s) ! j) \<longleftrightarrow> j = k \<or> dead (w_links s ! j)"
  by (auto simp: destroy_def change_link_def dead_def nth_updated)

lemma destroy_stations:
  assumes "\<And>d n k. (d, n, k) \<in> set sts \<Longrightarrow> k < length (w_links s)"
  shows "let t = fold (\<lambda>(_, _, k). destroy k) sts s in
    w_pos t = w_pos s \<and> w_node_links t = w_node_links s \<and> length (w_links t) = length (w_links s)
    \<and> (\<forall>j < length (w_links s). dead (w_links t ! j) \<longleftrightarrow> dead (w_links s ! j) \<or> (\<exists>d n. (d, n, j) \<in> set sts))"
  using assms
proof (induction sts arbitrary: s)
  case (Cons st sts)
  obtain d n k where st: "st = (d, n, k)" by (rule prod_cases3)
  have "k < length (w_links s)" using Cons.prems [of d n k] by (simp add: st)
  moreover have "\<And>d n k. (d, n, k) \<in> set sts \<Longrightarrow> k < length (w_links (destroy k s))" using Cons.prems by force
  then have "\<And>d n j. (d, n, j) \<in> set sts \<Longrightarrow> j < length (w_links (destroy k s))" by simp
  note Cons.IH [OF this]
  moreover have "(\<exists>d n. (d, n, j) \<in> set (st # sts)) \<longleftrightarrow> j = k \<or> (\<exists>d n. (d, n, j) \<in> set sts)" for j by (auto simp: st)
  ultimately show ?case by (simp add: st Let_def dead_destroy ac_simps)
qed simp

lemma destroyed_ok:
  assumes "wifi_ok s"
  shows "wifi_ok (fold (\<lambda>(_, _, k). destroy k) (stations s) s\<lparr>access_points := [], stations := []\<rparr>)"
proof -
  let ?t = "fold (\<lambda>(_, _, k). destroy k) (stations s) s"
  from destroy_stations [of "stations s" s] wifi_okD(1) [OF assms] have
    t: "w_node_links ?t = w_node_links s" "length (w_links ?t) = length (w_links s)"
      "\<And>j. j < length (w_links s) \<Longrightarrow> dead (w_links ?t ! j) \<longleftrightarrow> dead (w_links s ! j) \<or> (\<exists>d n. (d, n, j) \<in> set (stations s))"
    by (auto simp: Let_def)
  have gone: "dead (w_links ?t ! j)" if "j < length (w_links s)" for j
  proof (cases "wl_node1 (w_links s ! j)")
    case None
    have "link_ok (w_node_links s) j (w_links s ! j)" using assms that by (simp add: wifi_ok_def)
    with None have "dead (w_links s ! j)" by (simp add: link_ok_def dead_def)
    with t(3) [OF that] show ?thesis by simp
  next
    case (Some n)
    then have "\<exists>d n. (d, n, j) \<in> set (stations s)" using assms that unfolding wifi_ok_def by blast
    with t(3) [OF that] show ?thesis by simp
  qed
  have "link_ok (w_node_links s) j l" if "dead l" for j l using that by (simp add: link_ok_def dead_def)
  with gone assms t(1,2) show ?thesis by (auto simp: wifi_ok_def dead_def)
qed

lemma wifi_scan_device_ok:
  assumes "wifi_ok s"
  shows "\<exists>t. scan_device node dev s = (t, None) \<and> wifi_ok t"
proof (cases dev)
  case (StaDevice d)
  let ?k = "length (w_links s)"
  let ?l = "\<lparr>wl_node1 = Some node, wl_dev = d, wl_node2 = None, wl_visible = True, wl_line = None\<rparr>"
  let ?t = "s\<lparr>w_links := w_links s @ [?l], stations := stations s @ [(d, node, ?k)]\<rparr>"
  have "scan_device node dev s = (?t, None)"
    by (simp add: StaDevice scan_device_def new_wifi_link_def Let_def set_ap_def and_then_def)
  moreover have "count_list (w_node_links s n) ?k = 0" for n
    using wifi_ok_listed [OF assms] by (auto simp: count_list_0_iff)
  then have "link_ok (w_node_links s) j ((w_links s @ [?l]) ! j)" if "j < Suc ?k" for j
    using assms that by (cases "j = ?k") (auto simp: wifi_ok_def nth_append link_ok_def)
  moreover have "?k \<notin> (snd \<circ> snd) ` set (stations s)"
  proof
    assume "?k \<in> (snd \<circ> snd) ` set (stations s)"
    then obtain d n where "(d, n, ?k) \<in> set (stations s)" by auto
    from wifi_okD(1) [OF assms this] show False by simp
  qed
  ultimately show ?thesis using assms wifi_okD(1) [OF assms]
    by (auto simp: wifi_ok_def nth_append less_Suc_eq)
qed (use assms in \<open>simp_all add: scan_device_def wifi_ok_def\<close>)

lemma wifi_scan_nodes_ok:
  assumes "wifi_ok s"
  shows "\<exists>t. scan_nodes net s = (t, None) \<and> wifi_ok t"
  unfolding scan_nodes_def
proof (rule each_ok)
  show "\<exists>t. (case x of (node, devs) \<Rightarrow> each (scan_device node) devs) s = (t, None) \<and> wifi_ok t" if "wifi_ok s" for x s
    using each_ok [of "snd x" wifi_ok "scan_device (fst x)" s] that wifi_scan_device_ok by (simp add: case_prod_beta)
qed (rule destroyed_ok [OF assms])

subsection \<open>The periodic update\<close>

text \<open>The access point that a station should be linked to, as far as the monitor knows it.\<close>

definition wanted :: "association \<Rightarrow> (string, nat) dict \<Rightarrow> nat \<Rightarrow> py_error + nat option" where
  "wanted env aps d =
     (if \<not> link_up env d \<or> bssid_of env d = no_bssid then Inr None
      else case dget aps (bssid_of env d) of None \<Rightarrow> Inl KeyError | Some ap \<Rightarrow> Inr (Some ap))"

lemma update_station_wanted:
  "update_station env (d, n, k) s =
     (case wanted env (access_points s) d of Inl e \<Rightarrow> (s, Some e) | Inr ap \<Rightarrow> set_ap ap k s)"
  by (auto simp: update_station_def wanted_def split: option.split)

definition known :: "association \<Rightarrow> (string, nat) dict \<Rightarrow> nat \<times> nat \<times> nat \<Rightarrow> bool" where
  "known env aps st \<longleftrightarrow> is_ok (wanted env aps (fst st))"

definition same_but_ends :: "wifi \<Rightarrow> wifi \<Rightarrow> bool" where
  "same_but_ends s t \<longleftrightarrow> wifi_ok t \<and> stations t = stations s \<and> access_points t = access_points s \<and> w_pos t = w_pos s
     \<and> length (w_links t) = length (w_links s)"

lemma update_stations:
  fixes env :: association
  assumes "wifi_ok s" and "set sts \<subseteq> set (stations s)" and "distinct (map (snd \<circ> snd) sts)"
  defines "good \<equiv> takeWhile (known env (access_points s)) sts"
  shows "\<exists>t. each (update_station env) sts s = (t, if good = sts then None else Some KeyError)
    \<and> same_but_ends s t
    \<and> (\<forall>(d, n, k) \<in> set good. wanted env (access_points s) d = Inr (wl_node2 (w_links t ! k)))
    \<and> (\<forall>k. k \<notin> (snd \<circ> snd) ` set good \<longrightarrow> w_links t ! k = w_links s ! k)"
  using assms(1-3) unfolding good_def
proof (induction sts arbitrary: s)
  case Nil
  then show ?case by (simp add: same_but_ends_def)
next
  case (Cons st sts)
  obtain d n k where st: "st = (d, n, k)" by (rule prod_cases3)
  show ?case
  proof (cases "wanted env (access_points s) d")
    case (Inl e)
    then have "e = KeyError" by (auto simp: wanted_def split: if_split_asm option.split_asm)
    with Inl Cons.prems(1) show ?thesis
      by (simp add: st known_def update_station_wanted and_then_def same_but_ends_def)
  next
    case (Inr ap)
    have "(d, n, k) \<in> set (stations s)" using Cons.prems(2) by (simp add: st)
    then obtain u where
      u: "set_ap ap k s = (u, None)" "wifi_ok u" "stations u = stations s" "access_points u = access_points s"
        "w_pos u = w_pos s" "wl_node2 (w_links u ! k) = ap" "\<And>j. j \<noteq> k \<Longrightarrow> w_links u ! j = w_links s ! j"
        "length (w_links u) = length (w_links s)"
      by (rule set_ap_ok [OF Cons.prems(1)]) (rule that)
    let ?good = "takeWhile (known env (access_points s)) sts"
    have sub: "set sts \<subseteq> set (stations u)" "distinct (map (snd \<circ> snd) sts)" "k \<notin> (snd \<circ> snd) ` set ?good"
      using Cons.prems(2,3) by (auto simp: st u(3) comp_def dest: set_takeWhileD)
    from Cons.IH [OF u(2) sub(1,2), unfolded u(4)] obtain t where
      t: "each (update_station env) sts u = (t, if ?good = sts then None else Some KeyError)" "same_but_ends u t"
        "\<forall>(d, n, k) \<in> set ?good. wanted env (access_points s) d = Inr (wl_node2 (w_links t ! k))"
        "\<forall>k. k \<notin> (snd \<circ> snd) ` set ?good \<longrightarrow> w_links t ! k = w_links u ! k"
      by (elim exE conjE)
    have "known env (access_points s) st" by (simp add: known_def st Inr)
    then have "takeWhile (known env (access_points s)) (st # sts) = st # ?good" by simp
    moreover have "each (update_station env) (st # sts) s = (t, if st # ?good = st # sts then None else Some KeyError)"
      using t(1) by (simp add: st update_station_wanted Inr u(1) and_then_def)
    moreover have "same_but_ends s t" using t(2) u by (simp add: same_but_ends_def)
    moreover have "w_links t ! k = w_links u ! k" using t(4) sub(3) by blast
    ultimately show ?thesis using t(3,4) Inr u(6,7) by (intro exI [of _ t]) (auto simp: st)
  qed
qed

lemma periodic_update_ok:
  fixes env :: association
  assumes "wifi_ok s"
  defines "good \<equiv> takeWhile (known env (access_points s)) (stations s)"
  shows "\<exists>t. simulation_periodic_update env s = (t, if good = stations s then None else Some KeyError)
    \<and> same_but_ends s t
    \<and> (\<forall>(d, n, k) \<in> set good. wanted env (access_points s) d = Inr (wl_node2 (w_links t ! k)))
    \<and> (\<forall>k. k \<notin> (snd \<circ> snd) ` set good \<longrightarrow> w_links t ! k = w_links s ! k)"
  unfolding good_def simulation_periodic_update_def
  by (rule update_stations [OF assms(1) subset_refl]) (use assms(1) in \<open>simp add: wifi_ok_def\<close>)

subsection \<open>Lines\<close>

lemma moves_ok:
  assumes "wifi_ok s" and "\<forall>k \<in> set ks. k < length (w_links s)"
  shows "each update_points ks s = (fold moved_line ks s, None)" and "wifi_ok (fold moved_line ks s)"
proof -
  have "each update_points ks s = (fold moved_line ks s, None) \<and> wifi_ok (fold moved_line ks s)"
    using assms by (induction ks arbitrary: s) (simp_all add: update_points_ok and_then_def)
  then show "each update_points ks s = (fold moved_line ks s, None)" "wifi_ok (fold moved_line ks s)" by simp_all
qed

lemma each_map: "each (\<lambda>x. f (g x)) xs s = each f (map g xs) s"
proof (induction xs arbitrary: s)
  case (Cons x xs)
  then have "each (\<lambda>x. f (g x)) xs = each f (map g xs)" by blast
  then show ?case by simp
qed simp

lemma update_wifi_view_eq:
  "update_wifi_view s = each update_points (map (snd \<circ> snd) (stations s)) s"
proof -
  have "(\<lambda>(_, _, k). update_points k) = (\<lambda>x :: nat \<times> nat \<times> nat. update_points ((snd \<circ> snd) x))" by (auto simp: fun_eq_iff)
  then show ?thesis unfolding update_wifi_view_def using each_map [of update_points "snd \<circ> snd" "stations s" s] by simp
qed

lemma update_wifi_view_ok:
  assumes "wifi_ok s"
  shows "update_wifi_view s = (fold moved_line (map (snd \<circ> snd) (stations s)) s, None)"
    and "wifi_ok (fold moved_line (map (snd \<circ> snd) (stations s)) s)"
  using moves_ok [OF assms, of "map (snd \<circ> snd) (stations s)"] wifi_okD(1) [OF assms]
  by (force simp: update_wifi_view_eq)+

lemma fold_moved_line_frame:
  "w_pos (fold moved_line ks s) = w_pos s" "stations (fold moved_line ks s) = stations s"
  "length (w_links (fold moved_line ks s)) = length (w_links s)"
  "wl_node1 (w_links (fold moved_line ks s) ! j) = wl_node1 (w_links s ! j)"
  "wl_node2 (w_links (fold moved_line ks s) ! j) = wl_node2 (w_links s ! j)"
  by (induction ks arbitrary: s) simp_all

lemma fold_moved_line_line:
  assumes "j < length (w_links s)" and "wl_node1 (w_links s ! j) = Some sta" and "wl_node2 (w_links s ! j) = Some ap"
  shows "wl_line (w_links (fold moved_line ks s) ! j)
    = (if j \<in> set ks then Some (w_pos s sta, w_pos s ap) else wl_line (w_links s ! j))"
  using assms
proof (induction ks arbitrary: s)
  case (Cons k ks)
  have "wl_line (w_links (moved_line k s) ! j) = (if j = k then Some (w_pos s sta, w_pos s ap) else wl_line (w_links s ! j))"
    using Cons.prems by (auto simp: moved_line_def change_link_def nth_updated split: option.split)
  with Cons.IH [of "moved_line k s"] Cons.prems show ?case by auto
qed simp

section \<open>Everything the monitor can reach\<close>

definition wifi_start :: "(nat \<Rightarrow> point) \<Rightarrow> wifi" where
  "wifi_start pos = \<lparr>w_pos = pos, w_node_links = \<lambda>_. [], w_links = [], access_points = [], stations = []\<rparr>"

inductive wifi_reached :: "wifi \<Rightarrow> bool" where
  reached_start: "wifi_reached (wifi_start pos)"
| reached_scan: "wifi_reached s \<Longrightarrow> wifi_reached (fst (scan_nodes net s))"
| reached_update: "wifi_reached s \<Longrightarrow> wifi_reached (fst (simulation_periodic_update env s))"
| reached_view: "wifi_reached s \<Longrightarrow> wifi_reached (fst (update_wifi_view s))"
| reached_move: "wifi_reached s \<Longrightarrow> wifi_reached (fst (move_node n p s))"

lemma move_node_ok:
  assumes "wifi_ok s"
  shows "snd (move_node n p s) = None" and "wifi_ok (fst (move_node n p s))"
proof -
  have s: "wifi_ok (s\<lparr>w_pos := (w_pos s)(n := p)\<rparr>)" using assms by (simp add: wifi_ok_def)
  have "\<forall>k \<in> set (w_node_links s n). k < length (w_links (s\<lparr>w_pos := (w_pos s)(n := p)\<rparr>))"
    using wifi_ok_listed [OF assms] by simp
  from moves_ok [OF s this] show "snd (move_node n p s) = None" "wifi_ok (fst (move_node n p s))"
    by (simp_all add: move_node_def)
qed

lemma wifi_reached_ok: "wifi_reached s \<Longrightarrow> wifi_ok s"
proof (induction rule: wifi_reached.induct)
  case (reached_scan s net)
  then show ?case using wifi_scan_nodes_ok [of s net] by auto
next
  case (reached_update s env)
  from periodic_update_ok [OF this(2), of env] show ?case by (auto simp: same_but_ends_def)
next
  case (reached_view s)
  then show ?case by (simp add: update_wifi_view_ok)
next
  case (reached_move s n p)
  then show ?case by (simp add: move_node_ok)
qed (simp add: wifi_start_def wifi_ok_def)

lemma each_frame:
  assumes "\<And>x s. g (fst (f x s)) = g s"
  shows "g (fst (each f xs s)) = g s"
proof (induction xs arbitrary: s)
  case (Cons x xs)
  then show ?case using assms [of x s] by (cases "f x s") (auto simp: and_then_def split: option.split)
qed simp

lemma scan_device_lists: "w_node_links (fst (scan_device node dev s)) = w_node_links s"
  by (simp add: scan_device_def new_wifi_link_def set_ap_def and_then_def Let_def split: wifi_device.split)

lemma scan_nodes_lists:
  assumes "wifi_ok s"
  shows "w_node_links (fst (scan_nodes net s)) = w_node_links s"
proof -
  have "w_node_links (fst (each (\<lambda>(node, devs). each (scan_device node) devs) net u)) = w_node_links u" for u
    by (rule each_frame) (simp add: case_prod_beta each_frame scan_device_lists)
  with destroy_stations [of "stations s" s] wifi_okD(1) [OF assms] show ?thesis by (simp add: scan_nodes_def Let_def)
qed

text \<open>
  Claim C18: whatever scans, updates (also those that raise), redraws and moves have happened: each station
  has its link, which stands once in the list of the access point it is associated with and in no other, and a
  link with an access point is visible and drawn; all earlier links are destroyed. No operation raises
  but the periodic update, and that only \<open>KeyError\<close>. A scan changes no list, so the links it destroys
  stay in the lists of the access points.
\<close>
theorem wifi_lists_agree:
  assumes "wifi_reached s"
  shows "(\<forall>(d, n, k) \<in> set (stations s). k < length (w_links s)
      \<and> wl_node1 (w_links s ! k) = Some n \<and> wl_dev (w_links s ! k) = d
      \<and> (\<forall>m. count_list (w_node_links s m) k = (if wl_node2 (w_links s ! k) = Some m then 1 else 0))
      \<and> (wl_node2 (w_links s ! k) \<noteq> None \<longrightarrow> wl_visible (w_links s ! k) \<and> wl_line (w_links s ! k) \<noteq> None))
    \<and> (\<forall>k < length (w_links s). (\<exists>d n. (d, n, k) \<in> set (stations s))
        \<or> wl_node1 (w_links s ! k) = None \<and> wl_node2 (w_links s ! k) = None \<and> \<not> wl_visible (w_links s ! k))
    \<and> snd (scan_nodes net s) = None \<and> snd (update_wifi_view s) = None \<and> snd (move_node n p s) = None
    \<and> snd (simulation_periodic_update env s) \<in> {None, Some KeyError}
    \<and> w_node_links (fst (scan_nodes net s)) = w_node_links s"
proof -
  have ok: "wifi_ok s" using wifi_reached_ok [OF assms] .
  have gone: "(\<exists>d n. (d, n, k) \<in> set (stations s)) \<or> wl_node1 (w_links s ! k) = None \<and> wl_node2 (w_links s ! k) = None
      \<and> \<not> wl_visible (w_links s ! k)" if k: "k < length (w_links s)" for k
  proof -
    have "link_ok (w_node_links s) k (w_links s ! k)"
      and "(\<exists>d n. (d, n, k) \<in> set (stations s)) \<longleftrightarrow> wl_node1 (w_links s ! k) \<noteq> None"
      using ok k by (simp_all add: wifi_ok_def)
    then show ?thesis unfolding link_ok_def by (cases "wl_node1 (w_links s ! k)") simp_all
  qed
  have "snd (scan_nodes net s) = None" using wifi_scan_nodes_ok [OF ok, of net] by auto
  moreover have "snd (simulation_periodic_update env s) \<in> {None, Some KeyError}"
    using periodic_update_ok [OF ok, of env] by (auto split: if_split_asm)
  moreover have "k < length (w_links s) \<and> wl_node1 (w_links s ! k) = Some n \<and> wl_dev (w_links s ! k) = d
      \<and> (\<forall>m. count_list (w_node_links s m) k = (if wl_node2 (w_links s ! k) = Some m then 1 else 0))
      \<and> (wl_node2 (w_links s ! k) \<noteq> None \<longrightarrow> wl_visible (w_links s ! k) \<and> wl_line (w_links s ! k) \<noteq> None)"
    if "(d, n, k) \<in> set (stations s)" for d n k
    using wifi_okD [OF ok that] by (simp add: link_ok_def)
  moreover have "snd (update_wifi_view s) = None" using update_wifi_view_ok [OF ok] by simp
  ultimately show ?thesis
    using gone move_node_ok(1) [OF ok] scan_nodes_lists [OF ok] by (intro conjI) blast+
qed

text \<open>
  Claim C26: one update of the associations and a redraw. The stations are followed in order up to the
  first whose BSSID belongs to no scanned access point; there \<open>KeyError\<close> ends the update, and this and
  all later stations keep their old links. After the redraw each line joins the present positions of
  the station and of its access point.
\<close>
theorem associations_followed:
  assumes "wifi_reached s" and "simulation_periodic_update env s = (t, e)" and "update_wifi_view t = (v, e')"
  shows "e = (if \<forall>(d, n, k) \<in> set (stations s). is_ok (wanted env (access_points s) d) then None else Some KeyError)
    \<and> stations v = stations s \<and> e' = None
    \<and> (\<forall>i < length (stations s). case stations s ! i of (d, n, k) \<Rightarrow>
        (if \<forall>(d', n', k') \<in> set (take (Suc i) (stations s)). is_ok (wanted env (access_points s) d')
         then wanted env (access_points s) d = Inr (wl_node2 (w_links t ! k))
         else w_links t ! k = w_links s ! k)
        \<and> wl_node2 (w_links v ! k) = wl_node2 (w_links t ! k)
        \<and> (\<forall>ap. wl_node2 (w_links v ! k) = Some ap \<longrightarrow> wl_line (w_links v ! k) = Some (w_pos s n, w_pos s ap)))"
proof -
  let ?known = "known env (access_points s)" and ?sts = "stations s"
  let ?good = "takeWhile ?known ?sts"
  have ok: "wifi_ok s" using wifi_reached_ok [OF assms(1)] .
  have u: "e = (if ?good = ?sts then None else Some KeyError)" "same_but_ends s t"
    "\<forall>(d, n, k) \<in> set ?good. wanted env (access_points s) d = Inr (wl_node2 (w_links t ! k))"
    "\<forall>k. k \<notin> (snd \<circ> snd) ` set ?good \<longrightarrow> w_links t ! k = w_links s ! k"
    using periodic_update_ok [OF ok, of env] assms(2) by auto
  then have t: "wifi_ok t" "stations t = ?sts" "w_pos t = w_pos s" by (simp_all add: same_but_ends_def)
  from update_wifi_view_ok [OF t(1)] assms(3) have v: "v = fold moved_line (map (snd \<circ> snd) ?sts) t" "e' = None"
    by (simp_all add: t(2))
  have known: "(\<forall>(d, n, k) \<in> A. is_ok (wanted env (access_points s) d)) \<longleftrightarrow> (\<forall>st \<in> A. ?known st)" for A
    by (auto simp: known_def)
  have station: "(if \<forall>st \<in> set (take (Suc i) ?sts). ?known st then wanted env (access_points s) d = Inr (wl_node2 (w_links t ! k))
         else w_links t ! k = w_links s ! k)
      \<and> wl_node2 (w_links v ! k) = wl_node2 (w_links t ! k)
      \<and> (\<forall>ap. wl_node2 (w_links v ! k) = Some ap \<longrightarrow> wl_line (w_links v ! k) = Some (w_pos s n, w_pos s ap))"
    if i: "i < length ?sts" "?sts ! i = (d, n, k)" for i d n k
  proof (intro conjI)
    have good: "?good = take (length ?good) ?sts" by (rule takeWhile_eq_take)
    have mem: "(d, n, k) \<in> set ?good" if all: "\<forall>st \<in> set (take (Suc i) ?sts). ?known st"
    proof -
      have "takeWhile ?known (take (Suc i) ?sts @ drop (Suc i) ?sts) = take (Suc i) ?sts @ takeWhile ?known (drop (Suc i) ?sts)"
        using all by (intro takeWhile_append2) simp
      moreover have "(d, n, k) \<in> set (take (Suc i) ?sts)" using i by (force simp: in_set_conv_nth)
      ultimately show ?thesis by simp
    qed
    have other: "k \<notin> (snd \<circ> snd) ` set ?good" if bad: "\<not> (\<forall>st \<in> set (take (Suc i) ?sts). ?known st)"
    proof
      assume "k \<in> (snd \<circ> snd) ` set ?good"
      then obtain j where j: "j < length ?good" "(snd \<circ> snd) (?good ! j) = k" by (auto simp: in_set_conv_nth)
      then have "map (snd \<circ> snd) ?sts ! j = map (snd \<circ> snd) ?sts ! i"
        using i length_takeWhile_le [of ?known ?sts] by (simp add: takeWhile_nth)
      then have "j = i" using ok i(1) j(1) length_takeWhile_le [of ?known ?sts]
        by (subst (asm) nth_eq_iff_index_eq) (simp_all add: wifi_ok_def)
      then have "set (take (Suc i) ?sts) \<subseteq> set ?good" using j(1) good by (metis Suc_leI set_take_subset_set_take)
      with bad show False by (auto dest: set_takeWhileD)
    qed
    show "if \<forall>st \<in> set (take (Suc i) ?sts). ?known st then wanted env (access_points s) d = Inr (wl_node2 (w_links t ! k))
         else w_links t ! k = w_links s ! k"
      using mem other u(3,4) by auto
    show same: "wl_node2 (w_links v ! k) = wl_node2 (w_links t ! k)" by (simp add: v fold_moved_line_frame)
    have "(d, n, k) \<in> set (stations t)" using i by (metis t(2) nth_mem)
    note k = wifi_okD [OF t(1) this]
    moreover have "k \<in> set (map (snd \<circ> snd) ?sts)" using i nth_mem [OF i(1)] by force
    ultimately show "\<forall>ap. wl_node2 (w_links v ! k) = Some ap \<longrightarrow> wl_line (w_links v ! k) = Some (w_pos s n, w_pos s ap)"
      unfolding same using fold_moved_line_line [OF k(1,2), of _ "map (snd \<circ> snd) ?sts"] by (simp add: v t(3))
  qed
  have "?good = ?sts \<longleftrightarrow> (\<forall>st \<in> set ?sts. ?known st)" by (rule takeWhile_eq_all_conv)
  with u(1) station show ?thesis unfolding known
    by (simp add: v fold_moved_line_frame t(2) split: prod.split)
qed

text \<open>Two stations and an access point; one station has joined it, the other one an unknown access point.\<close>

definition small_wlan :: "(nat \<times> wifi_device list) list" where
  "small_wlan = [(0, [ApDevice ''a'']), (1, [StaDevice 10]), (2, [OtherDevice, StaDevice 20])]"

definition joined :: association where
  "joined = \<lparr>link_up = \<lambda>_. True, bssid_of = \<lambda>d. if d = 10 then ''a'' else ''b''\<rparr>"

abbreviation scanned_wlan :: wifi where
  "scanned_wlan \<equiv> fst (scan_nodes small_wlan (wifi_start (\<lambda>n. (of_nat n, 0))))"

lemma scanned_wlan_reached: "wifi_reached scanned_wlan"
  by (intro wifi_reached.intros)

lemma wifi_lists_agree_witness:
  "snd (simulation_periodic_update joined scanned_wlan) \<in> {None, Some KeyError} \<and> stations scanned_wlan = [(10, 1, 0), (20, 2, 1)]"
proof -
  have "stations scanned_wlan = [(10, 1, 0), (20, 2, 1)]" by code_simp
  with wifi_lists_agree [OF scanned_wlan_reached, of small_wlan 0 "(0, 0)" joined] show ?thesis by blast
qed

lemma associations_followed_witness:
  "snd (simulation_periodic_update joined scanned_wlan) = Some KeyError"
proof -
  obtain t e where t: "simulation_periodic_update joined scanned_wlan = (t, e)" by (meson surj_pair)
  obtain v e' where v: "update_wifi_view t = (v, e')" by (meson surj_pair)
  have "\<not> (\<forall>(d, n, k) \<in> set (stations scanned_wlan). is_ok (wanted joined (access_points scanned_wlan) d))" by code_simp
  with conjunct1 [OF associations_followed [OF scanned_wlan_reached t v]] show ?thesis by (simp add: t)
qed

end
