(* ===== verification/Viz_Windows.thy ===== *)
theory Viz_Windows
  imports Viz_Stats
begin

text \<open>
  The information windows of the visualizer (\<^verbatim>\<open>plugins/ipv4_routing_table.py\<close>, \<^verbatim>\<open>plugins/olsr.py\<close>,
  \<^verbatim>\<open>plugins/interface_statistics.py\<close>, \<^verbatim>\<open>plugins/show_last_packets.py\<close>), the list of open windows, the
  update of the whole view in \<^verbatim>\<open>core.py\<close>, and the packet filter of the window of the last packets. What
  the simulator says of its nodes is an argument; a table is the list of its rows, with numbers where the
  code shows their text.
\<close>

section \<open>What the windows ask of the simulator\<close>

record route =
  r_dest :: string
  r_gateway :: string
  r_interface :: nat

datatype routing =
    StaticRouting "route list"
  | GlobalRouting "route list"
  | ListRouting "(routing \<times> int) list"
  | OtherRouting

record ipv4 =
  ip_routing :: "routing option"
  ip_device :: "nat \<Rightarrow> nat option"

record olsr_entry =
  o_dest :: string
  o_next :: string
  o_interface :: nat
  o_distance :: nat

record packet_sample =
  p_device :: "(nat \<times> nat) option"   \<comment> \<open>the device and its index\<close>
  p_time :: rat
  p_size :: nat
  p_text :: string

record node_net =
  nn_ipv4 :: "ipv4 option"
  nn_olsr :: "olsr_entry list option"
  nn_device :: "nat \<Rightarrow> nat"
  nn_packets :: "packet_sample list list"   \<comment> \<open>transmitted, received, dropped\<close>

record sim_view =
  sv_net :: "nat \<Rightarrow> node_net"
  sv_names :: "nat \<Rightarrow> string"
  sv_collector :: "(nat, if_stats list list) dict"
  sv_period :: rat

section \<open>Tables\<close>

datatype row =
    RouteRow string string string string int
  | OlsrRow string string string nat
  | StatsRow string net_dev_stats
  | PacketRow rat string nat string
  | EmptyRow

definition named :: "(nat \<Rightarrow> string) \<Rightarrow> nat \<Rightarrow> nat \<Rightarrow> string" where
  "named names dev i = (if names dev = '''' then ''(interface '' @ str_nat i @ '')'' else names dev)"

definition interface_name :: "(nat \<Rightarrow> string) \<Rightarrow> nat option \<Rightarrow> nat \<Rightarrow> string" where
  "interface_name names dev i = (case dev of None \<Rightarrow> ''lo'' | Some d \<Rightarrow> named names d i)"

text \<open>The protocols whose routes are shown: those of the node itself or of the list it holds, but not of lists in the list.\<close>

definition listed_protocol :: "routing \<times> int \<Rightarrow> (route list \<times> string \<times> int) list" where
  "listed_protocol item =
     (case item of
        (StaticRouting routes, prio) \<Rightarrow> [(routes, ''static'', prio)]
      | (GlobalRouting routes, prio) \<Rightarrow> [(routes, ''global'', prio)]
      | _ \<Rightarrow> [])"

definition routing_protocols :: "routing \<Rightarrow> (route list \<times> string \<times> int) list" where
  "routing_protocols routing =
     (case routing of
        StaticRouting routes \<Rightarrow> [(routes, ''static'', 0)]
      | ListRouting items \<Rightarrow> concat (map listed_protocol items)
      | _ \<Rightarrow> [])"

text \<open>The updates return the new table with the exception that may end them. Without protocols the old rows stay.\<close>

definition update_routing_table :: "sim_view \<Rightarrow> nat \<Rightarrow> row list \<Rightarrow> row list \<times> py_error option" where
  "update_routing_table env node rows =
     (case nn_ipv4 (sv_net env node) of
        None \<Rightarrow> (rows, Some AttributeError)
      | Some ipv4 \<Rightarrow>
          (case ip_routing ipv4 of
             None \<Rightarrow> (rows, None)
           | Some routing \<Rightarrow>
               (let protocols = routing_protocols routing
                in if protocols = [] then (rows, None)
                   else (concat (map (\<lambda>(routes, type_string, prio).
                           map (\<lambda>r. RouteRow (r_dest r) (r_gateway r)
                                      (interface_name (sv_names env) (ip_device ipv4 (r_interface r)) (r_interface r))
                                      type_string prio) routes) protocols), None))))"

definition update_olsr_table :: "sim_view \<Rightarrow> nat \<Rightarrow> row list \<Rightarrow> row list \<times> py_error option" where
  "update_olsr_table env node rows =
     (case nn_olsr (sv_net env node) of
        None \<Rightarrow> (rows, None)
      | Some entries \<Rightarrow>
          (case nn_ipv4 (sv_net env node) of
             None \<Rightarrow> if entries = [] then ([], None) else ([EmptyRow], Some AttributeError)
           | Some ipv4 \<Rightarrow>
               (map (\<lambda>r. OlsrRow (o_dest r) (o_next r)
                          (interface_name (sv_names env) (ip_device ipv4 (o_interface r)) (o_interface r)) (o_distance r))
                  entries, None)))"

definition update_statistics_table :: "sim_view \<Rightarrow> nat \<Rightarrow> row list \<Rightarrow> row list \<times> py_error option" where
  "update_statistics_table env node rows =
     (case get_interface_statistics (sv_period env) (sv_collector env) node of
        Inl e \<Rightarrow> (rows, Some e)
      | Inr stats \<Rightarrow>
          (map (\<lambda>(iface, st). StatsRow (named (sv_names env) (nn_device (sv_net env node) iface) iface) st)
             (enumerate 0 stats), None))"

definition packet_row :: "(nat \<Rightarrow> string) \<Rightarrow> packet_sample \<Rightarrow> row" where
  "packet_row names p =
     PacketRow (p_time p)
       (case p_device p of None \<Rightarrow> ''(unknown)'' | Some (dev, i) \<Rightarrow> named names dev i) (p_size p) (p_text p)"

section \<open>Windows\<close>

datatype window_kind = RoutingWindow | OlsrWindow | StatisticsWindow | PacketsWindow

record window =
  wi_key :: nat
  wi_kind :: window_kind
  wi_node :: nat
  wi_tables :: "row list list"

definition one_table :: "(row list \<Rightarrow> row list \<times> py_error option) \<Rightarrow> window \<Rightarrow> window \<times> py_error option" where
  "one_table f w = (case f (concat (wi_tables w)) of (rows, e) \<Rightarrow> (w\<lparr>wi_tables := [rows]\<rparr>, e))"

definition update_window :: "sim_view \<Rightarrow> window \<Rightarrow> window \<times> py_error option" where
  "update_window env w =
     (case wi_kind w of
        RoutingWindow \<Rightarrow> one_table (update_routing_table env (wi_node w)) w
      | OlsrWindow \<Rightarrow> one_table (update_olsr_table env (wi_node w)) w
      | StatisticsWindow \<Rightarrow> one_table (update_statistics_table env (wi_node w)) w
      | PacketsWindow \<Rightarrow>
          (w\<lparr>wi_tables := map (map (packet_row (sv_names env))) (nn_packets (sv_net env (wi_node w)))\<rparr>, None))"

text \<open>The list of open windows, and which of them the user sees.\<close>

record windows =
  information_windows :: "window list"
  ws_shown :: "nat list"
  ws_next :: nat

fun update_windows :: "sim_view \<Rightarrow> window list \<Rightarrow> window list \<times> py_error option" where
  "update_windows env [] = ([], None)"
| "update_windows env (w # ws) =
     (case update_window env w of
        (w, Some e) \<Rightarrow> (w # ws, Some e)
      | (w, None) \<Rightarrow> (case update_windows env ws of (ws, e) \<Rightarrow> (w # ws, e)))"

definition add_information_window :: "sim_view \<Rightarrow> window \<Rightarrow> windows \<Rightarrow> windows \<times> py_error option" where
  "add_information_window env w s =
     (case update_window env w of (w, e) \<Rightarrow> (s\<lparr>information_windows := information_windows s @ [w]\<rparr>, e))"

text \<open>The constructors: the window is registered, updated, and shown when that went well.\<close>

definition open_window :: "sim_view \<Rightarrow> window_kind \<Rightarrow> nat \<Rightarrow> windows \<Rightarrow> windows \<times> py_error option" where
  "open_window env kind node s =
     (let k = ws_next s
      in case add_information_window env \<lparr>wi_key = k, wi_kind = kind, wi_node = node, wi_tables = []\<rparr> (s\<lparr>ws_next := Suc k\<rparr>) of
           (s, Some e) \<Rightarrow> (s, Some e)
         | (s, None) \<Rightarrow> (s\<lparr>ws_shown := k # ws_shown s\<rparr>, None))"

definition remove_information_window :: "nat \<Rightarrow> windows \<Rightarrow> windows \<times> py_error option" where
  "remove_information_window k s =
     (if k \<in> wi_key ` set (information_windows s)
      then (s\<lparr>information_windows :=
                takeWhile (\<lambda>w. wi_key w \<noteq> k) (information_windows s) @ tl (dropWhile (\<lambda>w. wi_key w \<noteq> k) (information_windows s))\<rparr>,
            None)
      else (s, Some ValueError))"

definition response_cb :: "nat \<Rightarrow> windows \<Rightarrow> windows \<times> py_error option" where
  "response_cb k s = remove_information_window k (s\<lparr>ws_shown := removeAll k (ws_shown s)\<rparr>)"

section \<open>The update of the view\<close>

record view =
  vw_scene :: scene
  vw_windows :: windows
  vw_transmissions :: "arrow list \<times> arrow list \<times> nat"
  vw_drops :: "arrow list \<times> arrow list \<times> nat"
  vw_emitted :: nat                      \<comment> \<open>how often \<^verbatim>\<open>update-view\<close> was emitted\<close>

definition on_arrows ::
  "(arrows \<Rightarrow> arrows \<times> py_error option) \<Rightarrow> scene \<Rightarrow> arrow list \<times> arrow list \<times> nat
    \<Rightarrow> scene \<times> (arrow list \<times> arrow list \<times> nat) \<times> py_error option" where
  "on_arrows f sc a =
     (case a of (xs, lost, next_item) \<Rightarrow>
        case f \<lparr>ar_scene = sc, ar_list = xs, ar_lost = lost, ar_next = next_item\<rparr> of
          (st, e) \<Rightarrow> (ar_scene st, (ar_list st, ar_lost st, ar_next st), e))"

definition update_view ::
  "sim_net \<Rightarrow> sim_view \<Rightarrow> view_env \<Rightarrow> ((nat \<times> nat) \<times> nat) list list \<Rightarrow> (nat \<times> nat) list list
    \<Rightarrow> view \<Rightarrow> view \<times> py_error option" where
  "update_view net env venv last_transmissions last_drops v =
     (let v = v\<lparr>vw_scene := update_node_positions net (vw_scene v)\<rparr>
      in case update_windows env (information_windows (vw_windows v)) of (ws, e) \<Rightarrow>
        (let v = v\<lparr>vw_windows := (vw_windows v)\<lparr>information_windows := ws\<rparr>\<rparr>
         in case e of
              Some e \<Rightarrow> (v, Some e)
            | None \<Rightarrow>
                (case on_arrows (update_transmissions_view venv last_transmissions) (vw_scene v) (vw_transmissions v) of
                   (sc, a, e) \<Rightarrow>
                     (let v = v\<lparr>vw_scene := sc, vw_transmissions := a\<rparr>
                      in case e of
                           Some e \<Rightarrow> (v, Some e)
                         | None \<Rightarrow>
                             (case on_arrows (update_drops_view venv last_drops) (vw_scene v) (vw_drops v) of
                                (sc, a, e) \<Rightarrow>
                                  (let v = v\<lparr>vw_scene := sc, vw_drops := a\<rparr>
                                   in case e of
                                        Some e \<Rightarrow> (v, Some e)
                                      | None \<Rightarrow> (v\<lparr>vw_emitted := Suc (vw_emitted v)\<rparr>, None)))))))"

section \<open>The packet filter\<close>

text \<open>
  Whether a type is a header or a trailer, up its parents; \<open>None\<close> when the parents never end.
\<close>

partial_function (option) climb :: "(nat \<Rightarrow> nat option) \<Rightarrow> nat \<Rightarrow> nat \<Rightarrow> nat \<Rightarrow> bool option" where
  "climb parent header trailer t =
     (if t = header \<or> t = trailer then Some True
      else case parent t of None \<Rightarrow> Some False | Some p \<Rightarrow> climb parent header trailer p)"

fun packet_filter_list :: "(nat \<Rightarrow> nat option) \<Rightarrow> nat \<Rightarrow> nat \<Rightarrow> nat list \<Rightarrow> (nat \<times> bool) list option" where
  "packet_filter_list parent header trailer [] = Some []"
| "packet_filter_list parent header trailer (t # ts) =
     Option.bind (climb parent header trailer t) (\<lambda>type_is_good.
       Option.bind (packet_filter_list parent header trailer ts) (\<lambda>cs.
         Some (if \<not> type_is_good \<or> t = header \<or> t = trailer then cs else (t, True) # cs)))"

text \<open>The filter of a window: the types with their marks, the mode, and the options last given to the simulator.\<close>

record packet_filter =
  pf_list :: "(nat \<times> bool) list"
  pf_and :: bool
  pf_sent :: "(bool \<times> nat \<times> nat list) option"

definition update_capture_options :: "packet_filter \<Rightarrow> packet_filter" where
  "update_capture_options f = f\<lparr>pf_sent := Some (pf_and f, 100, map fst (filter snd (pf_list f)))\<rparr>"

definition sel_all_cb :: "packet_filter \<Rightarrow> packet_filter" where
  "sel_all_cb f = update_capture_options (f\<lparr>pf_list := map (\<lambda>(t, _). (t, True)) (pf_list f)\<rparr>)"

definition sel_none_cb :: "packet_filter \<Rightarrow> packet_filter" where
  "sel_none_cb f = update_capture_options (f\<lparr>pf_list := map (\<lambda>(t, _). (t, False)) (pf_list f)\<rparr>)"

definition cell_edited :: "nat \<Rightarrow> bool \<Rightarrow> packet_filter \<Rightarrow> packet_filter" where
  "cell_edited i b f = update_capture_options (f\<lparr>pf_list := (pf_list f)[i := (fst (pf_list f ! i), b)]\<rparr>)"

definition mode_toggled :: "packet_filter \<Rightarrow> packet_filter" where
  "mode_toggled f = update_capture_options (f\<lparr>pf_and := \<not> pf_and f\<rparr>)"

definition new_packet_filter :: "(nat \<Rightarrow> nat option) \<Rightarrow> nat \<Rightarrow> nat \<Rightarrow> nat list \<Rightarrow> packet_filter option" where
  "new_packet_filter parent header trailer registered =
     Option.bind (packet_filter_list parent header trailer registered) (\<lambda>cs.
       Some (update_capture_options \<lparr>pf_list = cs, pf_and = False, pf_sent = None\<rparr>))"

inductive filter_run :: "packet_filter \<Rightarrow> packet_filter \<Rightarrow> bool" for f where
  filter_start: "filter_run f f"
| filter_all: "filter_run f g \<Longrightarrow> filter_run f (sel_all_cb g)"
| filter_none: "filter_run f g \<Longrightarrow> filter_run f (sel_none_cb g)"
| filter_edit: "filter_run f g \<Longrightarrow> i < length (pf_list g) \<Longrightarrow> filter_run f (cell_edited i b g)"
| filter_mode: "filter_run f g \<Longrightarrow> filter_run f (mode_toggled g)"

abbreviation parents :: "(nat \<Rightarrow> nat option) \<Rightarrow> (nat \<times> nat) set" where
  "parents parent \<equiv> {(t, p). parent t = Some p}"

lemma climb_correct:
  assumes "wf ((parents parent)\<inverse>)"
  shows "climb parent header trailer t
    = Some ((t, header) \<in> (parents parent)\<^sup>* \<or> (t, trailer) \<in> (parents parent)\<^sup>*)"
  using assms
proof (induction t rule: wf_induct_rule)
  case (less t)
  show ?case
  proof (cases "t = header \<or> t = trailer")
    case True
    then show ?thesis by (subst climb.simps) auto
  next
    case False
    then have up: "(t, c) \<in> (parents parent)\<^sup>* \<longleftrightarrow> (\<exists>p. parent t = Some p \<and> (p, c) \<in> (parents parent)\<^sup>*)"
      if "c = header \<or> c = trailer" for c
      using that by (auto elim: converse_rtranclE intro: converse_rtrancl_into_rtrancl)
    show ?thesis
    proof (cases "parent t")
      case None
      with False up show ?thesis by (subst climb.simps) simp
    next
      case (Some p)
      with False up less [of p] show ?thesis by (subst climb.simps) simp
    qed
  qed
qed

text \<open>The types the window should offer: those properly below one of the two.\<close>

definition header_type :: "(nat \<Rightarrow> nat option) \<Rightarrow> nat \<Rightarrow> nat \<Rightarrow> nat \<Rightarrow> bool" where
  "header_type parent header trailer t \<longleftrightarrow> t \<noteq> header \<and> t \<noteq> trailer
     \<and> ((t, header) \<in> (parents parent)\<^sup>+ \<or> (t, trailer) \<in> (parents parent)\<^sup>+)"

lemma climb_header_type:
  assumes "wf ((parents parent)\<inverse>)"
  shows "climb parent header trailer t = Some (t = header \<or> t = trailer \<or> header_type parent header trailer t)"
  unfolding climb_correct [OF assms] header_type_def rtrancl_eq_or_trancl by blast

lemma packet_filter_list_correct:
  assumes "wf ((parents parent)\<inverse>)"
  shows "packet_filter_list parent header trailer ts
    = Some (map (\<lambda>t. (t, True)) (filter (header_type parent header trailer) ts))"
proof (induction ts)
  case (Cons t ts)
  have "header_type parent header trailer t \<Longrightarrow> t \<noteq> header \<and> t \<noteq> trailer" by (simp add: header_type_def)
  with Cons show ?case by (auto simp: climb_header_type [OF assms])
qed simp

lemma filter_run_sent:
  assumes "filter_run (update_capture_options f) g"
  shows "map fst (pf_list g) = map fst (pf_list f) \<and> pf_sent g = Some (pf_and g, 100, map fst (filter snd (pf_list g)))"
  using assms
proof induction
  case (filter_edit g i b)
  then have "map fst ((pf_list g)[i := (fst (pf_list g ! i), b)]) = map fst (pf_list g)"
    by (simp add: map_update) (metis length_map list_update_id nth_map)
  with filter_edit show ?case by (simp add: cell_edited_def update_capture_options_def)
qed (simp_all add: update_capture_options_def sel_all_cb_def sel_none_cb_def mode_toggled_def comp_def case_prod_beta)

text \<open>
  Claim C37: the window offers exactly the registered types below \<^verbatim>\<open>ns3::Header\<close> or \<^verbatim>\<open>ns3::Trailer\<close>, in
  the order of their registration (the climb to the parents ends, since no type is its own ancestor),
  and after whatever clicks the simulator has the options that the window shows.
\<close>
theorem packet_filter_correct:
  assumes "wf ((parents parent)\<inverse>)"
  shows "\<exists>f. new_packet_filter parent header trailer registered = Some f
    \<and> (\<forall>g. filter_run f g \<longrightarrow>
        map fst (pf_list g) = filter (header_type parent header trailer) registered
        \<and> pf_sent g = Some (pf_and g, 100, map fst (filter snd (pf_list g))))"
proof -
  let ?ts = "filter (header_type parent header trailer) registered"
  let ?f = "\<lparr>pf_list = map (\<lambda>t. (t, True)) ?ts, pf_and = False, pf_sent = None\<rparr>"
  have "new_packet_filter parent header trailer registered = Some (update_capture_options ?f)"
    unfolding new_packet_filter_def packet_filter_list_correct [OF assms] by simp
  moreover have ts: "map fst (pf_list ?f) = ?ts" by (simp add: comp_def)
  have "\<forall>g. filter_run (update_capture_options ?f) g \<longrightarrow>
      map fst (pf_list g) = ?ts \<and> pf_sent g = Some (pf_and g, 100, map fst (filter snd (pf_list g)))"
    using filter_run_sent [of ?f] unfolding ts by blast
  ultimately show ?thesis by (intro exI conjI)
qed

definition sample_parents :: "nat \<Rightarrow> nat option" where
  "sample_parents t = (if t = 3 then Some 2 else if t = 2 then Some 1 else None)"

lemma packet_filter_correct_witness:
  "\<exists>f. new_packet_filter sample_parents 1 5 [1, 2, 3, 4, 5] = Some f
    \<and> pf_sent (sel_none_cb f) = Some (pf_and (sel_none_cb f), 100, map fst (filter snd (pf_list (sel_none_cb f))))"
proof -
  have "(parents sample_parents)\<inverse> \<subseteq> less_than" by (auto simp: sample_parents_def split: if_split_asm)
  then have wf: "wf ((parents sample_parents)\<inverse>)" by (rule wf_subset [OF wf_less_than])
  from packet_filter_correct [OF wf, of 1 5 "[1, 2, 3, 4, 5]"] obtain f where
    f: "new_packet_filter sample_parents 1 5 [1, 2, 3, 4, 5] = Some f"
    and run: "\<forall>g. filter_run f g \<longrightarrow> map fst (pf_list g) = filter (header_type sample_parents 1 5) [1, 2, 3, 4, 5]
      \<and> pf_sent g = Some (pf_and g, 100, map fst (filter snd (pf_list g)))" by (elim exE conjE)
  from run filter_none [OF filter_start, of f] show ?thesis by (intro exI conjI) (rule f, simp)
qed

section \<open>A window that cannot be updated\<close>

definition no_windows :: windows where
  "no_windows = \<lparr>information_windows = [], ws_shown = [], ws_next = 0\<rparr>"

text \<open>The user opens windows, closes windows that are shown, and the view is updated.\<close>

inductive windows_run :: "windows \<Rightarrow> windows \<Rightarrow> bool" for s where
  run_none: "windows_run s s"
| run_open: "windows_run s t \<Longrightarrow> windows_run s (fst (open_window env kind node t))"
| run_close: "windows_run s t \<Longrightarrow> k \<in> set (ws_shown t) \<Longrightarrow> windows_run s (fst (response_cb k t))"
| run_update: "windows_run s t \<Longrightarrow> windows_run s (t\<lparr>information_windows := fst (update_windows env (information_windows t))\<rparr>)"

definition window_id :: "window \<Rightarrow> nat \<times> window_kind \<times> nat" where
  "window_id w = (wi_key w, wi_kind w, wi_node w)"

lemma update_window_id: "window_id (fst (update_window env w)) = window_id w"
  by (auto simp: update_window_def one_table_def window_id_def split: window_kind.split prod.split)

lemma update_windows_id: "map window_id (fst (update_windows env ws)) = map window_id ws"
proof (induction ws)
  case (Cons w ws)
  then show ?case using update_window_id [of env w]
    by (auto split: prod.split option.split)
qed simp

lemma update_windows_None: "snd (update_windows env ws) = None \<longleftrightarrow> (\<forall>w \<in> set ws. snd (update_window env w) = None)"
  by (induction ws) (auto split: prod.split option.split)

lemma open_window_simps:
  "ws_next (fst (open_window env kind node s)) = Suc (ws_next s)"
  "set (ws_shown (fst (open_window env kind node s))) \<subseteq> insert (ws_next s) (set (ws_shown s))"
  "map window_id (information_windows (fst (open_window env kind node s)))
    = map window_id (information_windows s) @ [(ws_next s, kind, node)]"
  using update_window_id [of env "\<lparr>wi_key = ws_next s, wi_kind = kind, wi_node = node, wi_tables = []\<rparr>"]
  by (auto simp: open_window_def add_information_window_def Let_def window_id_def split: prod.split option.split)

lemma response_cb_simps:
  "ws_next (fst (response_cb k s)) = ws_next s"
  "ws_shown (fst (response_cb k s)) = removeAll k (ws_shown s)"
  by (simp_all add: response_cb_def remove_information_window_def)

lemma remove_keeps:
  assumes "w \<in> set ws" and "wi_key w \<noteq> k"
  shows "w \<in> set (takeWhile (\<lambda>w. wi_key w \<noteq> k) ws @ tl (dropWhile (\<lambda>w. wi_key w \<noteq> k) ws))"
  using assms by (induction ws) auto

lemma response_cb_keeps:
  assumes "w \<in> set (information_windows s)" and "wi_key w \<noteq> k"
  shows "w \<in> set (information_windows (fst (response_cb k s)))"
  using remove_keeps [OF assms] assms(1) by (simp add: response_cb_def remove_information_window_def)

definition stuck_window :: "nat \<times> window_kind \<times> nat \<Rightarrow> windows \<Rightarrow> bool" where
  "stuck_window i s \<longleftrightarrow> i \<in> set (map window_id (information_windows s)) \<and> fst i \<notin> set (ws_shown s) \<and> fst i < ws_next s"

lemma windows_run_shown:
  assumes "windows_run no_windows s" and "k \<in> set (ws_shown s)"
  shows "k < ws_next s"
  using assms
proof induction
  case (run_open t env kind node)
  then show ?case using open_window_simps(2) [of env kind node t] by (auto simp: open_window_simps(1) less_Suc_eq)
qed (auto simp: no_windows_def response_cb_simps)

lemma windows_run_stuck:
  assumes "windows_run s t" and "stuck_window i s"
  shows "stuck_window i t"
  using assms
proof induction
  case (run_open t env kind node)
  then show ?case using open_window_simps(2) [of env kind node t]
    unfolding stuck_window_def open_window_simps(1,3) by auto
next
  case (run_close t k)
  then obtain w where "w \<in> set (information_windows t)" "i = window_id w" by (auto simp: stuck_window_def)
  moreover have "wi_key w \<noteq> k" using run_close calculation by (auto simp: stuck_window_def window_id_def)
  ultimately have "window_id w \<in> window_id ` set (information_windows (fst (response_cb k t)))"
    using response_cb_keeps by blast
  then show ?case using run_close \<open>i = window_id w\<close> by (simp add: stuck_window_def response_cb_simps)
qed (simp_all add: stuck_window_def update_windows_id)

lemma routing_window_fails:
  assumes "nn_ipv4 (sv_net env n) = None" and "window_id w = (k, RoutingWindow, n)"
  shows "snd (update_window env w) = Some AttributeError"
  using assms by (simp add: window_id_def update_window_def one_table_def update_routing_table_def)

lemma open_routing_window:
  assumes "nn_ipv4 (sv_net env n) = None"
  shows "snd (open_window env RoutingWindow n s) = Some AttributeError"
    and "ws_shown (fst (open_window env RoutingWindow n s)) = ws_shown s"
  using assms
  by (simp_all add: open_window_def add_information_window_def update_window_def one_table_def update_routing_table_def Let_def)

text \<open>
  Claim C19: one routing table of a node without IPv4 stops the whole view. Its constructor raises after
  the window was registered and before it is shown, so the user cannot close it; from then on, whatever
  is opened and closed, every update of the view raises, the arrows of transmissions and drops stay
  as they are, and \<^verbatim>\<open>update-view\<close> is not emitted to the plugins.
\<close>
theorem unseen_window_blocks_view:
  assumes "windows_run no_windows s" and "nn_ipv4 (sv_net env n) = None"
    and "open_window env RoutingWindow n s = (t, e)" and "windows_run t (vw_windows v)"
    and "nn_ipv4 (sv_net env' n) = None"
  shows "e = Some AttributeError \<and> ws_shown t = ws_shown s
    \<and> (\<exists>v' e'. update_view net env' venv sent dropped v = (v', Some e')
        \<and> vw_transmissions v' = vw_transmissions v \<and> vw_drops v' = vw_drops v \<and> vw_emitted v' = vw_emitted v)"
proof -
  have t: "t = fst (open_window env RoutingWindow n s)" "e = snd (open_window env RoutingWindow n s)"
    using assms(3) by simp_all
  let ?i = "(ws_next s, RoutingWindow, n)"
  have "ws_next s \<notin> set (ws_shown s)" using windows_run_shown [OF assms(1)] by blast
  then have "stuck_window ?i t"
    unfolding stuck_window_def t(1) open_window_simps(1,3) open_routing_window(2) [OF assms(2)] by simp
  from windows_run_stuck [OF assms(4) this] obtain w where
    w: "w \<in> set (information_windows (vw_windows v))" "window_id w = ?i" by (auto simp: stuck_window_def)
  from routing_window_fails [OF assms(5) w(2)] w(1) have "snd (update_windows env' (information_windows (vw_windows v))) \<noteq> None"
    unfolding update_windows_None by force
  then obtain ws e' where ws: "update_windows env' (information_windows (vw_windows v)) = (ws, Some e')" by (metis not_None_eq prod.collapse)
  show ?thesis
    using open_routing_window [OF assms(2)] by (simp add: t update_view_def ws Let_def)
qed

text \<open>Without such a window the updates of the windows do not stop the view.\<close>

lemma update_view_windows_ok:
  assumes "\<And>w. w \<in> set (information_windows (vw_windows v)) \<Longrightarrow> snd (update_window env w) = None"
    and "positive_samples sent" and "e_period venv > 0"
  shows "\<exists>st. update_transmissions_view venv sent
      \<lparr>ar_scene = update_node_positions net (vw_scene v), ar_list = fst (vw_transmissions v),
       ar_lost = fst (snd (vw_transmissions v)), ar_next = snd (snd (vw_transmissions v))\<rparr> = (st, None)
    \<and> vw_transmissions (fst (update_view net env venv sent dropped v)) = (ar_list st, ar_lost st, ar_next st)"
proof -
  obtain ws where ws: "update_windows env (information_windows (vw_windows v)) = (ws, None)"
    using assms(1) update_windows_None [of env "information_windows (vw_windows v)"] by (metis prod.collapse)
  obtain xs lost k where a: "vw_transmissions v = (xs, lost, k)" by (rule prod_cases3)
  let ?st = "\<lparr>ar_scene = update_node_positions net (vw_scene v), ar_list = xs, ar_lost = lost, ar_next = k\<rparr>"
  obtain st where "update_transmissions_view venv sent ?st = (st, None)"
    using transmissions_view_ok [OF assms(2,3), of ?st] by blast
  then show ?thesis
    by (auto simp: a update_view_def ws Let_def on_arrows_def split: prod.split option.split)
qed

definition bare_view :: sim_view where
  "bare_view = \<lparr>sv_net = \<lambda>_. \<lparr>nn_ipv4 = None, nn_olsr = None, nn_device = \<lambda>i. i, nn_packets = []\<rparr>,
     sv_names = \<lambda>_. '''', sv_collector = [], sv_period = 1\<rparr>"

lemma unseen_window_blocks_view_witness:
  "\<exists>t. open_window bare_view RoutingWindow 0 no_windows = (t, Some AttributeError) \<and> ws_shown t = []"
proof -
  obtain t e where t: "open_window bare_view RoutingWindow 0 no_windows = (t, e)" by (meson surj_pair)
  have bare: "nn_ipv4 (sv_net bare_view 0) = None" by (simp add: bare_view_def)
  let ?v = "\<lparr>vw_scene = empty_scene 0, vw_windows = t, vw_transmissions = ([], [], 0), vw_drops = ([], [], 0), vw_emitted = 0\<rparr>"
  have "windows_run t (vw_windows ?v)" by (simp add: run_none)
  from unseen_window_blocks_view [OF run_none bare t this bare] t show ?thesis by (auto simp: no_windows_def)
qed

end
