(* ===== verification/Viz_View.thy ===== *)
theory Viz_View
  imports Viz_Invariant
begin

text \<open>
  Moving about in the window of the visualizer, \<^verbatim>\<open>visualizer/visualizer/core.py\<close>: zoom, the initial
  scaling, centring and following a node, panning with the mouse, and dragging a node; and the loading
  of the plugins in \<^verbatim>\<open>base.py\<close>. The conversion between canvas units and pixels, the ranges of the
  scroll bars, and the values they take when the scale changes belong to the canvas library and are
  parameters (record \<open>canvas\<close>).
\<close>

section \<open>Scroll bars and zoom\<close>

record viewport =
  vp_zoom :: rat
  vp_h :: rat
  vp_v :: rat
  vp_hpage :: rat
  vp_vpage :: rat

record canvas =
  cv_to_px :: "rat \<Rightarrow> point \<Rightarrow> point"
  cv_from_px :: "rat \<Rightarrow> point \<Rightarrow> point"
  cv_hrange :: "rat \<Rightarrow> rat \<times> rat"
  cv_vrange :: "rat \<Rightarrow> rat \<times> rat"
  cv_rescaled :: "rat \<Rightarrow> viewport \<Rightarrow> rat \<times> rat"

text \<open>An adjustment keeps its value between its lower end and its upper end less the page.\<close>

definition set_value :: "rat \<times> rat \<Rightarrow> rat \<Rightarrow> rat \<Rightarrow> rat" where
  "set_value ends page v = max (fst ends) (min v (snd ends - page))"

definition set_scroll :: "canvas \<Rightarrow> point \<Rightarrow> viewport \<Rightarrow> viewport" where
  "set_scroll c p vp = vp\<lparr>vp_h := set_value (cv_hrange c (vp_zoom vp)) (vp_hpage vp) (fst p),
                          vp_v := set_value (cv_vrange c (vp_zoom vp)) (vp_vpage vp) (snd p)\<rparr>"

text \<open>The adjustment of the zoom goes from 0.01 to 10 with a page of 1; a change sets the scale of the canvas.\<close>

definition set_zoom :: "canvas \<Rightarrow> rat \<Rightarrow> viewport \<Rightarrow> viewport" where
  "set_zoom c z vp =
     (let z = set_value (1 / 100, 10) 1 z
      in if z = vp_zoom vp then vp
         else (case cv_rescaled c z vp of (h, v) \<Rightarrow> vp\<lparr>vp_zoom := z, vp_h := h, vp_v := v\<rparr>))"

datatype scroll_direction = ScrollUp | ScrollDown | ScrollOther

definition canvas_scroll_event :: "canvas \<Rightarrow> scroll_direction \<Rightarrow> viewport \<Rightarrow> bool \<times> viewport" where
  "canvas_scroll_event c d vp =
     (case d of
        ScrollUp \<Rightarrow> (True, set_zoom c (vp_zoom vp * (5 / 4)) vp)
      | ScrollDown \<Rightarrow> (True, set_zoom c (vp_zoom vp / (5 / 4)) vp)
      | ScrollOther \<Rightarrow> (False, vp))"

definition scroll_to :: "canvas \<Rightarrow> point \<Rightarrow> viewport \<Rightarrow> viewport" where
  "scroll_to c p vp = set_scroll c (cv_to_px c (vp_zoom vp) p) vp"

text \<open>\<^verbatim>\<open>autoscale_view\<close>, after it has updated the positions of the nodes.\<close>

definition autoscale_view :: "canvas \<Rightarrow> point list \<Rightarrow> viewport \<Rightarrow> viewport" where
  "autoscale_view c positions vp =
     (if positions = [] then vp
      else
        let min_x = Min (set (map fst positions)); min_y = Min (set (map snd positions));
            max_x = Max (set (map fst positions)); max_y = Max (set (map snd positions));
            (min_x_px, min_y_px) = cv_to_px c (vp_zoom vp) (min_x, min_y);
            (max_x_px, max_y_px) = cv_to_px c (vp_zoom vp) (max_x, max_y);
            new_dx = 3 / 2 * (max_x_px - min_x_px); new_dy = 3 / 2 * (max_y_px - min_y_px)
        in if new_dx = 0 \<or> new_dy = 0 then vp
           else
             let vp = set_zoom c (min (vp_hpage vp / new_dx) (vp_vpage vp / new_dy)) vp;
                 (x1, y1) = cv_from_px c (vp_zoom vp) (vp_h vp, vp_v vp);
                 (x2, y2) = cv_from_px c (vp_zoom vp) (vp_h vp + vp_hpage vp, vp_v vp + vp_vpage vp);
                 width = x2 - x1; height = y2 - y1;
                 center_x = (min_x + max_x) / 2; center_y = (min_y + max_y) / 2
             in scroll_to c (center_x - width / 2, center_y - height / 2) vp)"

text \<open>\<^verbatim>\<open>center_on_node\<close>, and the scroll bars that follow a node in \<^verbatim>\<open>_update_node_positions\<close>.\<close>

definition center_on :: "canvas \<Rightarrow> point \<Rightarrow> viewport \<Rightarrow> viewport" where
  "center_on c p vp =
     (case cv_to_px c (vp_zoom vp) p of
        (px, py) \<Rightarrow> set_scroll c (px - vp_hpage vp / 2, py - vp_vpage vp / 2) vp)"

definition center_on_node :: "canvas \<Rightarrow> node_arg \<Rightarrow> scene \<Rightarrow> viewport \<Rightarrow> py_error + viewport" where
  "center_on_node c a s vp =
     (if a = ArgNone then Inl TypeError
      else res_bind (resolve_node a s) (\<lambda>node.
        case node of None \<Rightarrow> Inl TypeError | Some k \<Rightarrow> Inr (center_on c (nv_pos (node_of s k)) vp)))"

definition follow_position :: "canvas \<Rightarrow> sim_net \<Rightarrow> nat option \<Rightarrow> nat \<Rightarrow> scene \<times> viewport \<Rightarrow> scene \<times> viewport" where
  "follow_position c net follow k st =
     (case st of (s, vp) \<Rightarrow>
        case has_mobility net k s of (b, s) \<Rightarrow>
          case (b, sn_pos (net_nodes net ! k)) of
            (True, Some (x, y)) \<Rightarrow>
              (let p = transform_point_simulation_to_canvas x y
               in (set_position k p s, if follow = Some k then center_on c p vp else vp))
          | _ \<Rightarrow> (s, vp))"

definition follow_positions :: "canvas \<Rightarrow> sim_net \<Rightarrow> nat option \<Rightarrow> scene \<times> viewport \<Rightarrow> scene \<times> viewport" where
  "follow_positions c net follow st = fold (follow_position c net follow) (dkeys (s_nodes (fst st))) st"

section \<open>Panning\<close>

record panning =
  initial_mouse_pos :: point
  initial_canvas_pos :: point

definition begin_panning :: "point \<Rightarrow> viewport \<Rightarrow> panning" where
  "begin_panning mouse vp = \<lparr>initial_mouse_pos = mouse, initial_canvas_pos = (vp_h vp, vp_v vp)\<rparr>"

definition panning_motion :: "canvas \<Rightarrow> panning option \<Rightarrow> point \<Rightarrow> viewport \<Rightarrow> py_error + viewport" where
  "panning_motion c st mouse vp =
     (case st of
        None \<Rightarrow> Inl AssertionError
      | Some p \<Rightarrow>
          (let dx = fst mouse - fst (initial_mouse_pos p); dy = snd mouse - snd (initial_mouse_pos p)
           in Inr (set_scroll c (fst (initial_canvas_pos p) - dx, snd (initial_canvas_pos p) - dy) vp)))"

section \<open>Dragging a node\<close>

text \<open>The mobility models of the nodes keep three coordinates; a node without one cannot be dragged.\<close>

record drag_state =
  dg_canvas0 :: point
  dg_sim0 :: point
  dg_node :: nat                         \<comment> \<open>where the motion handler is connected\<close>

record dragging =
  dr_scene :: scene
  dr_mobility :: "nat \<Rightarrow> (rat \<times> rat \<times> rat) option"
  dr_state :: "drag_state option"
  dr_handlers :: "nat list"

text \<open>The mouse is given in canvas units, as converted from the pixels of the pointer.\<close>

definition begin_node_drag :: "nat \<Rightarrow> point \<Rightarrow> dragging \<Rightarrow> dragging" where
  "begin_node_drag k mouse s =
     (case (dr_mobility s k, dr_state s) of
        (Some (x, y, z), None) \<Rightarrow>
          s\<lparr>dr_state := Some \<lparr>dg_canvas0 = mouse, dg_sim0 = (x, y), dg_node = k\<rparr>, dr_handlers := k # dr_handlers s\<rparr>
      | _ \<Rightarrow> s)"

definition node_drag_motion :: "nat \<Rightarrow> point \<Rightarrow> dragging \<Rightarrow> bool \<times> dragging" where
  "node_drag_motion k mouse s =
     (case (dr_mobility s k, dr_state s) of
        (Some (x, y, z), Some d) \<Rightarrow>
          (let dx = fst mouse - fst (dg_canvas0 d); dy = snd mouse - snd (dg_canvas0 d);
               x = fst (dg_sim0 d) + transform_distance_canvas_to_simulation dx;
               y = snd (dg_sim0 d) + transform_distance_canvas_to_simulation dy
           in (True, s\<lparr>dr_mobility := (dr_mobility s)(k := Some (x, y, z)),
                        dr_scene := set_position k (transform_point_simulation_to_canvas x y) (dr_scene s)\<rparr>))
      | _ \<Rightarrow> (False, s))"

definition end_node_drag :: "nat \<Rightarrow> dragging \<Rightarrow> dragging" where
  "end_node_drag k s =
     (case dr_state s of
        None \<Rightarrow> s
      | Some d \<Rightarrow> s\<lparr>dr_handlers := (if dg_node d = k then remove1 k (dr_handlers s) else dr_handlers s), dr_state := None\<rparr>)"

definition on_node_button_press_event :: "nat \<Rightarrow> nat \<Rightarrow> point \<Rightarrow> dragging \<Rightarrow> py_error + bool \<times> dragging" where
  "on_node_button_press_event k button mouse s =
     (if button = 1 then res_bind (select_node (ArgNode k) (dr_scene s)) (\<lambda>sc. Inr (True, s\<lparr>dr_scene := sc\<rparr>))
      else if button = 3 then Inr (True, s)
      else if button = 2 then Inr (True, begin_node_drag k mouse s)
      else Inr (False, s))"

definition on_node_button_release_event :: "nat \<Rightarrow> nat \<Rightarrow> dragging \<Rightarrow> bool \<times> dragging" where
  "on_node_button_release_event k button s = (if button = 2 then (True, end_node_drag k s) else (False, s))"

section \<open>Plugins\<close>

text \<open>What the import of a file of the plugin directory gives; an exception that is no \<^verbatim>\<open>ImportError\<close> is not caught.\<close>

datatype 'f plugin_import = ImportFails | ImportRaises py_error | NoRegister | Registers 'f

datatype load_message = CouldNotLoad string | HasNoRegister string

record 'f plugin_state =
  plugins :: "'f list"
  plugin_modules :: "(string, 'f) dict"
  plugins_loaded :: bool
  load_messages :: "load_message list"
  sys_path :: "string list"

definition register_plugin :: "'f \<Rightarrow> string \<Rightarrow> 'f plugin_state \<Rightarrow> 'f plugin_state" where
  "register_plugin f name s = s\<lparr>plugins := plugins s @ [f], plugin_modules := dset name f (plugin_modules s)\<rparr>"

fun load_files ::
  "(string \<Rightarrow> 'f plugin_import) \<Rightarrow> (string \<times> string) list \<Rightarrow> 'f plugin_state \<Rightarrow> 'f plugin_state \<times> py_error option" where
  "load_files imp [] s = (s, None)"
| "load_files imp ((name, ext) # files) s =
     (if ext \<noteq> ''.py'' then load_files imp files s
      else case imp name of
             ImportFails \<Rightarrow> load_files imp files (s\<lparr>load_messages := load_messages s @ [CouldNotLoad name]\<rparr>)
           | ImportRaises e \<Rightarrow> (s, Some e)
           | NoRegister \<Rightarrow> load_files imp files (s\<lparr>load_messages := load_messages s @ [HasNoRegister name]\<rparr>)
           | Registers f \<Rightarrow> load_files imp files (register_plugin f name s))"

definition load_plugins ::
  "string \<Rightarrow> (string \<Rightarrow> 'f plugin_import) \<Rightarrow> (string \<times> string) list \<Rightarrow> 'f plugin_state \<Rightarrow> 'f plugin_state \<times> py_error option" where
  "load_plugins plugins_dir imp files s =
     (if plugins_loaded s then (s, None)
      else case load_files imp files (s\<lparr>plugins_loaded := True, sys_path := plugins_dir # sys_path s\<rparr>) of
             (t, None) \<Rightarrow> (t\<lparr>sys_path := sys_path s\<rparr>, None)
           | (t, Some e) \<Rightarrow> (t, Some e))"

lemma load_files_plugins:
  assumes "load_files imp files s = (t, None)"
  shows "plugins t = plugins s @ concat (map (\<lambda>(name, ext). if ext = ''.py'' then
      (case imp name of Registers f \<Rightarrow> [f] | _ \<Rightarrow> []) else []) files)"
    and "plugins_loaded t = plugins_loaded s"
  using assms
  by (induction imp files s rule: load_files.induct) (auto simp: register_plugin_def split: if_split_asm plugin_import.splits)

text \<open>Plugins are loaded once; an exception other than \<^verbatim>\<open>ImportError\<close> leaves the directory in the path and is not tried again.\<close>

lemma load_plugins_once:
  assumes "load_plugins dir imp files s = (t, e)"
  shows "load_plugins dir imp' files' t = (t, None)"
proof -
  have "plugins_loaded (fst (load_files imp files u)) = plugins_loaded u" for u
    by (induction imp files u rule: load_files.induct) (auto simp: register_plugin_def split: plugin_import.splits)
  from this [of "s\<lparr>plugins_loaded := True, sys_path := dir # sys_path s\<rparr>"] assms show ?thesis
    by (auto simp: load_plugins_def split: if_split_asm prod.split_asm option.split_asm)
qed

section \<open>A dragged node follows the mouse\<close>

lemma set_position_pos: "nv_pos (node_of (set_position k p s) j) = (if j = k then p else nv_pos (node_of s j))"
proof -
  have "node_of (fold update_points ls u) j = node_of u j" for ls u
    by (simp add: node_of_def)
  then show ?thesis
    by (auto simp: set_position_def Let_def node_of_def split: option.split)
qed

definition drag_motions :: "nat \<Rightarrow> point list \<Rightarrow> dragging \<Rightarrow> dragging" where
  "drag_motions k ms s = fold (\<lambda>m s. snd (node_drag_motion k m s)) ms s"

lemma drag_motions_last:
  assumes "dr_mobility s k = Some (x, y, z)" and "dr_state s = Some d"
  shows "dr_state (drag_motions k ms s) = Some d \<and> dr_handlers (drag_motions k ms s) = dr_handlers s
    \<and> (\<forall>j. j \<noteq> k \<longrightarrow> dr_mobility (drag_motions k ms s) j = dr_mobility s j)
    \<and> (if ms = [] then drag_motions k ms s = s
       else let x' = fst (dg_sim0 d) + transform_distance_canvas_to_simulation (fst (last ms) - fst (dg_canvas0 d));
                y' = snd (dg_sim0 d) + transform_distance_canvas_to_simulation (snd (last ms) - snd (dg_canvas0 d))
            in dr_mobility (drag_motions k ms s) k = Some (x', y', z)
              \<and> nv_pos (node_of (dr_scene (drag_motions k ms s)) k) = transform_point_simulation_to_canvas x' y')"
  using assms
proof (induction ms arbitrary: s x y)
  case (Cons m ms)
  let ?s = "snd (node_drag_motion k m s)"
  have drag: "drag_motions k (m # ms) s = drag_motions k ms ?s" by (simp add: drag_motions_def)
  obtain x' y' where s: "dr_mobility ?s k = Some (x', y', z)" "dr_state ?s = Some d" "dr_handlers ?s = dr_handlers s"
    "\<forall>j. j \<noteq> k \<longrightarrow> dr_mobility ?s j = dr_mobility s j"
    "x' = fst (dg_sim0 d) + transform_distance_canvas_to_simulation (fst m - fst (dg_canvas0 d))"
    "y' = snd (dg_sim0 d) + transform_distance_canvas_to_simulation (snd m - snd (dg_canvas0 d))"
    "nv_pos (node_of (dr_scene ?s) k) = transform_point_simulation_to_canvas x' y'"
    using Cons.prems by (simp add: node_drag_motion_def Let_def set_position_pos)
  note IH = Cons.IH [OF s(1,2)]
  show ?case
  proof (cases "ms = []")
    case True
    with s show ?thesis unfolding drag by (simp add: drag_motions_def Let_def)
  next
    case False
    with IH s(3,4) show ?thesis unfolding drag by (simp add: Let_def)
  qed
qed (simp add: drag_motions_def)

text \<open>
  Claim C32: a drag with any number of motions moves the mobility model of the node by the way of the mouse
  from its press to its last motion, divided by the scale, and leaves the third coordinate; the node
  stands where its mobility model says, which the inverse transformation gives back; it has moved on
  the canvas exactly as far as the mouse if it stood there before; and nothing of the drag is left.
\<close>
theorem drag_follows_mouse:
  assumes "dr_mobility s k = Some (x, y, z)" and "dr_state s = None" and "ms \<noteq> []"
    and "t = end_node_drag k (drag_motions k ms (begin_node_drag k mouse s))"
  shows "let x' = x + (fst (last ms) - fst mouse) / pixels_per_meter;
             y' = y + (snd (last ms) - snd mouse) / pixels_per_meter;
             p = nv_pos (node_of (dr_scene s) k); q = nv_pos (node_of (dr_scene t) k)
         in dr_mobility t = (dr_mobility s)(k := Some (x', y', z))
          \<and> transform_point_canvas_to_simulation (fst q) (snd q) = (x', y')
          \<and> (p = transform_point_simulation_to_canvas x y \<longrightarrow>
              fst q - fst p = fst (last ms) - fst mouse \<and> snd q - snd p = snd (last ms) - snd mouse)
          \<and> dr_state t = None \<and> dr_handlers t = dr_handlers s"
proof -
  let ?d = "\<lparr>dg_canvas0 = mouse, dg_sim0 = (x, y), dg_node = k\<rparr>"
  let ?s = "s\<lparr>dr_state := Some ?d, dr_handlers := k # dr_handlers s\<rparr>"
  have b: "begin_node_drag k mouse s = ?s" using assms(1,2) by (simp add: begin_node_drag_def)
  have ppm: "pixels_per_meter \<noteq> 0" by (simp add: pixels_per_meter_def)
  from drag_motions_last [of ?s k x y z ?d ms] assms(1,3) have
    m: "dr_state (drag_motions k ms ?s) = Some ?d" "dr_handlers (drag_motions k ms ?s) = k # dr_handlers s"
      "\<forall>j. j \<noteq> k \<longrightarrow> dr_mobility (drag_motions k ms ?s) j = dr_mobility s j"
      "dr_mobility (drag_motions k ms ?s) k = Some (x + (fst (last ms) - fst mouse) / pixels_per_meter,
         y + (snd (last ms) - snd mouse) / pixels_per_meter, z)"
      "nv_pos (node_of (dr_scene (drag_motions k ms ?s)) k) = transform_point_simulation_to_canvas
        (x + (fst (last ms) - fst mouse) / pixels_per_meter) (y + (snd (last ms) - snd mouse) / pixels_per_meter)"
    by (auto simp: Let_def transform_distance_canvas_to_simulation_def)
  have t: "t = (drag_motions k ms ?s)\<lparr>dr_handlers := dr_handlers s, dr_state := None\<rparr>"
    using m(1,2) by (simp add: assms(4) b end_node_drag_def)
  have "dr_mobility t = (dr_mobility s)(k := Some (x + (fst (last ms) - fst mouse) / pixels_per_meter,
         y + (snd (last ms) - snd mouse) / pixels_per_meter, z))"
    using m(3,4) by (auto simp: t)
  with m(5) ppm show ?thesis
    by (auto simp: t Let_def transform_point_simulation_to_canvas_def transform_point_canvas_to_simulation_def field_simps)
qed

lemma drag_follows_mouse_witness:
  "\<exists>t :: dragging. dr_mobility t 0 = Some (3, 4 + 2 / pixels_per_meter, 5) \<and> dr_state t = None"
proof -
  let ?s = "\<lparr>dr_scene = empty_scene 1, dr_mobility = \<lambda>_. Some (3, 4, 5), dr_state = None, dr_handlers = []\<rparr>"
  have s: "dr_mobility ?s 0 = Some (3, 4, 5)" "dr_state ?s = None" "[(7, 7), (10, 12)] \<noteq> ([] :: point list)" by simp_all
  from drag_follows_mouse [OF s refl, of "(10, 10)"] show ?thesis
    by (intro exI [of _ "end_node_drag 0 (drag_motions 0 [(7, 7), (10, 12)] (begin_node_drag 0 (10, 10) ?s))"])
      (simp add: Let_def)
qed

section \<open>Panning\<close>

text \<open>The motions of a pan do not add up: the last one counts, and the way back leads to the start.\<close>

lemma panning_motion_last:
  assumes "panning_motion c (Some p) m vp = Inr u"
  shows "panning_motion c (Some p) m' u = panning_motion c (Some p) m' vp"
  using assms by (auto simp: panning_motion_def set_scroll_def Let_def)

lemma panning_back:
  assumes "fst (cv_hrange c (vp_zoom vp)) \<le> vp_h vp" "vp_h vp \<le> snd (cv_hrange c (vp_zoom vp)) - vp_hpage vp"
    and "fst (cv_vrange c (vp_zoom vp)) \<le> vp_v vp" "vp_v vp \<le> snd (cv_vrange c (vp_zoom vp)) - vp_vpage vp"
  shows "panning_motion c (Some (begin_panning mouse vp)) mouse vp = Inr vp"
  using assms by (simp add: panning_motion_def begin_panning_def set_scroll_def set_value_def)

section \<open>The initial scaling\<close>

text \<open>What the canvas library documents of its conversions: a pixel is a canvas unit divided by the scale.\<close>

definition pixels_scaled :: "canvas \<Rightarrow> bool" where
  "pixels_scaled c \<longleftrightarrow> (\<forall>z > 0. \<forall>p q.
      fst (cv_to_px c z q) - fst (cv_to_px c z p) = z * (fst q - fst p)
    \<and> snd (cv_to_px c z q) - snd (cv_to_px c z p) = z * (snd q - snd p)
    \<and> fst (cv_from_px c z q) - fst (cv_from_px c z p) = (fst q - fst p) / z
    \<and> snd (cv_from_px c z q) - snd (cv_from_px c z p) = (snd q - snd p) / z
    \<and> cv_from_px c z (cv_to_px c z p) = p)"

definition visible :: "canvas \<Rightarrow> viewport \<Rightarrow> point \<Rightarrow> bool" where
  "visible c vp p \<longleftrightarrow>
     (let a = cv_from_px c (vp_zoom vp) (vp_h vp, vp_v vp);
          b = cv_from_px c (vp_zoom vp) (vp_h vp + vp_hpage vp, vp_v vp + vp_vpage vp)
      in fst a \<le> fst p \<and> fst p \<le> fst b \<and> snd a \<le> snd p \<and> snd p \<le> snd b)"

text \<open>The scroll bars reach the pixel.\<close>

definition reachable_px :: "canvas \<Rightarrow> viewport \<Rightarrow> point \<Rightarrow> bool" where
  "reachable_px c vp p \<longleftrightarrow>
     fst (cv_hrange c (vp_zoom vp)) \<le> fst p \<and> fst p \<le> snd (cv_hrange c (vp_zoom vp)) - vp_hpage vp
     \<and> fst (cv_vrange c (vp_zoom vp)) \<le> snd p \<and> snd p \<le> snd (cv_vrange c (vp_zoom vp)) - vp_vpage vp"

definition extent :: "(point \<Rightarrow> rat) \<Rightarrow> point list \<Rightarrow> rat" where
  "extent f ps = Max (set (map f ps)) - Min (set (map f ps))"

definition middle :: "(point \<Rightarrow> rat) \<Rightarrow> point list \<Rightarrow> rat" where
  "middle f ps = (Min (set (map f ps)) + Max (set (map f ps))) / 2"

text \<open>The zoom at which the nodes fill two thirds of the window.\<close>

definition fitting_zoom :: "point list \<Rightarrow> viewport \<Rightarrow> rat" where
  "fitting_zoom ps vp = min (vp_hpage vp / (3 / 2 * extent fst ps)) (vp_vpage vp / (3 / 2 * extent snd ps))"

abbreviation clamped_zoom :: "rat \<Rightarrow> rat" where
  "clamped_zoom \<equiv> set_value (1 / 100, 10) 1"

definition top_left :: "point list \<Rightarrow> viewport \<Rightarrow> point" where
  "top_left ps vp = (middle fst ps - vp_hpage vp / vp_zoom vp / 2, middle snd ps - vp_vpage vp / vp_zoom vp / 2)"

lemma clamped_zoom_bounds: "1 / 100 \<le> clamped_zoom z" "clamped_zoom z \<le> 9"
  "1 / 100 \<le> z \<Longrightarrow> z \<le> 9 \<Longrightarrow> clamped_zoom z = z" "1 / 100 \<le> z \<Longrightarrow> clamped_zoom z \<le> z"
  by (auto simp: set_value_def)

lemma set_zoom_simps [simp]:
  "vp_zoom (set_zoom c z vp) = clamped_zoom z" "vp_hpage (set_zoom c z vp) = vp_hpage vp"
  "vp_vpage (set_zoom c z vp) = vp_vpage vp"
  by (simp_all add: set_zoom_def Let_def split: prod.split)

lemma set_scroll_simps [simp]:
  "vp_zoom (set_scroll c p vp) = vp_zoom vp" "vp_hpage (set_scroll c p vp) = vp_hpage vp"
  "vp_vpage (set_scroll c p vp) = vp_vpage vp"
  by (simp_all add: set_scroll_def)

lemma autoscale_view_eq:
  assumes "pixels_scaled c" and "vp_zoom vp > 0" and "extent fst ps > 0" and "extent snd ps > 0" and "ps \<noteq> []"
  shows "autoscale_view c ps vp =
    (let vp1 = set_zoom c (fitting_zoom ps vp / vp_zoom vp) vp in scroll_to c (top_left ps vp1) vp1)"
proof -
  let ?z = "vp_zoom vp"
  define lo where "lo = (Min (set (map fst ps)), Min (set (map snd ps)))"
  define hi where "hi = (Max (set (map fst ps)), Max (set (map snd ps)))"
  obtain lx ly hx hy where px: "cv_to_px c ?z lo = (lx, ly)" "cv_to_px c ?z hi = (hx, hy)" by (meson surj_pair)
  have to: "hx - lx = ?z * extent fst ps" "hy - ly = ?z * extent snd ps"
    using assms(1,2) px by (auto simp: pixels_scaled_def lo_def hi_def extent_def)
      (metis fst_conv snd_conv)+
  have nz: "\<not> (3 / 2 * (hx - lx) = 0 \<or> 3 / 2 * (hy - ly) = 0)" using assms(2-4) by (simp add: to)
  have fit: "min (vp_hpage vp / (3 / 2 * (hx - lx))) (vp_vpage vp / (3 / 2 * (hy - ly))) = fitting_zoom ps vp / ?z"
    using assms(2) by (simp add: to fitting_zoom_def min_divide_distrib_right ac_simps)
  let ?vp = "set_zoom c (fitting_zoom ps vp / ?z) vp"
  have z': "vp_zoom ?vp > 0" using clamped_zoom_bounds(1) [of "fitting_zoom ps vp / ?z"] by simp
  obtain x1 y1 x2 y2 where corners: "cv_from_px c (vp_zoom ?vp) (vp_h ?vp, vp_v ?vp) = (x1, y1)"
    "cv_from_px c (vp_zoom ?vp) (vp_h ?vp + vp_hpage ?vp, vp_v ?vp + vp_vpage ?vp) = (x2, y2)" by (meson surj_pair)
  have "fst (cv_from_px c (vp_zoom ?vp) q) - fst (cv_from_px c (vp_zoom ?vp) p) = (fst q - fst p) / vp_zoom ?vp"
    "snd (cv_from_px c (vp_zoom ?vp) q) - snd (cv_from_px c (vp_zoom ?vp) p) = (snd q - snd p) / vp_zoom ?vp" for p q
    using assms(1) z' unfolding pixels_scaled_def by blast+
  from this [of "(vp_h ?vp + vp_hpage ?vp, vp_v ?vp + vp_vpage ?vp)" "(vp_h ?vp, vp_v ?vp)"]
  have size: "x2 - x1 = vp_hpage ?vp / vp_zoom ?vp" "y2 - y1 = vp_vpage ?vp / vp_zoom ?vp"
    unfolding corners by simp_all
  show ?thesis
    using assms(5) nz px [unfolded lo_def hi_def] corners unfolding autoscale_view_def Let_def
    by (simp only: prod.case if_False fit size top_left_def middle_def)
qed

lemma autoscale_zoom:
  assumes "pixels_scaled c" and "vp_zoom vp > 0" and "extent fst ps > 0" and "extent snd ps > 0" and "ps \<noteq> []"
  shows "vp_zoom (autoscale_view c ps vp) = clamped_zoom (fitting_zoom ps vp / vp_zoom vp)"
    and "fitting_zoom ps (autoscale_view c ps vp) = fitting_zoom ps vp"
  by (simp_all add: autoscale_view_eq [OF assms] Let_def scroll_to_def fitting_zoom_def)

lemma extent_bounds:
  assumes "p \<in> set ps"
  shows "middle f ps - extent f ps / 2 \<le> f p" and "f p \<le> middle f ps + extent f ps / 2"
proof -
  have "Min (set (map f ps)) \<le> f p" "f p \<le> Max (set (map f ps))" using assms by simp_all
  then show "middle f ps - extent f ps / 2 \<le> f p" "f p \<le> middle f ps + extent f ps / 2"
    by (simp_all add: middle_def extent_def field_simps)
qed

lemma half_fits: "3 / 2 * e \<le> w \<Longrightarrow> 0 < e \<Longrightarrow> e / 2 \<le> w / (2 :: rat)"
  by simp

text \<open>When the new zoom is at most the fitting one and the scroll bars reach, all nodes are in the window.\<close>

lemma autoscale_shows:
  assumes c: "pixels_scaled c" and vp: "vp_zoom vp > 0" "vp_hpage vp > 0" "vp_vpage vp > 0"
    and spread: "extent fst ps > 0" "extent snd ps > 0" and p: "p \<in> set ps"
    and fits: "vp_zoom (autoscale_view c ps vp) \<le> fitting_zoom ps vp"
    and reach: "reachable_px c (autoscale_view c ps vp)
      (cv_to_px c (vp_zoom (autoscale_view c ps vp)) (top_left ps (autoscale_view c ps vp)))"
  shows "visible c (autoscale_view c ps vp) p"
proof -
  let ?t = "autoscale_view c ps vp"
  let ?z = "vp_zoom ?t" and ?c = "top_left ps ?t"
  have ne: "ps \<noteq> []" using p by auto
  have z: "?z > 0" using clamped_zoom_bounds(1) [of "fitting_zoom ps vp / vp_zoom vp"] autoscale_zoom(1) [OF c vp(1) spread ne] by simp
  define u where "u = set_zoom c (fitting_zoom ps vp / vp_zoom vp) vp"
  have u: "vp_hpage u = vp_hpage vp" "vp_vpage u = vp_vpage vp" by (simp_all add: u_def)
  have t: "?t = scroll_to c (top_left ps u) u" by (simp add: autoscale_view_eq [OF c vp(1) spread ne] Let_def u_def)
  have pages: "vp_zoom ?t = vp_zoom u" "vp_hpage ?t = vp_hpage vp" "vp_vpage ?t = vp_vpage vp"
    unfolding t scroll_to_def by (simp_all add: u)
  then have tl: "?c = top_left ps u" by (simp add: top_left_def u)
  have "vp_h ?t = set_value (cv_hrange c (vp_zoom u)) (vp_hpage vp) (fst (cv_to_px c (vp_zoom u) (top_left ps u)))"
    "vp_v ?t = set_value (cv_vrange c (vp_zoom u)) (vp_vpage vp) (snd (cv_to_px c (vp_zoom u) (top_left ps u)))"
    unfolding t scroll_to_def set_scroll_def by (simp_all add: u)
  with reach have scroll: "(vp_h ?t, vp_v ?t) = cv_to_px c ?z ?c"
    unfolding reachable_px_def tl pages set_value_def prod_eq_iff by simp
  have from_px: "cv_from_px c ?z (vp_h ?t, vp_v ?t) = ?c" using c z unfolding scroll pixels_scaled_def by blast
  have lin: "fst (cv_from_px c ?z q) - fst (cv_from_px c ?z p) = (fst q - fst p) / ?z"
    "snd (cv_from_px c ?z q) - snd (cv_from_px c ?z p) = (snd q - snd p) / ?z" for p q
    using c z unfolding pixels_scaled_def by blast+
  from lin [of "(vp_h ?t + vp_hpage ?t, vp_v ?t + vp_vpage ?t)" "(vp_h ?t, vp_v ?t)"] from_px have
    right: "fst (cv_from_px c ?z (vp_h ?t + vp_hpage ?t, vp_v ?t + vp_vpage ?t)) = fst ?c + vp_hpage ?t / ?z"
      "snd (cv_from_px c ?z (vp_h ?t + vp_hpage ?t, vp_v ?t + vp_vpage ?t)) = snd ?c + vp_vpage ?t / ?z"
    by (simp_all add: algebra_simps)
  have "?z \<le> vp_hpage vp / (3 / 2 * extent fst ps)" "?z \<le> vp_vpage vp / (3 / 2 * extent snd ps)"
    using fits by (simp_all add: fitting_zoom_def)
  then have "3 / 2 * extent fst ps \<le> vp_hpage vp / ?z" "3 / 2 * extent snd ps \<le> vp_vpage vp / ?z"
    using z spread by (simp_all add: field_simps)
  then have "extent fst ps / 2 \<le> vp_hpage ?t / ?z / 2" "extent snd ps / 2 \<le> vp_vpage ?t / ?z / 2"
    unfolding pages using spread by - (rule half_fits; assumption)+
  then show ?thesis
    using extent_bounds [OF p, of fst] extent_bounds [OF p, of snd]
    unfolding visible_def Let_def from_px right by (simp add: top_left_def)
qed


definition plain_canvas :: canvas where
  "plain_canvas = \<lparr>cv_to_px = \<lambda>z p. (z * fst p, z * snd p), cv_from_px = \<lambda>z p. (fst p / z, snd p / z),
     cv_hrange = \<lambda>z. (-10000 * z, 10000 * z), cv_vrange = \<lambda>z. (-10000 * z, 10000 * z), cv_rescaled = \<lambda>_ _. (0, 0)\<rparr>"


end
