(* ===== verification/Spec2Isabelle.thy ===== *)
theory Spec2Isabelle
  imports Topo_Writer Topo_Refine Rad_Lists Rad_Numbers Topsort Cycle_Finder Test_Config Test_Jobs
    Test_Workers Test_Results Test_Report Test_Main Flow_Monitor Rdma_Analysis
    Topo_Compile Rad_Stats Scan_Hooks Gen_Callbacks Gen_Driver Viz_Scan
    Viz_Thread Viz_Stats Viz_Hud Viz_Wifi Viz_Windows Viz_View
begin

text \<open>
  Verification library of the Python programs of this repository: the topology compiler, the test
  driver of the simulator with its helpers, the dependency sorting and the utilities of the bindings
  generator, the visualizer, and the scripts that evaluate simulation output. Each is modelled as HOL functions and
  step relations with the errors of the Python code as values; this theory imports all parts and
  holds the properties that span them.

  \<^bold>\<open>The programs and the theories.\<close>

  \<^item> Shared: \<^verbatim>\<open>Py_Prelude\<close> (exceptions as the datatype \<open>py_error\<close>, results as sums with \<open>res_bind\<close>,
    \<open>res_map\<close> and \<open>res_fold\<close>, dictionaries that keep insertion order, decimal numerals, strings),
    \<^verbatim>\<open>Py_Path\<close> (paths and \<^verbatim>\<open>fnmatch\<close>), \<^verbatim>\<open>Py_Float\<close> (reading and printing decimal fractions) and
    \<^verbatim>\<open>Xml_Tree\<close> (element trees). These translate the parts of the standard library the programs use.

  \<^item> The topology compiler, \<^verbatim>\<open>topology/\<close>. \<^verbatim>\<open>Topo_Syntax\<close>: the parse trees of \<^verbatim>\<open>grammar.lark\<close> and the
    callbacks of \<^verbatim>\<open>TopoTransformer\<close>, which build blocks of instructions. \<^verbatim>\<open>Topo_Scope\<close>: \<^verbatim>\<open>Scope\<close> and
    \<^verbatim>\<open>Expr\<close>; scope objects live in a store, since the generator shares and rewires them. \<^verbatim>\<open>Topo_Codegen\<close>:
    \<^verbatim>\<open>NS3CodeGenerator\<close>, its attributes as the record \<open>gen\<close>, one function per handler, and the depth of
    the Python stack as an argument, so that \<^verbatim>\<open>RecursionError\<close> is a result. \<^verbatim>\<open>Topo_Writer\<close>: \<^verbatim>\<open>NS3Writer\<close>
    and \<^verbatim>\<open>main.py\<close>. \<^verbatim>\<open>Topo_Invariants\<close>: a locale for what the four state changes of the generator keep,
    with the properties of the instruction plan and of the node numbers. \<^verbatim>\<open>Topo_Refine\<close>: a reference
    semantics with immutable frames, and the theorem that the generator computes it. \<^verbatim>\<open>Topo_Compile\<close>: the
    same from the parse tree to the C++ text, and when the writer succeeds.

  \<^item> The test driver, \<^verbatim>\<open>simulation/test.py\<close> with \<^verbatim>\<open>simulation/utils.py\<close>. \<^verbatim>\<open>Test_Config\<close>: the configuration
    readers, \<^verbatim>\<open>make_paths\<close> and \<^verbatim>\<open>parse_examples_to_run_file\<close>. \<^verbatim>\<open>Test_Jobs\<close>: the class \<^verbatim>\<open>Job\<close>, the
    command of a job, the choice of suites and examples, the queue. \<^verbatim>\<open>Test_Workers\<close>: the queues, the
    worker threads, the main thread and the interrupt as the step relation \<open>pool_step\<close>.
    \<^verbatim>\<open>Test_Results\<close>: the loop over the results, counters, results file, summary and exit status.
    \<^verbatim>\<open>Test_Report\<close>: the text and HTML reports. \<^verbatim>\<open>Test_Main\<close>: \<^verbatim>\<open>run_tests\<close> and \<^verbatim>\<open>main\<close> as the composition
    of these.

  \<^item> The bindings generator, \<^verbatim>\<open>simulation/bindings/python/\<close>. \<^verbatim>\<open>Topsort\<close> and \<^verbatim>\<open>Cycle_Finder\<close>: \<^verbatim>\<open>topsort.py\<close>.
    \<^verbatim>\<open>Rad_Lists\<close>, \<^verbatim>\<open>Rad_Numbers\<close> and \<^verbatim>\<open>Rad_Stats\<close>: \<^verbatim>\<open>rad_util.py\<close>. \<^verbatim>\<open>Scan_Hooks\<close>: the two scanners of
    the C++ headers, \<^verbatim>\<open>ns3modulescan.py\<close> and \<^verbatim>\<open>ns3modulescan-modular.py\<close>, with the annotations the hooks set
    as state and the runs as sequences of calls into pybindgen. \<^verbatim>\<open>Gen_Callbacks\<close>: the smart pointer
    transformation, the callback classes and their type handlers. \<^verbatim>\<open>Gen_Driver\<close>: the customizations of the
    modules, among them those of \<^verbatim>\<open>core\<close> and \<^verbatim>\<open>wifi\<close>, and the steps of \<^verbatim>\<open>ns3modulegen-modular.py\<close>.

  \<^item> The visualizer, \<^verbatim>\<open>simulation/src/visualizer/visualizer/\<close>. \<^verbatim>\<open>Viz_Svg\<close>: the image of a node. \<^verbatim>\<open>Viz_Scene\<close>:
    nodes, channels and links, the scan of the topology, the selection; the properties set on canvas
    items are fields of the state \<open>scene\<close>. \<^verbatim>\<open>Viz_Invariant\<close>: the invariant of the scene and the step relation of its
    operations. \<^verbatim>\<open>Viz_Scan\<close>: what a scan adds, and the guarantees of reachable scenes. \<^verbatim>\<open>Viz_Thread\<close>: the simulation
    thread, the main thread with its timers, the lock and the signal, interleaved by the step relation
    \<open>vis_step\<close>. \<^verbatim>\<open>Viz_Stats\<close>: the samples of traffic, the arrows drawn for them, and the interface statistics.
    \<^verbatim>\<open>Viz_Windows\<close>: the information windows, the update of the whole view, and the packet filter.
    \<^verbatim>\<open>Viz_View\<close>: zoom, scrolling, panning, dragging, and the loading of plugins. \<^verbatim>\<open>Viz_Hud\<close>: the axes.
    \<^verbatim>\<open>Viz_Wifi\<close>: the links between stations and access points.

  \<^item> Evaluation of output. \<^verbatim>\<open>Flow_Monitor\<close>: \<^verbatim>\<open>flowmon-parse-results.py\<close>. \<^verbatim>\<open>Rdma_Analysis\<close>: the five
    scripts of \<^verbatim>\<open>analysis/\<close>.

  \<^bold>\<open>What is shown.\<close>

  \<^item> Topology: the mutable scopes, stale bindings and rewired parents never matter for sources whose
    modules use each other without a cycle: the compiler gives what the reference semantics gives,
    errors included, and the stack bound is never the cause of a failure. A main module that uses
    itself overflows every stack. Every link has its own number and an existing
    helper that is created before; node numbers are distinct and below the number of created nodes;
    the writer fails exactly on undeclared link ends and on speeds that are not pairs.

  \<^item> Test driver: whatever the threads do, each dispatched job has exactly one result, a run ends
    after a bounded number of steps, gets stuck only when a worker died or there is none, prints the
    same summary as any other interleaving, and exits with 0 exactly when every job is skipped or
    passed. The behaviour of the early ends of a run, of the configuration readers (errors included)
    and of the reports is described branch by branch.

  \<^item> Bindings generator: \<^verbatim>\<open>topsort\<close> and \<^verbatim>\<open>topsort_levels\<close> are correct and fail exactly on cycles;
    \<^verbatim>\<open>find_cycles\<close> finds exactly the simple cycles, each once; the utilities meet their specifications,
    and where they do not, the exception is stated.

  \<^item> Scanner and generator of the bindings: the two scanners agree on header paths, and a planned scan keeps
    the precedences between modules; a smart pointer is transformed however it is written, and the handler
    of a callback has a class exactly when its types are known, although it may be enabled without one.

  \<^item> Visualizer: in every reachable scene the references are closed, lines join the present positions and the
    marks agree with the selection. The end of the program cannot hang, no signal of the main thread is
    lost and messages come once and in order; two races of the timers and signals are exhibited. The
    arrows are those of the samples and none is lost, unless a sample has no bytes. Links to access
    points agree with the lists of the nodes. One window that cannot be updated stops the view
    for good. A dragged node follows the mouse; the initial scaling shows all nodes but is not stable under
    repetition; the axes carry four to nine marks.

  \<^item> Evaluation: flows get the statistics of their id, derived figures are within bounds; the bins of
    the completion times partition the flows, and the script loses the largest flow; the area under a
    throughput curve is the traffic.

  \<^bold>\<open>Interfaces.\<close> A first-in-first-out queue, a worker that runs tasks, the numbering of a dictionary and
  the invariants of the generator are locales, interpreted on the definitions of the code.

  \<^bold>\<open>Conventions and bounds.\<close> Python integers are \<open>int\<close> or \<open>nat\<close>, floats are exact rationals: rounding to
  53 bits, infinities and NaN are not modelled. A file is the list of its lines or its text. The
  axes (\<^verbatim>\<open>hud.py\<close>) and the widths and angles of arrows use \<open>real\<close>, since the code takes logarithms and
  arcus tangents. The
  stack depth of the topology compiler is an argument; \<open>depth_bound\<close> gives a depth that suffices, four
  calls for each block that can be entered and one for each level of an expression. Every other recursion is total, but for loops
  that need not end, which are partial functions with a proof of when they return. What the repository does not
  contain is a parameter: the Lark parser, the processes that are run, the file system, \<^verbatim>\<open>eval\<close> and
  \<^verbatim>\<open>exec\<close> on the text of configuration files, the XML parser, the grouping of data frames, the simulated network and the canvas
  of the visualizer, and the
  iteration order of the dictionaries of Python before 3.7 in \<^verbatim>\<open>topsort.py\<close>. The outcome of the
  process of a job is fixed before the run.

  \<^bold>\<open>Not modelled.\<close> The C++ simulator; the generated bindings (\<^verbatim>\<open>modulegen__gcc_*.py\<close> and
  \<^verbatim>\<open>callbacks_list.py\<close>, registration calls without logic of their own); the parser behind the scanner
  (pygccxml) and the code writer behind the generator (pybindgen), whose calls are recorded; the canvas, widget
  and rendering libraries of the visualizer and the code that builds its windows; its shell
  (\<^verbatim>\<open>ipython_view.py\<close>), which is never imported, since \<^verbatim>\<open>core.py\<close> asks for a module of another name; the
  example simulations; documentation builds. Of \<^verbatim>\<open>test.py\<close>: the text of the option parser, verbose
  messages, copying and deleting files. Of \<^verbatim>\<open>rad_util.py\<close>: printing and timing. Modelling these would
  only restate calls of other libraries.
\<close>

section \<open>The test driver from the dispatched jobs to the exit status\<close>

lemma all_results_iff:
  assumes "Inr ` R = f ` J"
  shows "(\<forall>r \<in> R. Q r) \<longleftrightarrow> (\<forall>j \<in> J. \<exists>r. f j = Inr r \<and> Q r)"
proof
  assume R: "\<forall>r \<in> R. Q r"
  show "\<forall>j \<in> J. \<exists>r. f j = Inr r \<and> Q r"
  proof
    fix j assume "j \<in> J"
    then have "f j \<in> Inr ` R" using assms by simp
    then show "\<exists>r. f j = Inr r \<and> Q r" using R by auto
  qed
next
  assume J: "\<forall>j \<in> J. \<exists>r. f j = Inr r \<and> Q r"
  show "\<forall>r \<in> R. Q r"
  proof
    fix r assume "r \<in> R"
    then have "Inr r \<in> f ` J" using assms by auto
    then show "Q r" using J by force
  qed
qed

lemma status_of_jobs:
  assumes "dispatch_jobs cfg opts run eval programs scripts ex cwd outdir = Inr js"
    and "pool_run (thread_body cfg opts outcome) (start_pool p js) n s" and "main_done s" and "\<not> thread_exit s"
    and "collect_results opts use (length js) read (results s) = Inr st"
  shows "exit_code (length js) st = 0 \<longleftrightarrow>
    (\<forall>j \<in> set js.
       \<exists>j'. thread_body cfg opts outcome False j = Inr j' \<and> \<not> is_break j' \<and> (is_skip j' \<or> returncode j' = 0))"
proof -
  let ?w = "thread_body cfg opts outcome False"
  have len: "length (results s) = length js"
    using dispatched_results [OF assms(1-3)] by (metis length_map size_mset)
  have "mset (map Inr (results s)) = mset (map ?w js)" using dispatched_results [OF assms(1-3)] assms(4) by simp
  then have "Inr ` set (results s) = ?w ` set js" by (metis list.set_map set_mset_mset)
  then have "(\<forall>r \<in> set (results s). Q r) \<longleftrightarrow> (\<forall>j \<in> set js. \<exists>j'. ?w j = Inr j' \<and> Q j')" for Q
    by (rule all_results_iff)
  with exit_code_zero [OF assms(5) len] show ?thesis by simp
qed

text \<open>
  Claim C3. The test driver as a whole: a run that gets past the build, lists nothing and whose worker
  threads finish without an interrupt, in whatever interleaving, ends with status 0 exactly when the
  work on every dispatched job gives a job that is skipped or returned 0.
\<close>

theorem run_exit_status:
  assumes "run_tests w opts = Inr oc" and "configure w = Inr cfg" and "\<not> opt_list opts" "\<not> opt_kinds opts"
    and "opt_no_build opts \<or> w_shell w (build_cmd (w_platform w) (w_python w) opts) = 0"
    and "dispatched_jobs w opts cfg = Inr js"
    and "pool_run (thread_body cfg opts outcome) (start_pool p js) n s" and "main_done s" and "\<not> thread_exit s"
    and "w_pool w js = results s"
  shows "exit_status (run_tests w opts) = 0 \<longleftrightarrow>
    (\<forall>j \<in> set js.
       \<exists>j'. thread_body cfg opts outcome False j = Inr j' \<and> \<not> is_break j' \<and> (is_skip j' \<or> returncode j' = 0))"
proof -
  from run_tests_returned [OF assms(1-5)] assms(6,10) obtain st where
    st: "collect_results opts (use_color opts (w_environ w)) (length js) (w_result_file w) (results s) = Inr st"
    and "returned oc = Some (exit_code (length js) st)" by auto
  with assms(1) have "exit_status (run_tests w opts) = exit_code (length js) st" by (simp add: exit_status_def)
  moreover from assms(6) obtain programs scripts ex where
    "dispatch_jobs cfg opts (w_run w) (w_eval_cond w cfg) programs scripts ex (w_cwd w) (w_output_dir w) = Inr js"
    by (rule dispatched_jobsE)
  ultimately show ?thesis using status_of_jobs [OF _ assms(7-9) st] by simp
qed

definition small_world :: world where
  "small_world = sample_world\<lparr>w_pool := \<lambda>_. results (finished_pool sample_result),
     w_initial := sample_globals\<lparr>NS3_BASEDIR := ''a'', NS3_BUILDDIR := ''b''\<rparr>,
     w_result_file := \<lambda>_. Some '''', w_cwd := ''/ns3'', w_output_dir := ''/ns3/out''\<rparr>"

definition small_options :: options where
  "small_options = sample_options\<lparr>opt_no_build := True\<rparr>"

abbreviation small_globals :: globals where
  "small_globals \<equiv> sample_globals\<lparr>NS3_BASEDIR := ''a'', NS3_BUILDDIR := ''b''\<rparr>"

lemma small_run:
  "configure small_world = Inr small_globals" "is_ok (run_tests small_world small_options)"
  "dispatched_jobs small_world small_options small_globals = Inr [sample_job]"
  "thread_body small_globals small_options (\<lambda>_. sample_runner) False sample_job = Inr sample_result"
  by code_simp+

lemma run_exit_status_witness: "exit_status (run_tests small_world small_options) = 0"
proof -
  from small_run(2) obtain oc where oc: "run_tests small_world small_options = Inr oc" by (auto simp: is_ok_iff)
  have o: "\<not> opt_list small_options" "\<not> opt_kinds small_options" "opt_no_build small_options"
    by (simp_all add: small_options_def sample_options_def default_options_def)
  have "\<not> is_break sample_job" by (simp add: sample_job_def suite_job_fields)
  note run = single_run [OF this, where perform = "thread_body small_globals small_options (\<lambda>_. sample_runner)", OF small_run(4)]
  have "\<not> thread_exit (finished_pool sample_result)" by (simp add: finished_pool_def)
  moreover have "w_pool small_world [sample_job] = results (finished_pool sample_result)" by (simp add: small_world_def)
  moreover have "\<not> is_break sample_result \<and> (is_skip sample_result \<or> returncode sample_result = 0)" by code_simp
  ultimately show ?thesis
    using run_exit_status [OF oc small_run(1) o(1,2) disjI1 [OF o(3)] small_run(3) run finished_pool_done(1)] small_run(4)
    by simp
qed

text \<open>
  Claim C4. Two uninterrupted runs over the same jobs, with whatever numbers of workers and whatever
  interleavings, print the same summary and end with the same status.
\<close>

theorem run_schedule_independent:
  assumes "dispatch_jobs cfg opts run eval programs scripts ex cwd outdir = Inr js"
    and "pool_run (thread_body cfg opts outcome) (start_pool p js) n s" and "main_done s" and "\<not> thread_exit s"
    and "pool_run (thread_body cfg opts outcome) (start_pool p' js) n' s'" and "main_done s'" and "\<not> thread_exit s'"
    and "collect_results opts use (length js) read (results s) = Inr st"
    and "collect_results opts use (length js) read (results s') = Inr st'"
  shows "summary_text (length js) st = summary_text (length js) st' \<and> exit_code (length js) st = exit_code (length js) st'"
proof -
  have "image_mset (Inr :: job \<Rightarrow> py_error + job) (mset (results s)) = image_mset Inr (mset (results s'))"
    using dispatched_results [OF assms(1-3)] dispatched_results [OF assms(1,5,6)] assms(4,7) by simp
  then have "image_mset projr (image_mset (Inr :: job \<Rightarrow> py_error + job) (mset (results s))) =
      image_mset projr (image_mset (Inr :: job \<Rightarrow> py_error + job) (mset (results s')))" by simp
  then have "mset (results s) = mset (results s')" by (simp add: multiset.map_comp comp_def)
  then show ?thesis by (rule summary_of_mset [OF assms(8,9)])
qed

lemma run_schedule_independent_witness:
  "\<exists>st st'. collect_results sample_options False (length [sample_job]) (\<lambda>_. Some '''') (results (finished_pool sample_result)) = Inr st \<and>
     collect_results sample_options False (length [sample_job]) (\<lambda>_. Some '''') (results (finished_pool sample_result)) = Inr st' \<and>
     summary_text (length [sample_job]) st = summary_text (length [sample_job]) st'"
proof -
  let ?c = "collect_results sample_options False (length [sample_job]) (\<lambda>_. Some '''') (results (finished_pool sample_result))"
  have "is_ok ?c" by code_simp
  then obtain st where st: "?c = Inr st" by (auto simp: is_ok_iff)
  have no: "\<not> thread_exit (finished_pool sample_result)" by (simp add: finished_pool_def)
  from run_schedule_independent [OF sample_dispatch sample_run finished_pool_done(1) no sample_run finished_pool_done(1) no st st] st
  show ?thesis by blast
qed

end
